(* ===== verification/Prelude.thy ===== *)
theory Prelude
  imports Complex_Main "HOL-Library.Word"
begin

text \<open>
  Machine integers of the crate as words, the little-endian byte encodings of the
  \<^verbatim>\<open>byteorder\<close> calls, and the generic facts on words, lists and bit fields that the
  component theories share.  The collections declared here (\<open>bitfield\<close>, \<open>bytes\<close>)
  carry the component proofs.
\<close>

unbundle bit_operations_syntax

type_synonym u8 = "8 word"
type_synonym u16 = "16 word"
type_synonym u32 = "32 word"
type_synonym u64 = "64 word"
type_synonym i8 = "8 word"
type_synonym i16 = "16 word"
type_synonym i32 = "32 word"
type_synonym bytes = "8 word list"

named_theorems bitfield \<open>masks and shifts of words as arithmetic on naturals\<close>
named_theorems bytes \<open>lengths and shapes of byte encodings\<close>

section \<open>Little-endian byte encodings\<close>

text \<open>
  \<open>le_encode k n\<close> is the little-endian representation of \<open>n\<close> in \<open>k\<close> bytes, and
  \<open>le_decode\<close> reads one back: \<^verbatim>\<open>to_le_bytes\<close> and \<^verbatim>\<open>from_le_bytes\<close> of the integer types
  (and of the bit patterns of \<^verbatim>\<open>f32\<close> and \<^verbatim>\<open>f64\<close>).
\<close>

primrec le_encode :: "nat \<Rightarrow> nat \<Rightarrow> bytes" where
  "le_encode 0 n = []"
| "le_encode (Suc k) n = word_of_nat (n mod 256) # le_encode k (n div 256)"

primrec le_decode :: "bytes \<Rightarrow> nat" where
  "le_decode [] = 0"
| "le_decode (b # bs) = unat b + 256 * le_decode bs"

definition to_le :: "nat \<Rightarrow> 'a::len word \<Rightarrow> bytes" where
  "to_le k w = le_encode k (unat w)"

definition from_le :: "bytes \<Rightarrow> 'a::len word" where
  "from_le bs = word_of_nat (le_decode bs)"

lemma length_le_encode [simp, bytes]: "length (le_encode k n) = k"
  by (induction k arbitrary: n) auto

lemma length_to_le [simp, bytes]: "length (to_le k w) = k"
  by (simp add: to_le_def)

lemma unat_u8_mod [simp]: "unat (word_of_nat (n mod 256) :: u8) = n mod 256"
  by (simp add: unat_of_nat)

lemma unat_u8_less [simp]: "unat (b :: u8) < 256"
  using unsigned_less [of b, where ?'a = nat] by simp

lemma le_decode_encode: "le_decode (le_encode k n) = n mod 256 ^ k"
proof (induction k arbitrary: n)
  case 0
  then show ?case by simp
next
  case (Suc k)
  have "n mod (256 * 256 ^ k) = 256 * (n div 256 mod 256 ^ k) + n mod 256"
    by (simp add: mod_mult2_eq)
  then show ?case by (simp add: Suc.IH)
qed

lemma le_encode_decode: "le_encode (length bs) (le_decode bs) = bs"
proof (induction bs)
  case Nil
  then show ?case by simp
next
  case (Cons b bs)
  have "unat b < 256" by simp
  then have "(unat b + 256 * le_decode bs) mod 256 = unat b"
    and "(unat b + 256 * le_decode bs) div 256 = le_decode bs" by auto
  with Cons.IH show ?case by simp
qed

lemma le_decode_less: "le_decode bs < 256 ^ length bs"
  using le_decode_encode [of "length bs" "le_decode bs"]
  by (metis le_encode_decode mod_less_divisor zero_less_numeral zero_less_power)

lemma from_le_to_le:
  assumes "LENGTH('a::len) = 8 * k"
  shows "from_le (to_le k w) = (w :: 'a word)"
proof -
  have "unat w < 256 ^ k"
    using unsigned_less [of w, where ?'a = nat] assms by (simp add: power_mult)
  then show ?thesis by (simp add: from_le_def to_le_def le_decode_encode)
qed

lemma to_le_from_le:
  assumes "LENGTH('a::len) = 8 * k" and "length bs = k"
  shows "to_le k (from_le bs :: 'a word) = bs"
proof -
  have "le_decode bs < 2 ^ LENGTH('a)"
    using le_decode_less [of bs] assms by (simp add: power_mult)
  then show ?thesis
    using assms(2) le_encode_decode [of bs]
    by (simp add: from_le_def to_le_def unat_of_nat)
qed

lemma to_le_1: "to_le 1 (b :: u8) = [b]"
  by (simp add: to_le_def)

lemma to_le_0 [simp]: "to_le k 0 = replicate k 0"
proof -
  have "le_encode k 0 = replicate k 0" by (induction k) simp_all
  then show ?thesis by (simp add: to_le_def)
qed

section \<open>Widening casts\<close>

lemma unat_u32_less: "unat (w :: u32) < 2 ^ 32"
  using unsigned_less [of w] by simp

lemma unat_u64_less: "unat (w :: u64) < 2 ^ 64"
  using unsigned_less [of w] by simp

lemma unat_ucast_up:
  assumes "LENGTH('a::len) \<le> LENGTH('b::len)"
  shows "unat (ucast (w :: 'a word) :: 'b word) = unat w"
proof -
  have "unat w < 2 ^ LENGTH('b)"
    using unsigned_less [of w, where ?'a = nat] assms
    by (meson less_le_trans one_le_numeral power_increasing)
  then show ?thesis by (simp add: unsigned_ucast_eq take_bit_nat_eq_self)
qed

section \<open>Masks and shifts\<close>

lemma unat_and_mask: "unat (a AND mask n :: 'a::len word) = unat a mod 2 ^ n"
proof -
  have "unat (take_bit n a) = take_bit n (unat a)" by (rule unsigned_take_bit_eq)
  then show ?thesis by (simp only: take_bit_eq_mask) (simp flip: take_bit_eq_mask take_bit_eq_mod)
qed

lemma unat_drop_bit [bitfield]: "unat (drop_bit n a :: 'a::len word) = unat a div 2 ^ n"
proof -
  have "unat (drop_bit n a) = drop_bit n (unat a)"
    by (simp add: unsigned_drop_bit_eq take_bit_nat_eq_self)
  then show ?thesis by (simp add: drop_bit_eq_div)
qed

lemma unat_and_1 [bitfield]: "unat (a AND 1 :: 'a::len word) = unat a mod 2"
  using unat_and_mask [of a 1] by simp

lemma unat_and_3 [bitfield]: "unat (a AND 3 :: 'a::len word) = unat a mod 4"
  using unat_and_mask [of a 2] by (simp add: mask_numeral)

lemma unat_and_7 [bitfield]: "unat (a AND 7 :: 'a::len word) = unat a mod 8"
  using unat_and_mask [of a 3] by (simp add: mask_numeral)

lemma unat_and_15 [bitfield]: "unat (a AND 15 :: 'a::len word) = unat a mod 16"
  using unat_and_mask [of a 4] by (simp add: mask_numeral)

lemma unat_and_31 [bitfield]: "unat (a AND 31 :: 'a::len word) = unat a mod 32"
  using unat_and_mask [of a 5] by (simp add: mask_numeral)

lemma unat_and_63 [bitfield]: "unat (a AND 63 :: 'a::len word) = unat a mod 64"
  using unat_and_mask [of a 6] by (simp add: mask_numeral)

section \<open>Searching a range\<close>

lemma find_upt_Some:
  "find P (map f [0..<n]) = Some x \<longleftrightarrow> (\<exists>i < n. x = f i \<and> P (f i) \<and> (\<forall>j < i. \<not> P (f j)))"
  by (auto simp: find_Some_iff)

lemma find_upt_None: "find P (map f [0..<n]) = None \<longleftrightarrow> (\<forall>i < n. \<not> P (f i))"
  by (auto simp: find_None_iff)

end
