(* ===== verification/Floats.thy ===== *)
theory Floats
  imports Prelude
begin

text \<open>
  The IEEE 754 binary floating-point types \<^verbatim>\<open>f32\<close> and \<^verbatim>\<open>f64\<close> of the language, as bit
  patterns.  \<open>mb\<close> is the number of stored significand bits and \<open>eb\<close> the number of exponent
  bits (23 and 8 for \<^verbatim>\<open>f32\<close>, 52 and 11 for \<^verbatim>\<open>f64\<close>).  An operation decodes its arguments,
  computes the exact result as a fraction of naturals and rounds it to nearest, ties to
  even.  The sign and payload of a NaN result, which the language leaves open, are those of
  the default quiet NaN; nothing in the crate observes them.
\<close>

type_synonym f32 = "32 word"
type_synonym f64 = "64 word"

section \<open>Bit patterns and their values\<close>

datatype fp = FNan | FInf bool | FFin bool nat int

definition emin :: "nat \<Rightarrow> nat \<Rightarrow> int" where
  "emin mb eb = 2 - 2 ^ (eb - 1) - int mb"

definition fp_fields :: "nat \<Rightarrow> nat \<Rightarrow> bool \<Rightarrow> nat \<Rightarrow> nat \<Rightarrow> fp" where
  "fp_fields mb eb s E f =
     (if E = 2 ^ eb - 1 then (if f = 0 then FInf s else FNan)
      else if E = 0 then FFin s f (emin mb eb)
      else FFin s (2 ^ mb + f) (emin mb eb + int E - 1))"

definition fp_decode :: "nat \<Rightarrow> nat \<Rightarrow> nat \<Rightarrow> fp" where
  "fp_decode mb eb b =
     fp_fields mb eb (b div 2 ^ (mb + eb) mod 2 = 1) (b div 2 ^ mb mod 2 ^ eb) (b mod 2 ^ mb)"

definition fp_pack :: "nat \<Rightarrow> nat \<Rightarrow> bool \<Rightarrow> nat \<Rightarrow> nat" where
  "fp_pack mb eb s mag =
     (if s then 2 ^ (mb + eb) else 0) + min mag ((2 ^ eb - 1) * 2 ^ mb)"

definition fp_nan :: "nat \<Rightarrow> nat \<Rightarrow> nat" where
  "fp_nan mb eb = (2 ^ eb - 1) * 2 ^ mb + 2 ^ (mb - 1)"

definition fp_inf :: "nat \<Rightarrow> nat \<Rightarrow> bool \<Rightarrow> nat" where
  "fp_inf mb eb s = fp_pack mb eb s ((2 ^ eb - 1) * 2 ^ mb)"

section \<open>Rounding a fraction to nearest, ties to even\<close>

fun bit_len :: "nat \<Rightarrow> nat" where
  "bit_len n = (if n = 0 then 0 else Suc (bit_len (n div 2)))"

declare bit_len.simps [simp del]

lemma bit_len_numeral:
  "bit_len 0 = 0" "bit_len 1 = 1" "bit_len (Suc 0) = 1"
  "bit_len (numeral (Num.Bit0 n)) = bit_len (numeral n) + 1"
  "bit_len (numeral (Num.Bit1 n)) = bit_len (numeral n) + 1"
proof -
  show "bit_len 0 = 0" by (simp add: bit_len.simps)
  show one: "bit_len 1 = 1" by (subst bit_len.simps) (simp add: bit_len.simps [of 0])
  then show "bit_len (Suc 0) = 1" by simp
  have "numeral (Num.Bit0 n) div 2 = (numeral n :: nat)" "numeral (Num.Bit1 n) div 2 = (numeral n :: nat)"
    by simp_all
  then show "bit_len (numeral (Num.Bit0 n)) = bit_len (numeral n) + 1"
    "bit_len (numeral (Num.Bit1 n)) = bit_len (numeral n) + 1"
    by (subst bit_len.simps, simp only: zero_neq_numeral [symmetric] if_False Suc_eq_plus1)+
qed

definition shift_num :: "nat \<Rightarrow> int \<Rightarrow> nat" where
  "shift_num n e = (if 0 \<le> e then n else n * 2 ^ nat (- e))"

definition shift_den :: "nat \<Rightarrow> int \<Rightarrow> nat" where
  "shift_den d e = (if 0 \<le> e then d * 2 ^ nat e else d)"

definition round_exp_adjust :: "nat \<Rightarrow> nat \<Rightarrow> nat \<Rightarrow> int \<Rightarrow> int" where
  "round_exp_adjust mb n d e =
     (if 2 ^ (mb + 1) \<le> shift_num n e div shift_den d e then e + 1 else e)"

definition round_exp :: "nat \<Rightarrow> nat \<Rightarrow> nat \<Rightarrow> nat \<Rightarrow> int" where
  "round_exp mb eb n d =
     round_exp_adjust mb n d
       (max (emin mb eb) (int (bit_len n) - int (bit_len d) - int mb - 1))"

definition half_even :: "nat \<Rightarrow> nat \<Rightarrow> nat \<Rightarrow> nat" where
  "half_even b q r = (if 2 * r < b \<or> (2 * r = b \<and> even q) then q else q + 1)"

definition round_half_even :: "nat \<Rightarrow> nat \<Rightarrow> nat" where
  "round_half_even a b = half_even b (a div b) (a mod b)"

definition round_mag :: "nat \<Rightarrow> nat \<Rightarrow> nat \<Rightarrow> nat \<Rightarrow> int \<Rightarrow> nat" where
  "round_mag mb eb n d e =
     nat (e - emin mb eb) * 2 ^ mb + round_half_even (shift_num n e) (shift_den d e)"

definition fp_round :: "nat \<Rightarrow> nat \<Rightarrow> bool \<Rightarrow> nat \<Rightarrow> nat \<Rightarrow> nat" where
  "fp_round mb eb s n d =
     fp_pack mb eb s (if n = 0 then 0 else round_mag mb eb n d (round_exp mb eb n d))"

definition fp_round_scaled :: "nat \<Rightarrow> nat \<Rightarrow> bool \<Rightarrow> nat \<Rightarrow> int \<Rightarrow> nat" where
  "fp_round_scaled mb eb s m e = fp_round mb eb s (m * 2 ^ nat e) (2 ^ nat (- e))"

section \<open>Arithmetic\<close>

definition signed_nat :: "bool \<Rightarrow> nat \<Rightarrow> int" where
  "signed_nat s m = (if s then - int m else int m)"

definition fp_round_signed :: "nat \<Rightarrow> nat \<Rightarrow> bool \<Rightarrow> int \<Rightarrow> int \<Rightarrow> nat" where
  "fp_round_signed mb eb z v e =
     fp_round_scaled mb eb (if v = 0 then z else v < 0) (nat \<bar>v\<bar>) e"

fun fp_add :: "nat \<Rightarrow> nat \<Rightarrow> fp \<Rightarrow> fp \<Rightarrow> nat" where
  "fp_add mb eb FNan y = fp_nan mb eb"
| "fp_add mb eb x FNan = fp_nan mb eb"
| "fp_add mb eb (FInf s) (FInf t) = (if s = t then fp_inf mb eb s else fp_nan mb eb)"
| "fp_add mb eb (FInf s) (FFin t m e) = fp_inf mb eb s"
| "fp_add mb eb (FFin s m e) (FInf t) = fp_inf mb eb t"
| "fp_add mb eb (FFin s1 m1 e1) (FFin s2 m2 e2) =
     (if m1 = 0 \<and> m2 \<noteq> 0 then fp_round_scaled mb eb s2 m2 e2
      else if m2 = 0 \<and> m1 \<noteq> 0 then fp_round_scaled mb eb s1 m1 e1
      else fp_round_signed mb eb (s1 \<and> s2)
       (signed_nat s1 m1 * 2 ^ nat (e1 - e2) + signed_nat s2 m2 * 2 ^ nat (e2 - e1))
       (min e1 e2))"

fun fp_neg :: "fp \<Rightarrow> fp" where
  "fp_neg FNan = FNan"
| "fp_neg (FInf s) = FInf (\<not> s)"
| "fp_neg (FFin s m e) = FFin (\<not> s) m e"

definition fp_sub :: "nat \<Rightarrow> nat \<Rightarrow> fp \<Rightarrow> fp \<Rightarrow> nat" where
  "fp_sub mb eb x y = fp_add mb eb x (fp_neg y)"

fun fp_mul :: "nat \<Rightarrow> nat \<Rightarrow> fp \<Rightarrow> fp \<Rightarrow> nat" where
  "fp_mul mb eb FNan y = fp_nan mb eb"
| "fp_mul mb eb x FNan = fp_nan mb eb"
| "fp_mul mb eb (FInf s) (FInf t) = fp_inf mb eb (s \<noteq> t)"
| "fp_mul mb eb (FInf s) (FFin t m e) =
     (if m = 0 then fp_nan mb eb else fp_inf mb eb (s \<noteq> t))"
| "fp_mul mb eb (FFin s m e) (FInf t) =
     (if m = 0 then fp_nan mb eb else fp_inf mb eb (s \<noteq> t))"
| "fp_mul mb eb (FFin s1 m1 e1) (FFin s2 m2 e2) =
     fp_round_scaled mb eb (s1 \<noteq> s2) (m1 * m2) (e1 + e2)"

fun fp_div :: "nat \<Rightarrow> nat \<Rightarrow> fp \<Rightarrow> fp \<Rightarrow> nat" where
  "fp_div mb eb FNan y = fp_nan mb eb"
| "fp_div mb eb x FNan = fp_nan mb eb"
| "fp_div mb eb (FInf s) (FInf t) = fp_nan mb eb"
| "fp_div mb eb (FInf s) (FFin t m e) = fp_inf mb eb (s \<noteq> t)"
| "fp_div mb eb (FFin s m e) (FInf t) = fp_pack mb eb (s \<noteq> t) 0"
| "fp_div mb eb (FFin s1 m1 e1) (FFin s2 m2 e2) =
     (if m2 = 0 then (if m1 = 0 then fp_nan mb eb else fp_inf mb eb (s1 \<noteq> s2))
      else fp_round mb eb (s1 \<noteq> s2)
             (m1 * 2 ^ nat (e1 - e2)) (m2 * 2 ^ nat (e2 - e1)))"

section \<open>Rounding to integers and casts\<close>

datatype rounding_mode = Round | Ceil | Floor

fun round_up :: "rounding_mode \<Rightarrow> bool \<Rightarrow> nat \<Rightarrow> nat \<Rightarrow> bool" where
  "round_up Round s t d \<longleftrightarrow> d \<le> 2 * t"
| "round_up Ceil s t d \<longleftrightarrow> t \<noteq> 0 \<and> \<not> s"
| "round_up Floor s t d \<longleftrightarrow> t \<noteq> 0 \<and> s"

definition round_int_mag :: "rounding_mode \<Rightarrow> bool \<Rightarrow> nat \<Rightarrow> nat \<Rightarrow> nat" where
  "round_int_mag r s m d = m div d + (if round_up r s (m mod d) d then 1 else 0)"

fun fp_round_int :: "nat \<Rightarrow> nat \<Rightarrow> rounding_mode \<Rightarrow> fp \<Rightarrow> nat" where
  "fp_round_int mb eb r FNan = fp_nan mb eb"
| "fp_round_int mb eb r (FInf s) = fp_inf mb eb s"
| "fp_round_int mb eb r (FFin s m e) =
     (if 0 \<le> e then fp_round_scaled mb eb s m e
      else fp_round mb eb s (round_int_mag r s m (2 ^ nat (- e))) 1)"

text \<open>The saturating cast \<^verbatim>\<open>as iN\<close>: towards zero, NaN to zero.\<close>

definition saturate :: "nat \<Rightarrow> int \<Rightarrow> int" where
  "saturate k v = max (- (2 ^ (k - 1))) (min (2 ^ (k - 1) - 1) v)"

fun fp_to_int :: "nat \<Rightarrow> fp \<Rightarrow> int" where
  "fp_to_int k FNan = 0"
| "fp_to_int k (FInf s) = (if s then - (2 ^ (k - 1)) else 2 ^ (k - 1) - 1)"
| "fp_to_int k (FFin s m e) =
     saturate k (signed_nat s (m * 2 ^ nat e div 2 ^ nat (- e)))"

definition fp_of_int :: "nat \<Rightarrow> nat \<Rightarrow> int \<Rightarrow> nat" where
  "fp_of_int mb eb v = fp_round mb eb (v < 0) (nat \<bar>v\<bar>) 1"

section \<open>Comparison\<close>

text \<open>
  Bit patterns other than NaNs are ordered like their sign-magnitude integers, with both
  zeros equal.
\<close>

definition fp_key :: "nat \<Rightarrow> nat \<Rightarrow> nat \<Rightarrow> int" where
  "fp_key mb eb b =
     signed_nat (b div 2 ^ (mb + eb) mod 2 = 1) (b mod 2 ^ (mb + eb))"

definition fp_is_nan :: "nat \<Rightarrow> nat \<Rightarrow> nat \<Rightarrow> bool" where
  "fp_is_nan mb eb b \<longleftrightarrow> (2 ^ eb - 1) * 2 ^ mb < b mod 2 ^ (mb + eb)"

section \<open>The two types\<close>

definition f64_dec :: "f64 \<Rightarrow> fp" where "f64_dec a = fp_decode 52 11 (unat a)"
definition f64_add :: "f64 \<Rightarrow> f64 \<Rightarrow> f64" where
  "f64_add a b = word_of_nat (fp_add 52 11 (f64_dec a) (f64_dec b))"
definition f64_sub :: "f64 \<Rightarrow> f64 \<Rightarrow> f64" where
  "f64_sub a b = word_of_nat (fp_sub 52 11 (f64_dec a) (f64_dec b))"
definition f64_mul :: "f64 \<Rightarrow> f64 \<Rightarrow> f64" where
  "f64_mul a b = word_of_nat (fp_mul 52 11 (f64_dec a) (f64_dec b))"
definition f64_div :: "f64 \<Rightarrow> f64 \<Rightarrow> f64" where
  "f64_div a b = word_of_nat (fp_div 52 11 (f64_dec a) (f64_dec b))"
definition f64_round_int :: "rounding_mode \<Rightarrow> f64 \<Rightarrow> f64" where
  "f64_round_int r a = word_of_nat (fp_round_int 52 11 r (f64_dec a))"
definition f64_of_int :: "int \<Rightarrow> f64" where
  "f64_of_int v = word_of_nat (fp_of_int 52 11 v)"
definition f64_to_i32 :: "f64 \<Rightarrow> i32" where
  "f64_to_i32 a = word_of_int (fp_to_int 32 (f64_dec a))"
definition f64_is_nan :: "f64 \<Rightarrow> bool" where
  "f64_is_nan a = fp_is_nan 52 11 (unat a)"
definition f64_is_infinite :: "f64 \<Rightarrow> bool" where
  "f64_is_infinite a = (case f64_dec a of FInf _ \<Rightarrow> True | _ \<Rightarrow> False)"
definition f64_lt :: "f64 \<Rightarrow> f64 \<Rightarrow> bool" where
  "f64_lt a b \<longleftrightarrow> \<not> f64_is_nan a \<and> \<not> f64_is_nan b \<and>
     fp_key 52 11 (unat a) < fp_key 52 11 (unat b)"
definition f64_eq :: "f64 \<Rightarrow> f64 \<Rightarrow> bool" where
  "f64_eq a b \<longleftrightarrow> \<not> f64_is_nan a \<and> \<not> f64_is_nan b \<and>
     fp_key 52 11 (unat a) = fp_key 52 11 (unat b)"
definition f64_infinity :: f64 where "f64_infinity = word_of_nat (fp_inf 52 11 False)"
definition f64_neg_infinity :: f64 where "f64_neg_infinity = word_of_nat (fp_inf 52 11 True)"

definition f32_dec :: "f32 \<Rightarrow> fp" where "f32_dec a = fp_decode 23 8 (unat a)"
definition f32_mul :: "f32 \<Rightarrow> f32 \<Rightarrow> f32" where
  "f32_mul a b = word_of_nat (fp_mul 23 8 (f32_dec a) (f32_dec b))"
definition f32_div :: "f32 \<Rightarrow> f32 \<Rightarrow> f32" where
  "f32_div a b = word_of_nat (fp_div 23 8 (f32_dec a) (f32_dec b))"
definition f32_round :: "f32 \<Rightarrow> f32" where
  "f32_round a = word_of_nat (fp_round_int 23 8 Round (f32_dec a))"
definition f32_of_int :: "int \<Rightarrow> f32" where
  "f32_of_int v = word_of_nat (fp_of_int 23 8 v)"
definition f32_to_i16 :: "f32 \<Rightarrow> i16" where
  "f32_to_i16 a = word_of_int (fp_to_int 16 (f32_dec a))"
definition f32_to_i8 :: "f32 \<Rightarrow> i8" where
  "f32_to_i8 a = word_of_int (fp_to_int 8 (f32_dec a))"
definition f32_is_nan :: "f32 \<Rightarrow> bool" where
  "f32_is_nan a = fp_is_nan 23 8 (unat a)"
definition f32_eq :: "f32 \<Rightarrow> f32 \<Rightarrow> bool" where
  "f32_eq a b \<longleftrightarrow> \<not> f32_is_nan a \<and> \<not> f32_is_nan b \<and>
     fp_key 23 8 (unat a) = fp_key 23 8 (unat b)"

lemmas fp_eval =
  f64_dec_def f64_add_def f64_sub_def f64_mul_def f64_div_def f64_round_int_def
  f64_of_int_def f64_to_i32_def f64_is_nan_def f64_is_infinite_def f64_lt_def f64_eq_def
  f64_infinity_def f64_neg_infinity_def
  f32_dec_def f32_mul_def f32_div_def f32_round_def f32_of_int_def f32_to_i16_def
  f32_to_i8_def f32_is_nan_def f32_eq_def
  fp_decode_def fp_fields_def emin_def fp_pack_def fp_nan_def fp_inf_def shift_num_def shift_den_def
  round_exp_def round_exp_adjust_def round_half_even_def half_even_def round_mag_def
  fp_round_def fp_round_scaled_def fp_round_signed_def signed_nat_def
  fp_sub_def round_int_mag_def saturate_def fp_of_int_def fp_key_def fp_is_nan_def
  bit_len_numeral

end
