(* ===== verification/Las_Types.thy ===== *)
theory Las_Types
  imports Floats
begin

text \<open>
  The plain data structures of the crate that its error enum carries (\<^verbatim>\<open>Version\<close>,
  \<^verbatim>\<open>Format\<close>, \<^verbatim>\<open>Transform\<close>, COPC entries, GeoTIFF data), the error enum itself
  (\<^verbatim>\<open>src/error.rs\<close>), and the result of a call: a value, an error or a panic.
  Arithmetic that the language checks in debug builds panics on overflow, so that a theorem
  that a call returns \<open>Ok\<close> holds with and without overflow checks.
\<close>

section \<open>Small structures\<close>

datatype version = Version (major: u8) (minor: u8)

record format =
  has_gps_time :: bool
  has_color :: bool
  is_extended :: bool
  has_waveform :: bool
  has_nir :: bool
  extra_bytes :: u16
  is_compressed :: bool

record transform =
  scale :: f64
  offset :: f64

record 'a vector =
  vx :: 'a
  vy :: 'a
  vz :: 'a

record color =
  red :: u16
  green :: u16
  blue :: u16

datatype scan_direction = RightToLeft | LeftToRight

record voxel_key =
  vk_l :: i32
  vk_x :: i32
  vk_y :: i32
  vk_z :: i32

record entry =
  e_key :: voxel_key
  e_offset :: u64
  e_byte_size :: i32
  e_point_count :: i32

datatype geo_tiff_data = GU16 u16 | GString "nat list" | GDoubles "f64 list"

section \<open>Errors\<close>

datatype io_error = UnexpectedEof | InvalidSeek

datatype error =
    ClosedWriter
  | HeaderTooLarge nat
  | SeekIndexOutOfBounds u64
  | InvalidClassification u8
  | ReferencedPageMissingFromEvlr entry
  | InvalidFileSignature bytes
  | InvalidInverseTransform f64 transform
  | InvalidPointFormat format
  | InvalidPointFormatNumber u8
  | InvalidScannerChannel u8
  | Io io_error
  | LaszipNotEnabled
  | LasZipError
  | LasZipVlrNotFound
  | NotAscii bytes
  | NotZeroFilled bytes
  | OffsetToEvlrsTooSmall u64
  | OffsetToPointDataTooLarge nat
  | OffsetToPointDataTooSmall u32
  | OverlapClassification
  | PointAttributesDoNotMatch format
  | PointDataRecordLengthTooLarge format u16
  | PointPaddingNotAllowed
  | ReturnNumber u8 "version option"
  | StringTooLong bytes nat
  | TooManyEvlrs nat
  | TooManyPoints u64 version
  | TooManyVlrs nat
  | TryFromIntError
  | UnsupportedFeature version string
  | UnsupportedFormat version format
  | InvalidDirection i32
  | Utf8
  | WktRequired format
  | VlrTooLong nat
  | UserDefinedCrs
  | UnreadableWktCrs
  | UnreadableGeoTiffCrs
  | UndefinedDataForGeoTiffKey u16
  | UnimplementedForGeoTiffStringAndDoubleData geo_tiff_data
  | HeaderContainsCrsVlr

section \<open>Results\<close>

datatype 'a outcome = Ok 'a | Err error | Panic

fun and_then :: "'a outcome \<Rightarrow> ('a \<Rightarrow> 'b outcome) \<Rightarrow> 'b outcome" where
  "and_then (Ok a) f = f a"
| "and_then (Err e) f = Err e"
| "and_then Panic f = Panic"

fun is_ok :: "'a outcome \<Rightarrow> bool" where
  "is_ok (Ok _) = True"
| "is_ok _ = False"

text \<open>\<^verbatim>\<open>Result::expect\<close> and \<^verbatim>\<open>Result::unwrap\<close>: an error panics.\<close>

fun expect :: "'a outcome \<Rightarrow> 'a outcome" where
  "expect (Ok a) = Ok a"
| "expect (Err _) = Panic"
| "expect Panic = Panic"

fun collect_results :: "'a outcome list \<Rightarrow> 'a list outcome" where
  "collect_results [] = Ok []"
| "collect_results (r # rs) = and_then r (\<lambda>a. and_then (collect_results rs) (\<lambda>as. Ok (a # as)))"

lemma and_then_eq_Ok [simp]:
  "and_then r f = Ok b \<longleftrightarrow> (\<exists>a. r = Ok a \<and> f a = Ok b)"
  by (cases r) auto

lemma and_then_eq_Panic:
  "and_then r f = Panic \<longleftrightarrow> r = Panic \<or> (\<exists>a. r = Ok a \<and> f a = Panic)"
  by (cases r) auto

lemma and_then_assoc:
  "and_then (and_then r f) g = and_then r (\<lambda>a. and_then (f a) g)"
  by (cases r) auto

lemma is_ok_iff: "is_ok r \<longleftrightarrow> (\<exists>a. r = Ok a)"
  by (cases r) auto

text \<open>Checked unsigned arithmetic of the language.\<close>

definition checked_add :: "'a::len word \<Rightarrow> 'a word \<Rightarrow> 'a word outcome" where
  "checked_add a b = (if unat a + unat b < 2 ^ LENGTH('a) then Ok (a + b) else Panic)"

definition checked_mul :: "'a::len word \<Rightarrow> 'a word \<Rightarrow> 'a word outcome" where
  "checked_mul a b = (if unat a * unat b < 2 ^ LENGTH('a) then Ok (a * b) else Panic)"

definition checked_sub :: "'a::len word \<Rightarrow> 'a word \<Rightarrow> 'a word outcome" where
  "checked_sub a b = (if b \<le> a then Ok (a - b) else Panic)"

lemma checked_add_eq_Ok:
  "checked_add (a :: 'a::len word) b = Ok c \<Longrightarrow> unat c = unat a + unat b"
  by (auto simp: checked_add_def unat_word_ariths split: if_splits)

lemma checked_mul_eq_Ok:
  "checked_mul (a :: 'a::len word) b = Ok c \<Longrightarrow> unat c = unat a * unat b"
  by (auto simp: checked_mul_def unat_word_ariths split: if_splits)

lemma checked_sub_eq_Ok:
  "checked_sub (a :: 'a::len word) b = Ok c \<Longrightarrow> unat c = unat a - unat b"
  by (auto simp: checked_sub_def unat_sub split: if_splits)

end
