(* ===== verification/Streams.thy ===== *)
theory Streams
  imports Las_Types
begin

text \<open>
  The stream the crate reads and writes: an in-memory \<^verbatim>\<open>Cursor<Vec<u8>>\<close> (bytes and a
  position), with the \<^verbatim>\<open>Read\<close>, \<^verbatim>\<open>Write\<close> and \<^verbatim>\<open>Seek\<close> calls the crate makes on it.
  A computation on a stream returns its outcome and the stream it leaves, also after an
  error, because a failed call of the crate leaves a partly written stream behind.
  Writing to memory does not fail; a read past the end is \<open>UnexpectedEof\<close>.

  \<open>reads\<close>, \<open>writes\<close> and \<open>consumes\<close> describe a computation by the bytes it takes or
  puts; they compose along \<open>io_bind\<close>, so the codecs of the structures are proved field by
  field.  The locale \<open>codec\<close> is the interface of a fixed-width codec.
\<close>

record cursor =
  c_data :: bytes
  c_pos :: nat

type_synonym ('s, 'a) io = "'s \<Rightarrow> 'a outcome \<times> 's"
type_synonym 'a reader = "(cursor, 'a) io"
type_synonym writer = "(cursor, unit) io"

section \<open>Computations\<close>

definition io_return :: "'a \<Rightarrow> ('s, 'a) io" where
  "io_return a s = (Ok a, s)"

definition io_lift :: "'a outcome \<Rightarrow> ('s, 'a) io" where
  "io_lift r s = (r, s)"

definition io_bind :: "('s, 'a) io \<Rightarrow> ('a \<Rightarrow> ('s, 'b) io) \<Rightarrow> ('s, 'b) io" where
  "io_bind m f s =
     (case m s of
        (Ok a, t) \<Rightarrow> f a t
      | (Err e, t) \<Rightarrow> (Err e, t)
      | (Panic, t) \<Rightarrow> (Panic, t))"

fun io_times :: "nat \<Rightarrow> ('s, 'a) io \<Rightarrow> ('s, 'a list) io" where
  "io_times 0 m = io_return []"
| "io_times (Suc n) m = io_bind m (\<lambda>a. io_bind (io_times n m) (\<lambda>as. io_return (a # as)))"

fun io_each :: "('a \<Rightarrow> ('s, unit) io) \<Rightarrow> 'a list \<Rightarrow> ('s, unit) io" where
  "io_each f [] = io_return ()"
| "io_each f (a # as) = io_bind (f a) (\<lambda>_. io_each f as)"

text \<open>The state of a larger structure, and a computation on a part of it.\<close>

definition io_get :: "('s, 's) io" where
  "io_get s = (Ok s, s)"

definition io_modify :: "('s \<Rightarrow> 's) \<Rightarrow> ('s, unit) io" where
  "io_modify f s = (Ok (), f s)"

definition io_zoom :: "('s \<Rightarrow> 't) \<Rightarrow> ('t \<Rightarrow> 's \<Rightarrow> 's) \<Rightarrow> ('t, 'a) io \<Rightarrow> ('s, 'a) io" where
  "io_zoom part upd m s = (case m (part s) of (r, t) \<Rightarrow> (r, upd t s))"

lemmas io_defs = io_bind_def io_get_def io_modify_def io_zoom_def io_lift_def io_return_def

lemma io_bind_get [simp]: "io_bind io_get f s = f s s"
  by (simp add: io_bind_def io_get_def)

lemma io_bind_modify [simp]: "io_bind (io_modify g) f s = f () (g s)"
  by (simp add: io_bind_def io_modify_def)

lemma io_zoom_eq: "m (part s) = (r, t) \<Longrightarrow> io_zoom part upd m s = (r, upd t s)"
  by (simp add: io_zoom_def)

lemma io_bind_return [simp]: "io_bind (io_return a) f = f a"
  by (simp add: fun_eq_iff io_bind_def io_return_def)

lemma io_bind_assoc: "io_bind (io_bind m f) g = io_bind m (\<lambda>a. io_bind (f a) g)"
  by (simp add: fun_eq_iff io_bind_def split: prod.splits outcome.splits)

lemma io_bind_Ok: "m s = (Ok a, t) \<Longrightarrow> io_bind m f s = f a t"
  by (simp add: io_bind_def)

lemma io_bind_Err: "m s = (Err e, t) \<Longrightarrow> io_bind m f s = (Err e, t)"
  by (simp add: io_bind_def)

lemma io_bind_eq_Ok:
  "io_bind m f s = (Ok b, u) \<longleftrightarrow> (\<exists>a t. m s = (Ok a, t) \<and> f a t = (Ok b, u))"
  by (auto simp: io_bind_def split: prod.splits outcome.splits)

section \<open>Calls on the cursor\<close>

definition read_exact :: "nat \<Rightarrow> bytes reader" where
  "read_exact n c =
     (if c_pos c + n \<le> length (c_data c)
      then (Ok (take n (drop (c_pos c) (c_data c))), c\<lparr>c_pos := c_pos c + n\<rparr>)
      else (if n = 0 then (Ok [], c)
            else (Err (Io UnexpectedEof), c\<lparr>c_pos := max (c_pos c) (length (c_data c))\<rparr>)))"

text \<open>\<^verbatim>\<open>read.take(n).read_to_end(..)\<close>: at most \<open>n\<close> bytes, fewer at the end of the data.\<close>

definition read_up_to :: "nat \<Rightarrow> bytes reader" where
  "read_up_to n c =
     (let bs = take n (drop (c_pos c) (c_data c))
      in (Ok bs, c\<lparr>c_pos := c_pos c + length bs\<rparr>))"

definition stream_position :: "nat reader" where
  "stream_position c = (Ok (c_pos c), c)"

definition seek_start :: "nat \<Rightarrow> writer" where
  "seek_start n c = (Ok (), c\<lparr>c_pos := n\<rparr>)"

text \<open>\<^verbatim>\<open>write_all\<close> overwrites or extends at the position, filling a gap with zeros.\<close>

definition put :: "bytes \<Rightarrow> cursor \<Rightarrow> cursor" where
  "put bs c =
     (if bs = [] then c
      else c\<lparr>c_data := take (c_pos c) (c_data c) @ replicate (c_pos c - length (c_data c)) 0 @ bs
                     @ drop (c_pos c + length bs) (c_data c),
             c_pos := c_pos c + length bs\<rparr>)"

definition write_all :: "bytes \<Rightarrow> writer" where
  "write_all bs c = (Ok (), put bs c)"

lemma put_Nil [simp]: "put [] c = c"
  by (simp add: put_def)

lemma put_put: "put b (put a c) = put (a @ b) c"
proof -
  have "c_pos c + length b + (c_pos c + length a)
      - (min (length (c_data c)) (c_pos c) + (c_pos c - length (c_data c)))
    = c_pos c + (length a + length b)" by simp
  then show ?thesis by (simp add: put_def add.assoc)
qed

section \<open>Reading and writing a known run of bytes\<close>

definition ahead :: "bytes \<Rightarrow> cursor \<Rightarrow> bool" where
  "ahead bs c \<longleftrightarrow> (\<exists>rest. drop (c_pos c) (c_data c) = bs @ rest) \<and> c_pos c \<le> length (c_data c)"

definition skip :: "nat \<Rightarrow> cursor \<Rightarrow> cursor" where
  "skip n c = c\<lparr>c_pos := c_pos c + n\<rparr>"

definition reads :: "'a reader \<Rightarrow> bytes \<Rightarrow> 'a \<Rightarrow> bool" where
  "reads m bs v \<longleftrightarrow> (\<forall>c. ahead bs c \<longrightarrow> m c = (Ok v, skip (length bs) c))"

definition writes :: "writer \<Rightarrow> bytes \<Rightarrow> bool" where
  "writes m bs \<longleftrightarrow> (\<forall>c. m c = (Ok (), put bs c))"

definition remaining :: "cursor \<Rightarrow> nat" where
  "remaining c = length (c_data c) - c_pos c"

definition consumes :: "'a reader \<Rightarrow> nat \<Rightarrow> bool" where
  "consumes m n \<longleftrightarrow>
     (\<forall>c. (n \<le> remaining c \<longrightarrow> (\<exists>v. m c = (Ok v, skip n c))) \<and>
          (remaining c < n \<longrightarrow> (\<exists>c'. m c = (Err (Io UnexpectedEof), c'))))"

named_theorems stream \<open>composition rules of reads, writes and consumes\<close>

lemma ahead_append: "ahead (a @ b) c \<longleftrightarrow> ahead a c \<and> ahead b (skip (length a) c)"
proof
  assume "ahead (a @ b) c"
  then obtain r where r: "drop (c_pos c) (c_data c) = a @ b @ r" and le: "c_pos c \<le> length (c_data c)"
    by (auto simp: ahead_def)
  have "length a \<le> length (drop (c_pos c) (c_data c))" by (simp add: r)
  then have "c_pos c + length a \<le> length (c_data c)" using le by simp
  moreover have "drop (c_pos c + length a) (c_data c) = b @ r"
    using arg_cong [OF r, of "drop (length a)"] by (simp add: add.commute)
  ultimately show "ahead a c \<and> ahead b (skip (length a) c)"
    using r le by (auto simp: ahead_def skip_def)
next
  assume "ahead a c \<and> ahead b (skip (length a) c)"
  then obtain r1 r2 where r1: "drop (c_pos c) (c_data c) = a @ r1"
    and r2: "drop (c_pos c + length a) (c_data c) = b @ r2" and le: "c_pos c \<le> length (c_data c)"
    by (auto simp: ahead_def skip_def)
  have "r1 = b @ r2" using arg_cong [OF r1, of "drop (length a)"] r2 by (simp add: add.commute)
  with r1 le show "ahead (a @ b) c" by (simp add: ahead_def)
qed

lemma skip_skip [simp]: "skip n (skip m c) = skip (m + n) c"
  by (simp add: skip_def add.assoc)

lemma skip_0 [simp]: "skip 0 c = c"
  by (simp add: skip_def)

lemma remaining_skip [simp]: "remaining (skip n c) = remaining c - n"
  by (simp add: remaining_def skip_def)

lemma ahead_take: "n \<le> remaining c \<Longrightarrow> 0 < n \<Longrightarrow> ahead (take n (drop (c_pos c) (c_data c))) c"
  by (auto simp: ahead_def remaining_def) (metis append_take_drop_id)

lemma reads_return [stream]: "reads (io_return v) [] v"
  by (simp add: reads_def io_return_def)

lemma reads_bind [stream]:
  "reads m a x \<Longrightarrow> reads (f x) b y \<Longrightarrow> reads (io_bind m f) (a @ b) y"
  by (simp add: reads_def ahead_append io_bind_Ok)

lemma reads_exact [stream]: "reads (read_exact (length bs)) bs bs"
  by (auto simp: reads_def read_exact_def ahead_def skip_def)
    (metis add_diff_cancel_left' append_eq_conv_conj length_append length_drop
      le_add_diff_inverse nat_add_left_cancel_le le_add1)

lemma reads_exact_len: "length bs = n \<Longrightarrow> reads (read_exact n) bs bs"
  using reads_exact by blast

lemma reads_map: "reads m bs x \<Longrightarrow> g x = v \<Longrightarrow> reads (io_bind m (\<lambda>x. io_return (g x))) bs v"
  using reads_bind [of m bs x "\<lambda>x. io_return (g x)" "[]" v] reads_return [of v] by simp

lemma writes_return [stream]: "writes (io_return ()) []"
  by (simp add: writes_def io_return_def)

lemma writes_bind [stream]:
  "writes m a \<Longrightarrow> (\<And>u. writes (f u) b) \<Longrightarrow> writes (io_bind m f) (a @ b)"
  by (simp add: writes_def io_bind_Ok put_put)

lemma writes_all [stream]: "writes (write_all bs) bs"
  by (simp add: writes_def write_all_def)

lemma consumes_return [stream]: "consumes (io_return v) 0"
  by (auto simp: consumes_def io_return_def)

lemma consumes_bind [stream]:
  assumes "consumes m k" and "\<And>x. consumes (f x) l"
  shows "consumes (io_bind m f) (k + l)"
  unfolding consumes_def
proof (intro allI conjI impI)
  fix c
  assume enough: "k + l \<le> remaining c"
  then obtain v where v: "m c = (Ok v, skip k c)"
    using assms(1) by (metis consumes_def le_add1 order_trans)
  have "l \<le> remaining (skip k c)" using enough by simp
  then obtain w where "f v (skip k c) = (Ok w, skip l (skip k c))"
    using assms(2) unfolding consumes_def by blast
  with v show "\<exists>v. io_bind m f c = (Ok v, skip (k + l) c)"
    by (auto simp: io_bind_Ok)
next
  fix c
  assume short: "remaining c < k + l"
  show "\<exists>c'. io_bind m f c = (Err (Io UnexpectedEof), c')"
  proof (cases "k \<le> remaining c")
    case True
    then obtain v where v: "m c = (Ok v, skip k c)"
      using assms(1) by (auto simp: consumes_def)
    have "remaining (skip k c) < l" using short True by simp
    then obtain c' where "f v (skip k c) = (Err (Io UnexpectedEof), c')"
      using assms(2) unfolding consumes_def by blast
    with v show ?thesis by (auto simp: io_bind_Ok)
  next
    case False
    then obtain c' where "m c = (Err (Io UnexpectedEof), c')"
      using assms(1) unfolding consumes_def by (meson not_le)
    then show ?thesis by (auto simp: io_bind_Err)
  qed
qed

lemma consumes_case_prod [stream]:
  "(\<And>a b. consumes (f a b) n) \<Longrightarrow> consumes (case x of (a, b) \<Rightarrow> f a b) n"
  by (cases x) simp

lemma consumes_cong: "consumes m n \<Longrightarrow> n = k \<Longrightarrow> consumes m k"
  by simp

lemma consumes_exact [stream]: "consumes (read_exact n) n"
  by (auto simp: consumes_def read_exact_def remaining_def skip_def)

lemma reads_lift [stream]: "reads (io_lift (Ok v)) [] v"
  by (simp add: reads_def io_lift_def)

lemma reads_times:
  assumes "\<And>v. v \<in> set vs \<Longrightarrow> reads m (enc v) v"
  shows "reads (io_times (length vs) m) (concat (map enc vs)) vs"
  using assms
proof (induction vs)
  case Nil
  then show ?case by (simp add: reads_return)
next
  case (Cons v vs)
  have "reads (io_bind (io_times (length vs) m) (\<lambda>as. io_return (v # as)))
          (concat (map enc vs) @ []) (v # vs)"
    by (rule reads_bind [OF _ reads_return]) (simp add: Cons)
  moreover have "reads m (enc v) v" using Cons.prems by simp
  ultimately show ?case by (auto intro: reads_bind)
qed

lemma writes_each:
  assumes "\<And>v. v \<in> set vs \<Longrightarrow> writes (f v) (enc v)"
  shows "writes (io_each f vs) (concat (map enc vs))"
  using assms by (induction vs) (auto intro: stream)

lemma consumes_times: "consumes m k \<Longrightarrow> consumes (io_times n m) (n * k)"
proof (induction n)
  case 0
  then show ?case by (simp add: consumes_return)
next
  case (Suc n)
  then have "consumes (io_times (Suc n) m) (k + (n * k + 0))"
    unfolding io_times.simps by (intro consumes_bind consumes_return) simp_all
  then show ?case by simp
qed

lemma reads_step:
  "reads m bs x \<Longrightarrow> ahead bs c \<Longrightarrow> io_bind m f c = f x (skip (length bs) c)"
  by (simp add: reads_def io_bind_Ok)

lemma io_bind_lift [simp]: "io_bind (io_lift (Ok a)) f = f a"
  by (simp add: fun_eq_iff io_bind_def io_lift_def)

lemma ahead_takeD: "ahead bs c \<Longrightarrow> take (length bs) (drop (c_pos c) (c_data c)) = bs"
  by (auto simp: ahead_def)

lemma reads_up_to: "reads (read_up_to (length bs)) bs bs"
  unfolding reads_def read_up_to_def skip_def by (auto simp only: ahead_takeD Let_def)

text \<open>What was written is what is read after seeking back.\<close>

lemma ahead_put: "bs \<noteq> [] \<Longrightarrow> ahead bs ((put bs c)\<lparr>c_pos := c_pos c\<rparr>)"
  by (auto simp: ahead_def put_def)

lemma write_then_read:
  assumes "writes w bs" "reads r bs v" "bs \<noteq> []"
  shows "w c = (Ok (), put bs c)" "r ((put bs c)\<lparr>c_pos := c_pos c\<rparr>) = (Ok v, put bs c)"
proof -
  show "w c = (Ok (), put bs c)" using assms(1) by (simp add: writes_def)
  have "skip (length bs) ((put bs c)\<lparr>c_pos := c_pos c\<rparr>) = put bs c"
    using assms(3) by (simp add: skip_def put_def)
  then show "r ((put bs c)\<lparr>c_pos := c_pos c\<rparr>) = (Ok v, put bs c)"
    using assms(2) ahead_put [OF assms(3)] by (simp add: reads_def)
qed

lemma c_pos_put: "c_pos (put bs c) = c_pos c + length bs"
  by (simp add: put_def)

section \<open>Serializers\<close>

text \<open>
  The interface of a structure that is written to and read from a stream: on the values that
  \<open>ok\<close> admits, the writer puts the bytes \<open>enc v\<close> and the reader gets \<open>v\<close> back from them.
\<close>

locale serial =
  fixes rd :: "'a reader" and wr :: "'a \<Rightarrow> writer"
    and enc :: "'a \<Rightarrow> bytes" and ok :: "'a \<Rightarrow> bool"
  assumes writes_ok: "ok v \<Longrightarrow> writes (wr v) (enc v)"
    and reads_ok: "ok v \<Longrightarrow> reads rd (enc v) v"
    and enc_nonempty: "ok v \<Longrightarrow> enc v \<noteq> []"
begin

lemma round_trip:
  "ok v \<Longrightarrow> \<exists>c1. wr v c = (Ok (), c1) \<and> c_pos c1 = c_pos c + length (enc v) \<and>
     rd (c1\<lparr>c_pos := c_pos c\<rparr>) = (Ok v, c1)"
  using write_then_read [OF writes_ok reads_ok enc_nonempty] by (auto simp: c_pos_put)

lemma writes_many: "list_all ok vs \<Longrightarrow> writes (io_each wr vs) (concat (map enc vs))"
  by (rule writes_each) (auto simp: list_all_iff writes_ok)

lemma reads_many:
  "list_all ok vs \<Longrightarrow> length vs = n \<Longrightarrow> reads (io_times n rd) (concat (map enc vs)) vs"
  using reads_times [of vs rd enc] by (auto simp: list_all_iff reads_ok)

lemma enc_inj_on: "ok v \<Longrightarrow> ok w \<Longrightarrow> enc v = enc w \<Longrightarrow> v = w"
proof -
  assume v: "ok v" and w: "ok w" and eq: "enc v = enc w"
  let ?c = "\<lparr>c_data = enc v, c_pos = 0\<rparr>"
  have "ahead (enc v) ?c" by (simp add: ahead_def)
  then have "rd ?c = (Ok v, skip (length (enc v)) ?c)" "rd ?c = (Ok w, skip (length (enc v)) ?c)"
    using reads_ok [OF v] reads_ok [OF w] eq by (auto simp: reads_def)
  then show "v = w" by simp
qed

end

section \<open>Fixed-width codecs\<close>

locale codec =
  fixes rd :: "'a reader" and wr :: "'a \<Rightarrow> writer"
    and enc :: "'a \<Rightarrow> bytes" and width :: nat
  assumes writes_enc: "writes (wr v) (enc v)"
    and length_enc: "length (enc v) = width"
    and reads_enc: "reads rd (enc v) v"
    and enc_surj: "length bs = width \<Longrightarrow> \<exists>v. enc v = bs"
    and rd_eof: "remaining c < width \<Longrightarrow> \<exists>c'. rd c = (Err (Io UnexpectedEof), c')"
    and width_pos: "0 < width"
begin

lemma consumes_rd: "consumes rd width"
  unfolding consumes_def
proof (intro allI conjI impI)
  fix c :: cursor
  assume enough: "width \<le> remaining c"
  let ?bs = "take width (drop (c_pos c) (c_data c))"
  have len: "length ?bs = width" using enough by (simp add: remaining_def)
  then obtain v where v: "enc v = ?bs" using enc_surj by blast
  have "ahead ?bs c" using enough width_pos by (rule ahead_take)
  then have "rd c = (Ok v, skip (length ?bs) c)"
    using reads_enc [of v] v by (simp add: reads_def)
  then show "\<exists>v. rd c = (Ok v, skip width c)" using len by auto
next
  fix c :: cursor
  assume "remaining c < width"
  then show "\<exists>c'. rd c = (Err (Io UnexpectedEof), c')" by (rule rd_eof)
qed

lemma split_enc: "width \<le> length bs \<Longrightarrow> \<exists>v bs'. bs = enc v @ bs' \<and> length bs' = length bs - width"
  using enc_surj [of "take width bs"]
  by (metis append_take_drop_id length_drop length_take min.absorb2)

lemma length_list: "length (concat (map enc vs)) = length vs * width"
  by (induction vs) (simp_all add: length_enc)

lemma consumes_list: "consumes (io_times n rd) (n * width)"
  by (rule consumes_times) (rule consumes_rd)

end

text \<open>A fixed-width codec is a serializer that admits every value.\<close>

sublocale codec \<subseteq> serial rd wr enc "\<lambda>_. True"
proof
  show "writes (wr v) (enc v)" for v by (rule writes_enc)
  show "reads rd (enc v) v" for v by (rule reads_enc)
  show "enc v \<noteq> []" for v using length_enc [of v] width_pos by auto
qed

context codec
begin

lemma reads_list_len: "length vs = n \<Longrightarrow> reads (io_times n rd) (concat (map enc vs)) vs"
  by (rule reads_many) (simp_all add: list_all_iff)

lemma writes_list: "writes (io_each wr vs) (concat (map enc vs))"
  by (rule writes_many) (simp add: list_all_iff)

lemma enc_inj: "enc v = enc w \<Longrightarrow> v = w"
  by (rule enc_inj_on) simp_all

end

section \<open>The primitive calls of byteorder\<close>

definition read_le :: "nat \<Rightarrow> 'a::len word reader" where
  "read_le k = io_bind (read_exact k) (\<lambda>bs. io_return (from_le bs))"

definition write_le :: "nat \<Rightarrow> 'a::len word \<Rightarrow> writer" where
  "write_le k w = write_all (to_le k w)"

definition read_u8 :: "u8 reader" where "read_u8 = read_le 1"
abbreviation read_u16 :: "u16 reader" where "read_u16 \<equiv> read_le 2"
abbreviation read_u32 :: "u32 reader" where "read_u32 \<equiv> read_le 4"
abbreviation read_u64 :: "u64 reader" where "read_u64 \<equiv> read_le 8"
definition write_u8 :: "u8 \<Rightarrow> writer" where "write_u8 = write_le 1"
abbreviation write_u16 :: "u16 \<Rightarrow> writer" where "write_u16 \<equiv> write_le 2"
abbreviation write_u32 :: "u32 \<Rightarrow> writer" where "write_u32 \<equiv> write_le 4"
abbreviation write_u64 :: "u64 \<Rightarrow> writer" where "write_u64 \<equiv> write_le 8"

lemma read_le_eof:
  "remaining c < k \<Longrightarrow> \<exists>c'. read_le k c = (Err (Io UnexpectedEof), c')"
  by (auto simp: read_le_def io_bind_def read_exact_def remaining_def)

lemma reads_le: "LENGTH('a::len) = 8 * k \<Longrightarrow> reads (read_le k) (to_le k w) (w :: 'a word)"
proof -
  assume len: "LENGTH('a) = 8 * k"
  have "reads (read_le k) (to_le k w @ []) (from_le (to_le k w) :: 'a word)"
    unfolding read_le_def using reads_exact [of "to_le k w"]
    by (intro reads_bind [OF _ reads_return]) simp
  then show ?thesis using from_le_to_le [OF len, of w] by simp
qed

lemma codec_le:
  assumes len: "LENGTH('a::len) = 8 * k"
  shows "codec (read_le k) (write_le k) (to_le k :: 'a word \<Rightarrow> bytes) k"
proof
  fix bs :: bytes
  assume "length bs = k"
  then show "\<exists>v :: 'a word. to_le k v = bs" using to_le_from_le [OF len] by blast
next
  have "0 < LENGTH('a)" by simp
  with len show "0 < k" by simp
qed (auto simp: write_le_def writes_all reads_le [OF len] read_le_eof)

interpretation u8: codec read_u8 write_u8 "\<lambda>b. [b]" 1
proof -
  have "(\<lambda>b. [b]) = (to_le 1 :: u8 \<Rightarrow> bytes)" by (simp add: fun_eq_iff to_le_def)
  then show "codec read_u8 write_u8 (\<lambda>b. [b]) 1"
    unfolding read_u8_def write_u8_def by (simp only:) (rule codec_le, simp)
qed

interpretation u16: codec "read_le 2" "write_le 2" "to_le 2 :: u16 \<Rightarrow> bytes" 2
  by (rule codec_le) simp

interpretation u32: codec "read_le 4" "write_le 4" "to_le 4 :: u32 \<Rightarrow> bytes" 4
  by (rule codec_le) simp

interpretation u64: codec "read_le 8" "write_le 8" "to_le 8 :: u64 \<Rightarrow> bytes" 8
  by (rule codec_le) simp

lemmas prim_reads [stream] = u8.reads_enc u16.reads_enc u32.reads_enc u64.reads_enc
lemmas prim_writes [stream] = u8.writes_enc u16.writes_enc u32.writes_enc u64.writes_enc
lemmas prim_consumes [stream] = u8.consumes_rd u16.consumes_rd u32.consumes_rd u64.consumes_rd

section \<open>Optional parts\<close>

text \<open>
  A part of a structure that is in the stream when a flag of its format says so: read into an
  option, and written with a default when the option is empty.
\<close>

definition read_if :: "bool \<Rightarrow> 'a reader \<Rightarrow> 'a option reader" where
  "read_if b m = (if b then io_bind m (\<lambda>a. io_return (Some a)) else io_return None)"

definition write_if :: "bool \<Rightarrow> writer \<Rightarrow> writer" where
  "write_if b m = (if b then m else io_return ())"

fun unwrap_or :: "'a option \<Rightarrow> 'a \<Rightarrow> 'a" where
  "unwrap_or (Some a) d = a"
| "unwrap_or None d = d"

fun enc_opt :: "('a \<Rightarrow> bytes) \<Rightarrow> 'a option \<Rightarrow> bytes" where
  "enc_opt enc None = []"
| "enc_opt enc (Some v) = enc v"

definition keep_if :: "bool \<Rightarrow> 'a option \<Rightarrow> 'a \<Rightarrow> 'a option" where
  "keep_if b v d = (if b then Some (unwrap_or v d) else None)"

lemma writes_if [stream]:
  assumes "writes (wr (unwrap_or v d)) (enc (unwrap_or v d))"
  shows "writes (write_if b (wr (unwrap_or v d))) (enc_opt enc (keep_if b v d))"
  using assms by (simp add: write_if_def keep_if_def writes_return)

lemma reads_if_ok:
  assumes "b \<Longrightarrow> reads m (enc (unwrap_or v d)) (unwrap_or v d)"
  shows "reads (read_if b m) (enc_opt enc (keep_if b v d)) (keep_if b v d)"
  using assms by (auto simp: read_if_def keep_if_def reads_return intro: reads_map)

lemma reads_if [stream]:
  "(\<And>w. reads m (enc w) w) \<Longrightarrow> reads (read_if b m) (enc_opt enc (keep_if b v d)) (keep_if b v d)"
  by (rule reads_if_ok)

lemma consumes_if [stream]:
  "consumes m n \<Longrightarrow> consumes (read_if b m) (if b then n else 0)"
  using consumes_bind [of m n "\<lambda>a. io_return (Some a)" 0]
  by (simp add: read_if_def consumes_return)

lemma length_enc_opt_keep:
  assumes "\<And>v. length (enc v) = n"
  shows "length (enc_opt enc (keep_if b v d)) = (if b then n else 0)"
  using assms by (simp add: keep_if_def)

section \<open>What a computation yields, and that it does not panic\<close>

definition yields :: "('s, 'a) io \<Rightarrow> ('a \<Rightarrow> bool) \<Rightarrow> bool" where
  "yields m P \<longleftrightarrow> (\<forall>s a t. m s = (Ok a, t) \<longrightarrow> P a)"

definition no_panic :: "('s, 'a) io \<Rightarrow> bool" where
  "no_panic m \<longleftrightarrow> (\<forall>s. fst (m s) \<noteq> Panic)"

lemma yieldsD: "yields m P \<Longrightarrow> m s = (Ok a, t) \<Longrightarrow> P a"
  by (auto simp: yields_def)

lemma yields_any: "yields m (\<lambda>_. True)"
  by (simp add: yields_def)

lemma yields_return: "P a \<Longrightarrow> yields (io_return a) P"
  by (simp add: yields_def io_return_def)

lemma yields_lift: "yields (io_lift r) (\<lambda>a. r = Ok a)"
  by (simp add: yields_def io_lift_def)

lemma yields_bind:
  "yields m P \<Longrightarrow> (\<And>a. P a \<Longrightarrow> yields (f a) Q) \<Longrightarrow> yields (io_bind m f) Q"
  unfolding yields_def io_bind_eq_Ok by blast

lemma yields_exact: "yields (read_exact n) (\<lambda>bs. length bs = n)"
  by (auto simp: yields_def read_exact_def split: if_splits)

lemma yields_times: "yields (io_times n m) (\<lambda>as. length as = n)"
proof (induction n)
  case 0
  then show ?case by (simp add: yields_return)
next
  case (Suc n)
  then show ?case
    by (auto intro!: yields_bind [OF yields_any] yields_bind [OF Suc] yields_return)
qed

lemma yields_if:
  "yields m P \<Longrightarrow> yields (read_if b m) (\<lambda>v. (v \<noteq> None \<longleftrightarrow> b) \<and> pred_option P v)"
  by (auto simp: read_if_def intro!: yields_bind [of m P] yields_return)

named_theorems safe \<open>rules of no_panic\<close>

lemma no_panicD: "no_panic m \<Longrightarrow> m s \<noteq> (Panic, t)"
  by (auto simp: no_panic_def) (metis fst_conv)

lemma no_panic_return [safe]: "no_panic (io_return a)"
  by (simp add: no_panic_def io_return_def)

lemma no_panic_lift [safe]: "r \<noteq> Panic \<Longrightarrow> no_panic (io_lift r)"
  by (simp add: no_panic_def io_lift_def)

lemma no_panic_bind [safe]:
  "no_panic m \<Longrightarrow> (\<And>a. no_panic (f a)) \<Longrightarrow> no_panic (io_bind m f)"
  by (auto simp: no_panic_def io_bind_def split: prod.splits outcome.splits)
    (metis fst_conv)

lemma no_panic_exact [safe]: "no_panic (read_exact n)"
  by (simp add: no_panic_def read_exact_def)

lemma no_panic_le [safe]: "no_panic (read_le k)" "no_panic read_u8"
  by (simp_all add: read_u8_def read_le_def no_panic_bind no_panic_exact no_panic_return)

lemma no_panic_times [safe]: "no_panic m \<Longrightarrow> no_panic (io_times n m)"
  by (induction n) (auto intro: safe)

lemma no_panic_if [safe]: "no_panic m \<Longrightarrow> no_panic (read_if b m)"
  by (auto simp: read_if_def intro: safe)

lemma no_panic_case_prod [safe]:
  "(\<And>a b. no_panic (f a b)) \<Longrightarrow> no_panic (case x of (a, b) \<Rightarrow> f a b)"
  by (cases x) simp

lemma no_panic_write_all [safe]: "no_panic (write_all bs)"
  by (simp add: no_panic_def write_all_def)

lemma no_panic_writes: "writes m bs \<Longrightarrow> no_panic m"
  by (simp add: no_panic_def writes_def)

end
