(* ===== verification/Las_Version.thy ===== *)
theory Las_Version
  imports Streams
begin

text \<open>
  LAS versions (\<^verbatim>\<open>src/version.rs\<close>), the features each of them supports
  (\<^verbatim>\<open>src/feature.rs\<close>) and the GPS time type (\<^verbatim>\<open>src/gps_time_type.rs\<close>).
  Versions are ordered lexicographically, as \<^verbatim>\<open>derive(PartialOrd, Ord)\<close> does.
\<close>

section \<open>The order on versions\<close>

instantiation version :: linorder
begin

definition less_eq_version :: "version \<Rightarrow> version \<Rightarrow> bool" where
  "less_eq_version v w \<longleftrightarrow> major v < major w \<or> (major v = major w \<and> minor v \<le> minor w)"

definition less_version :: "version \<Rightarrow> version \<Rightarrow> bool" where
  "less_version v w \<longleftrightarrow> major v < major w \<or> (major v = major w \<and> minor v < minor w)"

instance
proof
  fix v w :: version
  show "v \<le> w \<Longrightarrow> w \<le> v \<Longrightarrow> v = w"
    by (cases v; cases w) (auto simp: less_eq_version_def)
qed (auto simp: less_eq_version_def less_version_def)

end

section \<open>Features\<close>

datatype feature =
  FileSourceId | GpsStandardTime | Waveforms | SyntheticReturnNumbers | LargeFiles | Evlrs

fun feature_minors :: "feature \<Rightarrow> u8 list" where
  "feature_minors FileSourceId = [1, 2, 3, 4]"
| "feature_minors GpsStandardTime = [2, 3, 4]"
| "feature_minors Waveforms = [3, 4]"
| "feature_minors SyntheticReturnNumbers = [3, 4]"
| "feature_minors LargeFiles = [4]"
| "feature_minors Evlrs = [4]"

definition is_supported_by :: "feature \<Rightarrow> version \<Rightarrow> bool" where
  "is_supported_by f v = list_ex (\<lambda>w. v = w) (map (Version 1) (feature_minors f))"

fun feature_name :: "feature \<Rightarrow> string" where
  "feature_name FileSourceId = ''FileSourceId''"
| "feature_name GpsStandardTime = ''GpsStandardTime''"
| "feature_name Waveforms = ''Waveforms''"
| "feature_name SyntheticReturnNumbers = ''SyntheticReturnNumbers''"
| "feature_name LargeFiles = ''LargeFiles''"
| "feature_name Evlrs = ''Evlrs''"

section \<open>Versions\<close>

definition requires_point_data_start_signature :: "version \<Rightarrow> bool" where
  "requires_point_data_start_signature v \<longleftrightarrow> v = Version 1 0"

definition version_header_size :: "version \<Rightarrow> u16" where
  "version_header_size v =
     (if v \<le> Version 1 2 then 227 else if v = Version 1 3 then 235 else 375)"

definition supports :: "version \<Rightarrow> feature \<Rightarrow> bool" where
  "supports v f = is_supported_by f v"

definition verify_support_for :: "version \<Rightarrow> feature \<Rightarrow> unit outcome" where
  "verify_support_for v f =
     (if supports v f then Ok () else Err (UnsupportedFeature v (feature_name f)))"

definition supports_point_format :: "version \<Rightarrow> format \<Rightarrow> bool" where
  "supports_point_format v f =
     (if major v \<noteq> 1 then False
      else if minor v = 0 \<or> minor v = 1 then
        \<not> (has_color f \<or> is_extended f \<or> has_waveform f \<or> has_nir f)
      else if minor v = 2 then \<not> (is_extended f \<or> has_waveform f \<or> has_nir f)
      else if minor v = 3 then \<not> (is_extended f \<or> has_nir f)
      else if minor v = 4 then True
      else False)"

definition version_default :: version where
  "version_default = Version 1 2"

section \<open>GPS time type\<close>

datatype gps_time_type = Week | Standard

fun is_standard :: "gps_time_type \<Rightarrow> bool" where
  "is_standard Week = False"
| "is_standard Standard = True"

fun u16_of_gps_time_type :: "gps_time_type \<Rightarrow> u16" where
  "u16_of_gps_time_type Week = 0"
| "u16_of_gps_time_type Standard = 1"

definition gps_time_type_of_u16 :: "u16 \<Rightarrow> gps_time_type" where
  "gps_time_type_of_u16 n = (if n AND 1 = 0 then Week else Standard)"

section \<open>Facts\<close>

text \<open>The five released versions, for which the header layout is fixed.\<close>

definition las_versions :: "version list" where
  "las_versions = map (Version 1) [0, 1, 2, 3, 4]"

lemma supports_simps:
  "supports v FileSourceId \<longleftrightarrow> v \<in> set [Version 1 1, Version 1 2, Version 1 3, Version 1 4]"
  "supports v GpsStandardTime \<longleftrightarrow> v \<in> set [Version 1 2, Version 1 3, Version 1 4]"
  "supports v Waveforms \<longleftrightarrow> v \<in> set [Version 1 3, Version 1 4]"
  "supports v SyntheticReturnNumbers \<longleftrightarrow> v \<in> set [Version 1 3, Version 1 4]"
  "supports v LargeFiles \<longleftrightarrow> v = Version 1 4"
  "supports v Evlrs \<longleftrightarrow> v = Version 1 4"
  by (auto simp: supports_def is_supported_by_def)

lemma las_versions_cases:
  assumes "v \<in> set las_versions"
  obtains "v = Version 1 0" | "v = Version 1 1" | "v = Version 1 2"
    | "v = Version 1 3" | "v = Version 1 4"
  using assms by (auto simp: las_versions_def)

lemma version_header_size_simps:
  "version_header_size (Version 1 0) = 227" "version_header_size (Version 1 1) = 227"
  "version_header_size (Version 1 2) = 227" "version_header_size (Version 1 3) = 235"
  "version_header_size (Version 1 4) = 375"
  by (simp_all add: version_header_size_def less_eq_version_def)

lemma supports_point_format_las:
  "supports_point_format v f \<Longrightarrow> v \<in> set las_versions"
  by (cases v) (auto simp: supports_point_format_def las_versions_def split: if_splits)

lemma gps_time_type_roundtrip: "gps_time_type_of_u16 (u16_of_gps_time_type t) = t"
  by (cases t) (simp_all add: gps_time_type_of_u16_def)

fun feature_since :: "feature \<Rightarrow> u8" where
  "feature_since FileSourceId = 1"
| "feature_since GpsStandardTime = 2"
| "feature_since Waveforms = 3"
| "feature_since SyntheticReturnNumbers = 3"
| "feature_since LargeFiles = 4"
| "feature_since Evlrs = 4"

lemma minor_upto_4:
  "(n :: u8) \<le> 4 \<longleftrightarrow> n = 0 \<or> n = 1 \<or> n = 2 \<or> n = 3 \<or> n = 4"
  by (auto simp: word_le_nat_alt word_unat_eq_iff)

lemma las_versions_iff: "v \<in> set las_versions \<longleftrightarrow> major v = 1 \<and> minor v \<le> 4"
  by (cases v) (auto simp: las_versions_def minor_upto_4)

lemma supports_since:
  "supports v f \<longleftrightarrow> major v = 1 \<and> feature_since f \<le> minor v \<and> minor v \<le> 4"
  by (cases v; cases f) (auto simp: supports_simps word_le_nat_alt word_unat_eq_iff)

text \<open>
  A version that comes later among the released ones supports every feature of an earlier
  one, and every point format of it.
\<close>

lemma supports_mono:
  assumes "w \<in> set las_versions" "v \<le> w" "supports v f"
  shows "supports w f"
  using assms by (auto simp: supports_since las_versions_iff less_eq_version_def)

definition format_since :: "format \<Rightarrow> u8" where
  "format_since f =
     (if is_extended f \<or> has_nir f then 4 else if has_waveform f then 3
      else if has_color f then 2 else 0)"

lemma supports_point_format_since:
  "supports_point_format v f \<longleftrightarrow> major v = 1 \<and> format_since f \<le> minor v \<and> minor v \<le> 4"
proof (cases "minor v \<le> 4")
  case True
  then consider "minor v = 0" | "minor v = 1" | "minor v = 2" | "minor v = 3" | "minor v = 4"
    using minor_upto_4 by blast
  then show ?thesis
    by cases (simp_all add: supports_point_format_def format_since_def word_le_nat_alt)
next
  case False
  then have "minor v \<noteq> 0" "minor v \<noteq> 1" "minor v \<noteq> 2" "minor v \<noteq> 3" "minor v \<noteq> 4"
    using minor_upto_4 by blast+
  with False show ?thesis by (simp add: supports_point_format_def)
qed

lemma supports_point_format_mono:
  assumes "w \<in> set las_versions" "v \<le> w" "supports_point_format v f"
  shows "supports_point_format w f"
  using assms by (auto simp: supports_point_format_since las_versions_iff less_eq_version_def)

end
