(* ===== verification/Point_Format.thy ===== *)
theory Point_Format
  imports Las_Version
begin

text \<open>
  Point formats (\<^verbatim>\<open>src/point/format.rs\<close>) and the classification table
  (\<^verbatim>\<open>src/point/classification.rs\<close>).  \<open>laz\<close> is the cargo feature of that name, which
  \<^verbatim>\<open>to_u8\<close> tests with \<^verbatim>\<open>cfg!\<close>.
\<close>

section \<open>Formats\<close>

definition TIME_FORMATS :: "u8 list" where "TIME_FORMATS = [1, 3, 4, 5, 6, 7, 8, 9, 10]"
definition COLOR_FORMATS :: "u8 list" where "COLOR_FORMATS = [2, 3, 5, 7, 8, 10]"
definition WAVEFORM_FORMATS :: "u8 list" where "WAVEFORM_FORMATS = [4, 5, 9, 10]"
definition NIR_FORMATS :: "u8 list" where "NIR_FORMATS = [8, 10]"
definition IS_COMPRESSED_MASK :: u8 where "IS_COMPRESSED_MASK = 0x80"

definition is_point_format_compressed :: "u8 \<Rightarrow> bool" where
  "is_point_format_compressed n \<longleftrightarrow> n AND IS_COMPRESSED_MASK = IS_COMPRESSED_MASK"

definition point_format_id_compressed_to_uncompressd :: "u8 \<Rightarrow> u8" where
  "point_format_id_compressed_to_uncompressd n = n AND 0x3f"

definition point_format_id_uncompressed_to_compressed :: "u8 \<Rightarrow> u8" where
  "point_format_id_uncompressed_to_compressed n = n OR 0x80"

definition format_of_id :: "bool \<Rightarrow> u8 \<Rightarrow> format" where
  "format_of_id compressed n =
     \<lparr>has_gps_time = List.member TIME_FORMATS n,
      has_color = List.member COLOR_FORMATS n,
      is_extended = (6 \<le> n),
      has_waveform = List.member WAVEFORM_FORMATS n,
      has_nir = List.member NIR_FORMATS n,
      extra_bytes = 0,
      is_compressed = compressed\<rparr>"

definition format_new :: "u8 \<Rightarrow> format outcome" where
  "format_new n =
     (if 10 < n \<and> \<not> is_point_format_compressed n then Err (InvalidPointFormatNumber n)
      else Ok (format_of_id (is_point_format_compressed n)
                 (point_format_id_compressed_to_uncompressd n)))"

definition format_default :: format where
  "format_default =
     \<lparr>has_gps_time = False, has_color = False, is_extended = False, has_waveform = False,
      has_nir = False, extra_bytes = 0, is_compressed = False\<rparr>"

definition extend :: "format \<Rightarrow> format" where
  "extend f = f\<lparr>has_gps_time := True, is_extended := True\<rparr>"

definition add_if :: "bool \<Rightarrow> u16 \<Rightarrow> u16 \<Rightarrow> u16 outcome" where
  "add_if b n len = (if b then checked_add len n else Ok len)"

definition format_len :: "format \<Rightarrow> u16 outcome" where
  "format_len f =
     and_then (checked_add (if is_extended f then 22 else 20) (extra_bytes f)) (\<lambda>len.
     and_then (add_if (has_gps_time f) 8 len) (\<lambda>len.
     and_then (add_if (has_color f) 6 len) (\<lambda>len.
     and_then (add_if (has_nir f) 2 len) (\<lambda>len.
     add_if (has_waveform f) 29 len))))"

definition to_u8 :: "bool \<Rightarrow> format \<Rightarrow> u8 outcome" where
  "to_u8 laz f =
     (if \<not> laz \<and> is_compressed f then Err (InvalidPointFormat f)
      else if is_extended f then
        (if has_gps_time f then
           (if has_color f then
              (if has_nir f then (if has_waveform f then Ok 10 else Ok 8)
               else if has_waveform f then Err (InvalidPointFormat f)
               else Ok 7)
            else if has_nir f then Err (InvalidPointFormat f)
            else if has_waveform f then Ok 9
            else Ok 6)
         else Err (InvalidPointFormat f))
      else if has_nir f then Err (InvalidPointFormat f)
      else if has_waveform f then
        (if has_gps_time f then (if has_color f then Ok 5 else Ok 4)
         else Err (InvalidPointFormat f))
      else Ok ((if has_gps_time f then 1 else 0) + (if has_color f then 2 else 0)))"

definition to_writable_u8 :: "bool \<Rightarrow> format \<Rightarrow> u8 outcome" where
  "to_writable_u8 laz f =
     and_then (to_u8 laz f) (\<lambda>n.
       Ok (if is_compressed f then point_format_id_uncompressed_to_compressed n else n))"

lemmas format_defs =
  TIME_FORMATS_def COLOR_FORMATS_def WAVEFORM_FORMATS_def NIR_FORMATS_def IS_COMPRESSED_MASK_def
  is_point_format_compressed_def point_format_id_compressed_to_uncompressd_def
  point_format_id_uncompressed_to_compressed_def format_of_id_def format_new_def

section \<open>Classifications\<close>

datatype classification =
    CreatedNeverClassified | Unclassified | Ground | LowVegetation | MediumVegetation
  | HighVegetation | Building | LowPoint | ModelKeyPoint | Water | Rail | RoadSurface
  | WireGuard | WireConductor | TransmissionTower | WireStructureConnector | BridgeDeck
  | HighNoise | Reserved u8 | UserDefinable u8

definition classification_new :: "u8 \<Rightarrow> classification outcome" where
  "classification_new n =
     (if n = 0 then Ok CreatedNeverClassified
      else if n = 1 then Ok Unclassified
      else if n = 2 then Ok Ground
      else if n = 3 then Ok LowVegetation
      else if n = 4 then Ok MediumVegetation
      else if n = 5 then Ok HighVegetation
      else if n = 6 then Ok Building
      else if n = 7 then Ok LowPoint
      else if n = 8 then Ok ModelKeyPoint
      else if n = 9 then Ok Water
      else if n = 10 then Ok Rail
      else if n = 11 then Ok RoadSurface
      else if n = 12 then Err OverlapClassification
      else if n = 13 then Ok WireGuard
      else if n = 14 then Ok WireConductor
      else if n = 15 then Ok TransmissionTower
      else if n = 16 then Ok WireStructureConnector
      else if n = 17 then Ok BridgeDeck
      else if n = 18 then Ok HighNoise
      else if n \<le> 63 then Ok (Reserved n)
      else Ok (UserDefinable n))"

fun u8_of_classification :: "classification \<Rightarrow> u8" where
  "u8_of_classification CreatedNeverClassified = 0"
| "u8_of_classification Unclassified = 1"
| "u8_of_classification Ground = 2"
| "u8_of_classification LowVegetation = 3"
| "u8_of_classification MediumVegetation = 4"
| "u8_of_classification HighVegetation = 5"
| "u8_of_classification Building = 6"
| "u8_of_classification LowPoint = 7"
| "u8_of_classification ModelKeyPoint = 8"
| "u8_of_classification Water = 9"
| "u8_of_classification Rail = 10"
| "u8_of_classification RoadSurface = 11"
| "u8_of_classification WireGuard = 13"
| "u8_of_classification WireConductor = 14"
| "u8_of_classification TransmissionTower = 15"
| "u8_of_classification WireStructureConnector = 16"
| "u8_of_classification BridgeDeck = 17"
| "u8_of_classification HighNoise = 18"
| "u8_of_classification (Reserved n) = n"
| "u8_of_classification (UserDefinable n) = n"

text \<open>The values \<^verbatim>\<open>Classification::new\<close> builds: the payload of a variant is in its range.\<close>

fun valid_classification :: "classification \<Rightarrow> bool" where
  "valid_classification (Reserved n) \<longleftrightarrow> 19 \<le> n \<and> n \<le> 63"
| "valid_classification (UserDefinable n) \<longleftrightarrow> 64 \<le> n"
| "valid_classification _ \<longleftrightarrow> True"

section \<open>Facts\<close>

lemma u8_below_19:
  assumes "\<not> 19 \<le> (n :: u8)"
  shows "n \<in> set [0, 1, 2, 3, 4, 5, 6, 7, 8, 9, 10, 11, 12, 13, 14, 15, 16, 17, 18]"
proof -
  have "unat n \<in> set [0..<19]" using assms by (simp add: word_le_nat_alt)
  then have "word_of_nat (unat n) \<in> (word_of_nat ` set [0..<19] :: u8 set)" by (rule imageI)
  then show ?thesis by (simp add: upt_rec [of _ 19] insert_commute)
qed

lemma classification_new_high:
  "19 \<le> n \<Longrightarrow> classification_new n = Ok (if n \<le> 63 then Reserved n else UserDefinable n)"
  by (auto simp: classification_new_def word_le_nat_alt)

lemma classification_new_to_u8:
  assumes "classification_new n = Ok c"
  shows "u8_of_classification c = n \<and> valid_classification c"
proof (cases "19 \<le> n")
  case True
  with assms show ?thesis
    by (auto simp: classification_new_high word_le_nat_alt split: if_splits)
next
  case False
  then have "n \<in> set [0, 1, 2, 3, 4, 5, 6, 7, 8, 9, 10, 11, 12, 13, 14, 15, 16, 17, 18]"
    by (rule u8_below_19)
  with assms show ?thesis by (auto simp: classification_new_def)
qed

lemma classification_new_error: "classification_new n = Err e \<longleftrightarrow> n = 12 \<and> e = OverlapClassification"
  unfolding classification_new_def by auto

lemma classification_of_u8:
  "valid_classification c \<Longrightarrow> classification_new (u8_of_classification c) = Ok c"
  by (cases c) (auto simp: classification_new_high word_le_nat_alt classification_new_def [of 0]
      classification_new_def [of "numeral k" for k] classification_new_def [of 1])

text \<open>The record length as a natural number, and when it fits in sixteen bits.\<close>

definition record_len :: "format \<Rightarrow> nat" where
  "record_len f =
     (if is_extended f then 22 else 20) + unat (extra_bytes f)
     + (if has_gps_time f then 8 else 0) + (if has_color f then 6 else 0)
     + (if has_nir f then 2 else 0) + (if has_waveform f then 29 else 0)"

lemma record_len_pos: "0 < record_len f"
  by (simp add: record_len_def)

definition fits_u16 :: "nat \<Rightarrow> u16 outcome" where
  "fits_u16 k = (if k < 65536 then Ok (word_of_nat k) else Panic)"

lemma fits_add_if:
  "and_then (fits_u16 k) (add_if b n) = fits_u16 (k + (if b then unat n else 0))"
  by (auto simp: fits_u16_def add_if_def checked_add_def unat_of_nat)

lemma format_len_fits: "format_len f = fits_u16 (record_len f)"
proof -
  have "checked_add (if is_extended f then 22 else 20 :: u16) (extra_bytes f)
      = fits_u16 ((if is_extended f then 22 else 20) + unat (extra_bytes f))"
    by (simp add: checked_add_def fits_u16_def)
  then show ?thesis
    unfolding format_len_def record_len_def
    by (simp only: flip: and_then_assoc) (simp add: fits_add_if)
qed

lemma format_len_eq:
  "format_len f = (if record_len f < 65536 then Ok (word_of_nat (record_len f)) else Panic)"
  by (simp add: format_len_fits fits_u16_def)

lemma format_len_OkD: "format_len f = Ok l \<Longrightarrow> unat l = record_len f"
  by (auto simp: format_len_eq unat_of_nat split: if_splits)

lemma format_len_Ok_iff: "format_len f = Ok l \<longleftrightarrow> record_len f < 65536 \<and> l = word_of_nat (record_len f)"
  by (auto simp: format_len_eq)

lemma to_u8_values:
  "to_u8 laz f = Ok n \<Longrightarrow> format_of_id (is_compressed f) n = f\<lparr>extra_bytes := 0\<rparr> \<and> n \<le> 10"
  by (cases f) (auto simp: to_u8_def format_defs word_le_nat_alt split: if_splits)

lemma writable_id:
  assumes "n \<le> (10 :: u8)"
  shows "point_format_id_compressed_to_uncompressd n = n" "\<not> is_point_format_compressed n"
    "point_format_id_compressed_to_uncompressd (point_format_id_uncompressed_to_compressed n) = n"
    "is_point_format_compressed (point_format_id_uncompressed_to_compressed n)"
proof -
  have "n \<in> set [0, 1, 2, 3, 4, 5, 6, 7, 8, 9, 10, 11, 12, 13, 14, 15, 16, 17, 18]"
    using assms by (intro u8_below_19) (simp add: word_le_nat_alt)
  then show "point_format_id_compressed_to_uncompressd n = n" "\<not> is_point_format_compressed n"
    "point_format_id_compressed_to_uncompressd (point_format_id_uncompressed_to_compressed n) = n"
    "is_point_format_compressed (point_format_id_uncompressed_to_compressed n)"
    by (auto simp: format_defs)
qed

lemma format_new_to_writable:
  assumes "to_writable_u8 laz f = Ok n"
  shows "format_new n = Ok (f\<lparr>extra_bytes := 0\<rparr>)"
proof -
  obtain k where k: "to_u8 laz f = Ok k"
    and n: "n = (if is_compressed f then point_format_id_uncompressed_to_compressed k else k)"
    using assms by (auto simp: to_writable_u8_def)
  show ?thesis
    using to_u8_values [OF k] writable_id [of k] n
    by (cases "is_compressed f") (auto simp: format_new_def)
qed

lemma to_u8_format_of_id:
  assumes "n \<le> 10"
  shows "to_u8 laz (format_of_id False n) = Ok n"
proof -
  have "n \<in> set [0, 1, 2, 3, 4, 5, 6, 7, 8, 9, 10, 11, 12, 13, 14, 15, 16, 17, 18]"
    using assms by (intro u8_below_19) (simp add: word_le_nat_alt)
  with assms show ?thesis
    by (auto simp: to_u8_def format_of_id_def TIME_FORMATS_def COLOR_FORMATS_def
        WAVEFORM_FORMATS_def NIR_FORMATS_def word_le_nat_alt)
qed

lemma format_new_uncompressed: "n \<le> 10 \<Longrightarrow> format_new n = Ok (format_of_id False n)"
  using writable_id [of n] by (simp add: format_new_def)

text \<open>The limit on the ids is not applied to an id with the compression bit.\<close>

lemma compressed_format_unchecked:
  "format_new 139 = Ok (format_of_id True 11)" "format_new 11 = Err (InvalidPointFormatNumber 11)"
  by (simp_all add: format_new_def is_point_format_compressed_def point_format_id_compressed_to_uncompressd_def
      IS_COMPRESSED_MASK_def)

end
