(* ===== verification/Las_Strings.thy ===== *)
theory Las_Strings
  imports Streams
begin

text \<open>
  Fixed-width strings of las files (\<^verbatim>\<open>src/utils.rs\<close>).  A Rust string is the list of its
  UTF-8 bytes; \<open>utf8_next\<close> decides how many bytes at the head of a list are one well-formed
  character, or how many are the maximal ill-formed part that \<^verbatim>\<open>String::from_utf8_lossy\<close>
  replaces by U+FFFD.
\<close>

section \<open>UTF-8\<close>

datatype utf8_part = Valid nat | Invalid nat

definition is_cont :: "bytes \<Rightarrow> nat \<Rightarrow> bool" where
  "is_cont bs i \<longleftrightarrow> i < length bs \<and> 0x80 \<le> bs ! i \<and> bs ! i \<le> 0xBF"

definition second_in :: "bytes \<Rightarrow> u8 \<Rightarrow> u8 \<Rightarrow> bool" where
  "second_in bs lo hi \<longleftrightarrow> 1 < length bs \<and> lo \<le> bs ! 1 \<and> bs ! 1 \<le> hi"

definition utf8_next_3 :: "bytes \<Rightarrow> u8 \<Rightarrow> u8 \<Rightarrow> utf8_part" where
  "utf8_next_3 bs lo hi =
     (if \<not> second_in bs lo hi then Invalid 1
      else if \<not> is_cont bs 2 then Invalid 2 else Valid 3)"

definition utf8_next_4 :: "bytes \<Rightarrow> u8 \<Rightarrow> u8 \<Rightarrow> utf8_part" where
  "utf8_next_4 bs lo hi =
     (if \<not> second_in bs lo hi then Invalid 1
      else if \<not> is_cont bs 2 then Invalid 2
      else if \<not> is_cont bs 3 then Invalid 3 else Valid 4)"

fun utf8_next :: "bytes \<Rightarrow> utf8_part" where
  "utf8_next [] = Valid 0"
| "utf8_next (b # bs) =
     (if b < 0x80 then Valid 1
      else if b < 0xC2 then Invalid 1
      else if b < 0xE0 then (if is_cont (b # bs) 1 then Valid 2 else Invalid 1)
      else if b = 0xE0 then utf8_next_3 (b # bs) 0xA0 0xBF
      else if b = 0xED then utf8_next_3 (b # bs) 0x80 0x9F
      else if b < 0xF0 then utf8_next_3 (b # bs) 0x80 0xBF
      else if b = 0xF0 then utf8_next_4 (b # bs) 0x90 0xBF
      else if b < 0xF4 then utf8_next_4 (b # bs) 0x80 0xBF
      else if b = 0xF4 then utf8_next_4 (b # bs) 0x80 0x8F
      else Invalid 1)"

lemma utf8_next_pos:
  assumes "bs \<noteq> []"
  shows "(\<exists>n. utf8_next bs = Valid n \<and> 0 < n \<and> n \<le> length bs) \<or>
         (\<exists>n. utf8_next bs = Invalid n \<and> 0 < n \<and> n \<le> length bs)"
  using assms by (cases bs)
    (auto simp: utf8_next_3_def utf8_next_4_def is_cont_def second_in_def Suc_le_eq)

lemma utf8_next_Valid: "utf8_next (b # bs) = Valid n \<Longrightarrow> 0 < n \<and> n \<le> Suc (length bs)"
  using utf8_next_pos [of "b # bs"] by auto

lemma utf8_next_Invalid: "utf8_next (b # bs) = Invalid n \<Longrightarrow> 0 < n \<and> n \<le> Suc (length bs)"
  using utf8_next_pos [of "b # bs"] by auto

declare utf8_next.simps [simp del]

text \<open>\<^verbatim>\<open>str::from_utf8\<close> accepts exactly the lists that are sequences of valid characters.\<close>

function utf8_valid :: "bytes \<Rightarrow> bool" where
  "utf8_valid [] = True"
| "utf8_valid (b # bs) =
     (case utf8_next (b # bs) of
        Valid n \<Rightarrow> utf8_valid (drop n (b # bs))
      | Invalid n \<Rightarrow> False)"
  by pat_completeness auto
termination
  by (relation "measure length") (auto dest!: utf8_next_Valid)

definition str_from_utf8 :: "bytes \<Rightarrow> bytes outcome" where
  "str_from_utf8 bs = (if utf8_valid bs then Ok bs else Err Utf8)"

definition REPLACEMENT_CHARACTER :: bytes where
  "REPLACEMENT_CHARACTER = [0xEF, 0xBF, 0xBD]"

function from_utf8_lossy :: "bytes \<Rightarrow> bytes" where
  "from_utf8_lossy [] = []"
| "from_utf8_lossy (b # bs) =
     (case utf8_next (b # bs) of
        Valid n \<Rightarrow> take n (b # bs) @ from_utf8_lossy (drop n (b # bs))
      | Invalid n \<Rightarrow> REPLACEMENT_CHARACTER @ from_utf8_lossy (drop n (b # bs)))"
  by pat_completeness auto
termination
  by (relation "measure length") (auto dest!: utf8_next_Valid utf8_next_Invalid)

definition is_ascii :: "bytes \<Rightarrow> bool" where
  "is_ascii s \<longleftrightarrow> list_all (\<lambda>b. b < 0x80) s"

section \<open>The operations of \<^verbatim>\<open>utils.rs\<close>\<close>

definition some_or_none_if_zero :: "'a::len word \<Rightarrow> 'a word option" where
  "some_or_none_if_zero n = (if n = 0 then None else Some n)"

fun position_of_zero :: "bytes \<Rightarrow> nat option" where
  "position_of_zero [] = None"
| "position_of_zero (b # bs) =
     (if b = 0 then Some 0 else map_option Suc (position_of_zero bs))"

definition check_ascii :: "bytes \<Rightarrow> bytes outcome" where
  "check_ascii s = (if \<not> is_ascii s then Err (NotAscii s) else Ok s)"

definition as_las_str :: "bytes \<Rightarrow> bytes outcome" where
  "as_las_str bs =
     and_then
       (case position_of_zero bs of
          Some p \<Rightarrow>
            if list_ex (\<lambda>c. c \<noteq> 0) (drop p bs) then Err (NotZeroFilled bs)
            else str_from_utf8 (take p bs)
        | None \<Rightarrow> str_from_utf8 bs)
       check_ascii"

definition as_las_string_lossy :: "bytes \<Rightarrow> bytes" where
  "as_las_string_lossy bs =
     (case as_las_str bs of
        Ok s \<Rightarrow> s
      | _ \<Rightarrow> from_utf8_lossy
               (take (case position_of_zero bs of Some p \<Rightarrow> p | None \<Rightarrow> length bs) bs))"

text \<open>\<open>from_las_str buf s\<close> is the buffer that \<^verbatim>\<open>buf.from_las_str(s)\<close> leaves.\<close>

definition from_las_str :: "bytes \<Rightarrow> bytes \<Rightarrow> bytes outcome" where
  "from_las_str buf s =
     (if length buf < length s then Err (StringTooLong s (length buf))
      else Ok (s @ drop (length s) buf))"

section \<open>Facts\<close>

lemmas utf8_simps = utf8_next.simps utf8_next_3_def utf8_next_4_def is_cont_def second_in_def

lemma is_cont_take: "i < n \<Longrightarrow> is_cont (take n bs) i = is_cont bs i"
  by (auto simp: is_cont_def)

lemma second_in_take: "1 < n \<Longrightarrow> second_in (take n bs) lo hi = second_in bs lo hi"
  by (auto simp: second_in_def)

lemma utf8_next_3_take: "3 \<le> n \<Longrightarrow> utf8_next_3 (take n bs) lo hi = utf8_next_3 bs lo hi"
  by (simp add: utf8_next_3_def is_cont_take second_in_take)

lemma utf8_next_4_take: "4 \<le> n \<Longrightarrow> utf8_next_4 (take n bs) lo hi = utf8_next_4 bs lo hi"
  by (simp add: utf8_next_4_def is_cont_take second_in_take)

lemma utf8_next_3_Valid: "utf8_next_3 bs lo hi = Valid n \<Longrightarrow> n = 3"
  by (simp add: utf8_next_3_def split: if_splits)

lemma utf8_next_4_Valid: "utf8_next_4 bs lo hi = Valid n \<Longrightarrow> n = 4"
  by (simp add: utf8_next_4_def split: if_splits)

text \<open>A well-formed character is decided by its own bytes.\<close>

lemma utf8_next_3_take_eq:
  "utf8_next_3 bs lo hi = Valid n \<Longrightarrow> take n bs = take n cs \<Longrightarrow> utf8_next_3 cs lo hi = Valid n"
  using utf8_next_3_take [of 3 bs lo hi] utf8_next_3_take [of 3 cs lo hi]
  by (auto dest: utf8_next_3_Valid)

lemma utf8_next_4_take_eq:
  "utf8_next_4 bs lo hi = Valid n \<Longrightarrow> take n bs = take n cs \<Longrightarrow> utf8_next_4 cs lo hi = Valid n"
  using utf8_next_4_take [of 4 bs lo hi] utf8_next_4_take [of 4 cs lo hi]
  by (auto dest: utf8_next_4_Valid)

lemma utf8_next_take_eq:
  assumes "utf8_next (b # bs) = Valid n" "take n (b # bs) = take n (b # cs)"
  shows "utf8_next (b # cs) = Valid n"
proof -
  have c: "is_cont (b # bs) 1 = is_cont (b # cs) 1" if "n = 2"
    using is_cont_take [of 1 2 "b # bs"] is_cont_take [of 1 2 "b # cs"] assms(2) that by simp
  have eq: "take n (x # bs) = take n (x # cs)" for x using assms(2) by (cases n) simp_all
  show ?thesis
    using assms(1) c unfolding utf8_next.simps(2)
    by (auto intro: utf8_next_3_take_eq [OF _ eq] utf8_next_4_take_eq [OF _ eq] split: if_split_asm)
qed

lemma utf8_next_append:
  assumes "utf8_next (b # bs) = Valid n"
  shows "utf8_next (b # bs @ cs) = Valid n"
proof (rule utf8_next_take_eq [OF assms])
  show "take n (b # bs) = take n (b # bs @ cs)"
    using utf8_next_Valid [OF assms] by (cases n) simp_all
qed

lemma utf8_next_take:
  assumes "utf8_next (b # bs) = Valid n"
  shows "utf8_next (take n (b # bs)) = Valid n"
proof -
  obtain m where m: "n = Suc m" using utf8_next_Valid [OF assms] by (cases n) auto
  then show ?thesis using utf8_next_take_eq [OF assms, of "take m bs"] by simp
qed

lemma utf8_valid_append: "utf8_valid a \<Longrightarrow> utf8_valid b \<Longrightarrow> utf8_valid (a @ b)"
proof (induction a rule: utf8_valid.induct)
  case 1
  then show ?case by simp
next
  case (2 x xs)
  then obtain n where n: "utf8_next (x # xs) = Valid n" and v: "utf8_valid (drop n (x # xs))"
    by (auto split: utf8_part.splits)
  have le: "n \<le> length (x # xs)" using utf8_next_Valid [OF n] by simp
  have "utf8_valid (drop n (x # xs) @ b)" using "2.IH" [OF n v] "2.prems"(2) by simp
  moreover have "drop n ((x # xs) @ b) = drop n (x # xs) @ b" using le by (simp only: drop_append) simp
  ultimately show ?case by (simp add: utf8_next_append [OF n])
qed

lemma utf8_valid_char:
  assumes "utf8_next (b # bs) = Valid n"
  shows "utf8_valid (take n (b # bs))"
proof -
  obtain m where m: "n = Suc m" using utf8_next_Valid [OF assms] by (cases n) auto
  then show ?thesis using utf8_next_take [OF assms] by simp
qed

lemma utf8_valid_replacement: "utf8_valid REPLACEMENT_CHARACTER"
  by (simp add: REPLACEMENT_CHARACTER_def utf8_simps)

lemma utf8_valid_lossy: "utf8_valid (from_utf8_lossy bs)"
proof (induction bs rule: from_utf8_lossy.induct)
  case (2 b bs)
  show ?case
  proof (cases "utf8_next (b # bs)")
    case (Valid n)
    with 2 show ?thesis using utf8_valid_append [OF utf8_valid_char [OF Valid]] by simp
  next
    case (Invalid n)
    with 2 show ?thesis by (auto intro: utf8_valid_append utf8_valid_replacement)
  qed
qed simp

lemma from_utf8_lossy_valid: "utf8_valid bs \<Longrightarrow> from_utf8_lossy bs = bs"
proof (induction bs rule: from_utf8_lossy.induct)
  case (2 b bs)
  then obtain n where n: "utf8_next (b # bs) = Valid n" and v: "utf8_valid (drop n (b # bs))"
    by (auto split: utf8_part.splits)
  have "from_utf8_lossy (drop n (b # bs)) = drop n (b # bs)" using 2 n v by simp
  then show ?case using n by (simp del: drop_Suc_Cons take_Suc_Cons)
qed simp

lemma utf8_valid_ascii: "is_ascii bs \<Longrightarrow> utf8_valid bs"
  by (induction bs) (auto simp: is_ascii_def utf8_next.simps)

lemma position_of_zero_None: "position_of_zero bs = None \<longleftrightarrow> 0 \<notin> set bs"
  by (induction bs) auto

lemma position_of_zero_append:
  "0 \<notin> set s \<Longrightarrow>
   position_of_zero (s @ bs) = map_option (\<lambda>i. length s + i) (position_of_zero bs)"
  by (induction s; cases "position_of_zero bs") auto

lemma position_of_zero_Some:
  "position_of_zero bs = Some p \<Longrightarrow> p < length bs \<and> bs ! p = 0 \<and> 0 \<notin> set (take p bs)"
  by (induction bs arbitrary: p) (auto split: if_splits)

text \<open>The strings that a fixed-width field holds: ASCII, no NUL, zeros up to the width.\<close>

definition las_str :: "bytes \<Rightarrow> bool" where
  "las_str s \<longleftrightarrow> is_ascii s \<and> 0 \<notin> set s"

lemma as_las_str_padded:
  assumes "las_str s"
  shows "as_las_str (s @ replicate k 0) = Ok s"
proof -
  have "utf8_valid s" using assms by (simp add: las_str_def utf8_valid_ascii)
  moreover have "position_of_zero (replicate k 0) = (if k = 0 then None else Some 0)"
    by (cases k) auto
  ultimately show ?thesis using assms
    by (auto simp: as_las_str_def las_str_def position_of_zero_append str_from_utf8_def
        check_ascii_def list_ex_iff position_of_zero_None)
qed

lemma as_las_str_Ok:
  assumes "as_las_str bs = Ok s"
  shows "las_str s" "bs = s @ replicate (length bs - length s) 0"
proof -
  have "las_str s \<and> bs = s @ replicate (length bs - length s) 0"
  proof (cases "position_of_zero bs")
    case None
    with assms show ?thesis
      by (auto simp: as_las_str_def str_from_utf8_def check_ascii_def las_str_def
          position_of_zero_None split: if_splits)
  next
    case (Some p)
    with assms have s: "s = take p bs" and z: "\<forall>c \<in> set (drop p bs). c = 0" and a: "is_ascii s"
      by (auto simp: as_las_str_def str_from_utf8_def check_ascii_def list_ex_iff split: if_splits)
    have "drop p bs = replicate (length bs - p) 0"
      using z by (metis length_drop replicate_eqI)
    moreover have "p < length bs" "0 \<notin> set s" using position_of_zero_Some [OF Some] s by auto
    ultimately show ?thesis
      using s a append_take_drop_id [of p bs] by (auto simp: las_str_def)
  qed
  then show "las_str s" "bs = s @ replicate (length bs - length s) 0" by blast+
qed

text \<open>Any UTF-8 text without NUL survives the lossy reader.\<close>

definition las_text :: "bytes \<Rightarrow> bool" where
  "las_text s \<longleftrightarrow> utf8_valid s \<and> 0 \<notin> set s"

lemma las_str_text: "las_str s \<Longrightarrow> las_text s"
  by (simp add: las_str_def las_text_def utf8_valid_ascii)

lemma as_las_string_lossy_prefix:
  assumes s: "las_text s" and bs: "bs = s \<or> (\<exists>rest. bs = s @ 0 # rest)"
  shows "as_las_string_lossy bs = s"
proof -
  have p: "(case position_of_zero bs of Some p \<Rightarrow> p | None \<Rightarrow> length bs) = length s"
    using s bs position_of_zero_None [of s]
    by (auto simp: position_of_zero_append las_text_def split: option.splits)
  have t: "take (length s) bs = s" using bs by auto
  show ?thesis
  proof (cases "as_las_str bs")
    case (Ok t)
    then have "t = s"
      using p t by (cases "position_of_zero bs")
        (auto simp: as_las_str_def str_from_utf8_def check_ascii_def split: if_splits)
    with Ok show ?thesis by (simp add: as_las_string_lossy_def)
  qed (use s in \<open>simp_all add: as_las_string_lossy_def p t from_utf8_lossy_valid las_text_def\<close>)
qed

lemma as_las_string_lossy_text:
  assumes "las_text s"
  shows "as_las_string_lossy (s @ replicate k 0) = s"
  by (rule as_las_string_lossy_prefix [OF assms]) (cases k; auto)

lemma from_las_str_zeros:
  "length s \<le> n \<Longrightarrow> from_las_str (replicate n 0) s = Ok (s @ replicate (n - length s) 0)"
  by (simp add: from_las_str_def)

lemma as_las_string_lossy_padded:
  "las_str s \<Longrightarrow> as_las_string_lossy (s @ replicate k 0) = s"
  by (rule as_las_string_lossy_text) (rule las_str_text)

text \<open>
  C31. A fixed-width field of the file holds exactly the ASCII strings without NUL that fit:
  writing such a string into a zeroed field and reading the field gives the string back, with
  the strict and with the lossy reader; and a field that the strict reader accepts is the
  field that writing its string produces.
\<close>

theorem las_str_field:
  "(las_str s \<and> length s \<le> n \<longrightarrow>
      (\<exists>buf. from_las_str (replicate n 0) s = Ok buf \<and> length buf = n \<and>
             as_las_str buf = Ok s \<and> as_las_string_lossy buf = s)) \<and>
   (as_las_str buf = Ok s \<longrightarrow>
      las_str s \<and> from_las_str (replicate (length buf) 0) s = Ok buf)"
  using as_las_str_Ok [of buf s]
  by (auto simp: from_las_str_zeros as_las_str_padded as_las_string_lossy_padded)
    (metis from_las_str_zeros le_add1 length_append)

theorem las_str_field_witness:
  "(\<exists>buf. from_las_str (replicate 4 0) [0x41, 0x42] = Ok buf \<and> length buf = 4 \<and>
      as_las_str buf = Ok [0x41, 0x42] \<and> as_las_string_lossy buf = [0x41, 0x42]) \<and>
   from_las_str (replicate 3 0) [0x41] = Ok [0x41, 0, 0]"
proof -
  have "las_str [0x41, 0x42]" by (simp add: las_str_def is_ascii_def)
  moreover have "as_las_str [0x41, 0, 0] = Ok [0x41]"
    by (simp add: as_las_str_def str_from_utf8_def check_ascii_def is_ascii_def utf8_next.simps)
  ultimately show ?thesis
    using las_str_field [of "[0x41, 0x42]" 4 "[]"] las_str_field [of "[0x41]" 0 "[0x41, 0, 0]"]
    by (simp add: numeral_3_eq_3)
qed

text \<open>
  C32. The lossy reader always returns well-formed UTF-8, whatever bytes the field holds, and
  it returns a well-formed text before the first NUL unchanged.
\<close>

theorem as_las_string_lossy_utf8:
  "utf8_valid (as_las_string_lossy bs) \<and>
   (utf8_valid s \<and> 0 \<notin> set s \<longrightarrow> as_las_string_lossy (s @ 0 # rest) = s)"
proof -
  have "utf8_valid s" if "as_las_str bs = Ok s" for s
    using as_las_str_Ok [OF that] by (simp add: las_str_def utf8_valid_ascii)
  then have 1: "utf8_valid (as_las_string_lossy bs)"
    by (cases "as_las_str bs") (simp_all add: as_las_string_lossy_def utf8_valid_lossy)
  have 2: "as_las_string_lossy (s @ 0 # rest) = s" if "utf8_valid s" "0 \<notin> set s"
    using that by (intro as_las_string_lossy_prefix) (auto simp: las_text_def)
  from 1 2 show ?thesis by blast
qed

theorem as_las_string_lossy_utf8_witness:
  "utf8_valid (as_las_string_lossy [0xC3]) \<and> as_las_string_lossy [0xC3, 0xA9, 0, 7] = [0xC3, 0xA9]"
proof -
  have "utf8_valid [0xC3, 0xA9]" by (simp add: utf8_simps)
  then show ?thesis
    using as_las_string_lossy_utf8 [of "[0xC3]" "[0xC3, 0xA9]" "[7]"] by simp
qed

end
