(* ===== verification/Raw_Point.thy ===== *)
theory Raw_Point
  imports Point_Format Las_Strings
begin

text \<open>
  Raw points (\<^verbatim>\<open>src/raw/point.rs\<close>): the flag bytes in their two- and three-byte forms with
  their accessors and conversions, the two encodings of the scan angle, waveform data, and
  the codec of a point record in a given format.
\<close>

section \<open>Flags\<close>

datatype flags = TwoByte u8 u8 | ThreeByte u8 u8 u8

definition OVERLAP_CLASSIFICATION_CODE :: u8 where "OVERLAP_CLASSIFICATION_CODE = 12"

fun return_number :: "flags \<Rightarrow> u8" where
  "return_number (TwoByte a _) = a AND 7"
| "return_number (ThreeByte a _ _) = a AND 15"

fun number_of_returns :: "flags \<Rightarrow> u8" where
  "number_of_returns (TwoByte a _) = drop_bit 3 a AND 7"
| "number_of_returns (ThreeByte a _ _) = drop_bit 4 a AND 15"

fun direction_byte :: "flags \<Rightarrow> u8" where
  "direction_byte (TwoByte a _) = a"
| "direction_byte (ThreeByte _ b _) = b"

definition flags_scan_direction :: "flags \<Rightarrow> scan_direction" where
  "flags_scan_direction f =
     (if drop_bit 6 (direction_byte f) AND 1 = 1 then LeftToRight else RightToLeft)"

fun is_synthetic :: "flags \<Rightarrow> bool" where
  "is_synthetic (TwoByte _ b) \<longleftrightarrow> drop_bit 5 b AND 1 = 1"
| "is_synthetic (ThreeByte _ b _) \<longleftrightarrow> b AND 1 = 1"

fun is_key_point :: "flags \<Rightarrow> bool" where
  "is_key_point (TwoByte _ b) \<longleftrightarrow> drop_bit 6 b AND 1 = 1"
| "is_key_point (ThreeByte _ b _) \<longleftrightarrow> b AND 2 = 2"

fun is_withheld :: "flags \<Rightarrow> bool" where
  "is_withheld (TwoByte _ b) \<longleftrightarrow> drop_bit 7 b AND 1 = 1"
| "is_withheld (ThreeByte _ b _) \<longleftrightarrow> b AND 4 = 4"

fun is_overlap :: "flags \<Rightarrow> bool" where
  "is_overlap (TwoByte _ b) \<longleftrightarrow> b AND 15 = OVERLAP_CLASSIFICATION_CODE"
| "is_overlap (ThreeByte _ b _) \<longleftrightarrow> b AND 8 = 8"

fun scanner_channel :: "flags \<Rightarrow> u8" where
  "scanner_channel (TwoByte _ _) = 0"
| "scanner_channel (ThreeByte _ b _) = drop_bit 4 b AND 3"

definition is_edge_of_flight_line :: "flags \<Rightarrow> bool" where
  "is_edge_of_flight_line f \<longleftrightarrow> drop_bit 7 (direction_byte f) = 1"

definition three_to_two_bytes :: "flags \<Rightarrow> u8 \<Rightarrow> (u8 \<times> u8) outcome" where
  "three_to_two_bytes f c =
     (if 7 < return_number f then Err (ReturnNumber (return_number f) None)
      else if 7 < number_of_returns f then Err (ReturnNumber (number_of_returns f) None)
      else if 31 < c then Err (InvalidClassification c)
      else if 0 < scanner_channel f then Err (InvalidScannerChannel (scanner_channel f))
      else Ok (push_bit 3 (number_of_returns f) + return_number f
               + (if flags_scan_direction f = LeftToRight then 64 else 0)
               + (if is_edge_of_flight_line f then 128 else 0),
               (if is_overlap f then OVERLAP_CLASSIFICATION_CODE else c)
               + (if is_synthetic f then 32 else 0)
               + (if is_key_point f then 64 else 0)
               + (if is_withheld f then 128 else 0)))"

fun to_two_bytes :: "flags \<Rightarrow> (u8 \<times> u8) outcome" where
  "to_two_bytes (TwoByte a b) = Ok (a, b)"
| "to_two_bytes (ThreeByte a b c) = three_to_two_bytes (ThreeByte a b c) c"

fun to_classification :: "flags \<Rightarrow> classification outcome" where
  "to_classification (TwoByte _ b) = classification_new (b AND 31)"
| "to_classification (ThreeByte _ _ c) = classification_new c"

fun clear_overlap_class :: "flags \<Rightarrow> flags" where
  "clear_overlap_class (TwoByte a b) =
     (if b AND 31 = OVERLAP_CLASSIFICATION_CODE
      then TwoByte a ((b AND 224) + u8_of_classification Unclassified)
      else TwoByte a b)"
| "clear_overlap_class (ThreeByte a b c) =
     (if c = OVERLAP_CLASSIFICATION_CODE
      then ThreeByte a (b OR 8) (u8_of_classification Unclassified)
      else ThreeByte a b c)"

text \<open>\<^verbatim>\<open>impl From<Flags> for (u8, u8, u8)\<close> and the equality of flags defined by it.\<close>

fun three_bytes :: "flags \<Rightarrow> u8 \<times> u8 \<times> u8" where
  "three_bytes (TwoByte a b) =
     (let f = TwoByte a b in (push_bit 4 (number_of_returns f) + return_number f, 0, b))"
| "three_bytes (ThreeByte a b c) = (a, b, c)"

definition flags_eq :: "flags \<Rightarrow> flags \<Rightarrow> bool" where
  "flags_eq f g =
     (case (three_bytes f, three_bytes g) of ((a, b, c), (d, e, h)) \<Rightarrow> a = d \<and> b = e \<and> c = h)"

definition flags_default :: flags where "flags_default = TwoByte 0 0"

section \<open>Scan angles\<close>

datatype scan_angle = Rank i8 | Scaled i16

text \<open>The constant \<^verbatim>\<open>0.006\<close> as an \<^verbatim>\<open>f32\<close>.\<close>

definition SCAN_ANGLE_SCALE_FACTOR :: f32 where
  "SCAN_ANGLE_SCALE_FACTOR = word_of_nat (fp_round 23 8 False 6 1000)"

fun f32_of_scan_angle :: "scan_angle \<Rightarrow> f32" where
  "f32_of_scan_angle (Rank n) = f32_of_int (sint n)"
| "f32_of_scan_angle (Scaled n) = f32_mul (f32_of_int (sint n)) SCAN_ANGLE_SCALE_FACTOR"

fun i8_of_scan_angle :: "scan_angle \<Rightarrow> i8" where
  "i8_of_scan_angle (Rank n) = n"
| "i8_of_scan_angle (Scaled n) = f32_to_i8 (f32_round (f32_of_scan_angle (Scaled n)))"

definition scan_angle_of_f32 :: "f32 \<Rightarrow> scan_angle" where
  "scan_angle_of_f32 n = Scaled (f32_to_i16 (f32_div n SCAN_ANGLE_SCALE_FACTOR))"

fun i16_of_scan_angle :: "scan_angle \<Rightarrow> i16" where
  "i16_of_scan_angle (Scaled n) = n"
| "i16_of_scan_angle (Rank n) =
     (case scan_angle_of_f32 (f32_of_int (sint n)) of Scaled k \<Rightarrow> k | Rank k \<Rightarrow> 0)"

definition scan_angle_eq :: "scan_angle \<Rightarrow> scan_angle \<Rightarrow> bool" where
  "scan_angle_eq a b = f32_eq (f32_of_scan_angle a) (f32_of_scan_angle b)"

definition scan_angle_default :: scan_angle where "scan_angle_default = Rank 0"

section \<open>Waveforms and points\<close>

record waveform =
  wave_packet_descriptor_index :: u8
  byte_offset_to_waveform_data :: u64
  waveform_packet_size_in_bytes :: u32
  return_point_waveform_location :: f32
  x_t :: f32
  y_t :: f32
  z_t :: f32

record raw_point =
  rp_x :: i32
  rp_y :: i32
  rp_z :: i32
  rp_intensity :: u16
  rp_flags :: flags
  rp_scan_angle :: scan_angle
  rp_user_data :: u8
  rp_point_source_id :: u16
  rp_gps_time :: "f64 option"
  rp_color :: "color option"
  rp_waveform :: "waveform option"
  rp_nir :: "u16 option"
  rp_extra_bytes :: bytes

definition waveform_default :: waveform where
  "waveform_default =
     \<lparr>wave_packet_descriptor_index = 0, byte_offset_to_waveform_data = 0,
      waveform_packet_size_in_bytes = 0, return_point_waveform_location = 0,
      x_t = 0, y_t = 0, z_t = 0\<rparr>"

definition color_default :: color where
  "color_default = \<lparr>red = 0, green = 0, blue = 0\<rparr>"

definition waveform_read_from :: "waveform reader" where
  "waveform_read_from =
     io_bind read_u8 (\<lambda>i. io_bind read_u64 (\<lambda>o'. io_bind read_u32 (\<lambda>n.
     io_bind read_u32 (\<lambda>l. io_bind read_u32 (\<lambda>x. io_bind read_u32 (\<lambda>y. io_bind read_u32 (\<lambda>z.
     io_return \<lparr>wave_packet_descriptor_index = i, byte_offset_to_waveform_data = o',
       waveform_packet_size_in_bytes = n, return_point_waveform_location = l,
       x_t = x, y_t = y, z_t = z\<rparr>)))))))"

definition waveform_write_to :: "waveform \<Rightarrow> writer" where
  "waveform_write_to w =
     io_bind (write_u8 (wave_packet_descriptor_index w)) (\<lambda>_.
     io_bind (write_u64 (byte_offset_to_waveform_data w)) (\<lambda>_.
     io_bind (write_u32 (waveform_packet_size_in_bytes w)) (\<lambda>_.
     io_bind (write_u32 (return_point_waveform_location w)) (\<lambda>_.
     io_bind (write_u32 (x_t w)) (\<lambda>_.
     io_bind (write_u32 (y_t w)) (\<lambda>_.
     write_u32 (z_t w)))))))"

definition color_read_from :: "color reader" where
  "color_read_from =
     io_bind read_u16 (\<lambda>r. io_bind read_u16 (\<lambda>g. io_bind read_u16 (\<lambda>b.
     io_return \<lparr>red = r, green = g, blue = b\<rparr>)))"

definition color_write_to :: "color \<Rightarrow> writer" where
  "color_write_to c =
     io_bind (write_u16 (red c)) (\<lambda>_. io_bind (write_u16 (green c)) (\<lambda>_. write_u16 (blue c)))"

definition flags_read_from :: "format \<Rightarrow> flags reader" where
  "flags_read_from f =
     (if is_extended f
      then io_bind read_u8 (\<lambda>a. io_bind read_u8 (\<lambda>b. io_bind read_u8 (\<lambda>c.
             io_return (ThreeByte a b c))))
      else io_bind read_u8 (\<lambda>a. io_bind read_u8 (\<lambda>b. io_return (TwoByte a b))))"

definition angle_read_from :: "format \<Rightarrow> (scan_angle \<times> u8) reader" where
  "angle_read_from f =
     (if is_extended f
      then io_bind read_u8 (\<lambda>u. io_bind read_u16 (\<lambda>n. io_return (Scaled n, u)))
      else io_bind read_u8 (\<lambda>n. io_bind read_u8 (\<lambda>u. io_return (Rank n, u))))"

definition raw_point_read_from :: "format \<Rightarrow> raw_point reader" where
  "raw_point_read_from f =
     io_bind read_u32 (\<lambda>x. io_bind read_u32 (\<lambda>y. io_bind read_u32 (\<lambda>z.
     io_bind read_u16 (\<lambda>intensity.
     io_bind (flags_read_from f) (\<lambda>flags.
     io_bind (angle_read_from f) (\<lambda>(angle, user_data).
     io_bind read_u16 (\<lambda>source.
     io_bind (read_if (has_gps_time f) read_u64) (\<lambda>time.
     io_bind (read_if (has_color f) color_read_from) (\<lambda>color.
     io_bind (read_if (has_waveform f) waveform_read_from) (\<lambda>waveform.
     io_bind (read_if (has_nir f) read_u16) (\<lambda>nir.
     io_bind (read_exact (unat (extra_bytes f))) (\<lambda>extra.
     io_return \<lparr>rp_x = x, rp_y = y, rp_z = z, rp_intensity = intensity, rp_flags = flags,
       rp_scan_angle = angle, rp_user_data = user_data, rp_point_source_id = source,
       rp_gps_time = time, rp_color = color, rp_waveform = waveform,
       rp_nir = Option.bind nir some_or_none_if_zero, rp_extra_bytes = extra\<rparr>))))))))))))"

definition flags_write_to :: "format \<Rightarrow> flags \<Rightarrow> writer" where
  "flags_write_to f fl =
     (if is_extended f
      then case three_bytes fl of (a, b, c) \<Rightarrow>
        io_bind (write_u8 a) (\<lambda>_. io_bind (write_u8 b) (\<lambda>_. write_u8 c))
      else io_bind (io_lift (to_two_bytes fl)) (\<lambda>(a, b).
        io_bind (write_u8 a) (\<lambda>_. write_u8 b)))"

definition angle_write_to :: "format \<Rightarrow> scan_angle \<Rightarrow> u8 \<Rightarrow> writer" where
  "angle_write_to f angle user_data =
     (if is_extended f
      then io_bind (write_u8 user_data) (\<lambda>_. write_u16 (i16_of_scan_angle angle))
      else io_bind (write_u8 (i8_of_scan_angle angle)) (\<lambda>_. write_u8 user_data))"

definition raw_point_write_to :: "format \<Rightarrow> raw_point \<Rightarrow> writer" where
  "raw_point_write_to f p =
     (if unat (extra_bytes f) \<noteq> length (rp_extra_bytes p) then io_lift Panic
      else
     io_bind (write_u32 (rp_x p)) (\<lambda>_. io_bind (write_u32 (rp_y p)) (\<lambda>_.
     io_bind (write_u32 (rp_z p)) (\<lambda>_. io_bind (write_u16 (rp_intensity p)) (\<lambda>_.
     io_bind (flags_write_to f (rp_flags p)) (\<lambda>_.
     io_bind (angle_write_to f (rp_scan_angle p) (rp_user_data p)) (\<lambda>_.
     io_bind (write_u16 (rp_point_source_id p)) (\<lambda>_.
     io_bind (write_if (has_gps_time f) (write_u64 (unwrap_or (rp_gps_time p) 0))) (\<lambda>_.
     io_bind (write_if (has_color f) (color_write_to (unwrap_or (rp_color p) color_default))) (\<lambda>_.
     io_bind (write_if (has_nir f) (write_u16 (unwrap_or (rp_nir p) 0))) (\<lambda>_.
     io_bind (write_if (has_waveform f)
       (waveform_write_to (unwrap_or (rp_waveform p) waveform_default))) (\<lambda>_.
     write_all (rp_extra_bytes p)))))))))))))"

section \<open>Flags: facts\<close>

lemma and_pow2_iff_bit:
  assumes "k < LENGTH('a::len)"
  shows "(w AND 2 ^ k = (2 ^ k :: 'a word)) \<longleftrightarrow> odd (unat w div 2 ^ k)"
proof -
  have "(w AND 2 ^ k = (2 ^ k :: 'a word)) \<longleftrightarrow> bit w k"
  proof
    assume eq: "w AND 2 ^ k = (2 ^ k :: 'a word)"
    have "bit (2 ^ k :: 'a word) k" using assms by (simp add: bit_exp_iff)
    with eq show "bit w k" by (metis bit_and_iff)
  next
    assume "bit w k"
    then show "w AND 2 ^ k = (2 ^ k :: 'a word)"
      by (intro bit_word_eqI) (auto simp: bit_and_iff bit_exp_iff)
  qed
  also have "\<dots> \<longleftrightarrow> bit (unat w) k" by (simp add: bit_unsigned_iff)
  finally show ?thesis by (simp add: bit_iff_odd)
qed

lemma and_flag_iff [bitfield]:
  "((w :: u8) AND 2 = 2) \<longleftrightarrow> odd (unat w div 2)"
  "((w :: u8) AND 4 = 4) \<longleftrightarrow> odd (unat w div 4)"
  "((w :: u8) AND 8 = 8) \<longleftrightarrow> odd (unat w div 8)"
  using and_pow2_iff_bit [of 1 w] and_pow2_iff_bit [of 2 w] and_pow2_iff_bit [of 3 w] by simp_all

lemma word_eq_1_iff [bitfield]: "((w :: u8) = 1) \<longleftrightarrow> unat w = 1"
  by (simp add: word_unat_eq_iff)

lemmas flag_simps = bitfield word_unat_eq_iff flags_scan_direction_def is_edge_of_flight_line_def

lemma fields_of_a:
  fixes n r v :: nat
  assumes "n \<le> 7" "r \<le> 7"
    and "v = 8 * n + r + (if d then 64 else 0) + (if e then 128 else 0)"
  shows "v mod 8 = r" "v div 8 mod 8 = n" "v div 64 mod 2 = of_bool d" "v div 128 = of_bool e"
proof -
  define m :: nat where "m = of_bool d + 2 * of_bool e"
  have v: "v = r + 8 * (n + 8 * m)" using assms(3) by (simp add: m_def)
  then have v8: "v div 8 = n + 8 * m" using assms(2) by simp
  have v64: "v div 64 = m" using v8 assms(1) div_mult2_eq [of v 8 8] by simp
  show "v mod 8 = r" unfolding v using assms(2) by (subst mod_mult_self2) simp
  show "v div 8 mod 8 = n" using v8 assms(1) by simp
  show "v div 64 mod 2 = of_bool d" by (simp add: v64 m_def)
  show "v div 128 = of_bool e" using v64 div_mult2_eq [of v 64 2] by (simp add: m_def)
qed

lemma fields_of_b:
  fixes c v :: nat
  assumes "c \<le> 31"
    and "v = c + (if s then 32 else 0) + (if k then 64 else 0) + (if w then 128 else 0)"
  shows "v mod 32 = c" "v div 32 mod 2 = of_bool s" "v div 64 mod 2 = of_bool k"
    "v div 128 mod 2 = of_bool w"
proof -
  define m :: nat where "m = of_bool s + 2 * (of_bool k + 2 * of_bool w)"
  have v: "v = c + 32 * m" using assms(2) by (simp add: m_def)
  then have v32: "v div 32 = m" using assms(1) by simp
  then have v64: "v div 64 = of_bool k + 2 * of_bool w"
    using div_mult2_eq [of v 32 2] by (simp add: m_def)
  show "v mod 32 = c" using v assms(1) by simp
  show "v div 32 mod 2 = of_bool s" by (simp add: v32 m_def)
  show "v div 64 mod 2 = of_bool k" by (simp add: v64)
  show "v div 128 mod 2 = of_bool w" using v64 div_mult2_eq [of v 64 2] by simp
qed

lemma unat_two_byte_a:
  fixes n r :: u8
  assumes "unat n \<le> 7" "unat r \<le> 7"
  shows "unat (push_bit 3 n + r + (if d then 64 else 0) + (if e then 128 else 0))
       = 8 * unat n + unat r + (if d then 64 else 0) + (if e then 128 else 0)"
  using assms by (auto simp: push_bit_eq_mult unat_word_ariths)

lemma unat_two_byte_b:
  fixes c :: u8
  assumes "unat c \<le> 31"
  shows "unat (c + (if s then 32 else 0) + (if k then 64 else 0) + (if w then 128 else 0))
       = unat c + (if s then 32 else 0) + (if k then 64 else 0) + (if w then 128 else 0)"
  using assms by (auto simp: unat_word_ariths)

lemma three_to_two_bytes_bounds:
  assumes "three_to_two_bytes f c = Ok (x, y)"
  shows "unat (number_of_returns f) \<le> 7" "unat (return_number f) \<le> 7"
    "unat (if is_overlap f then 12 else c) \<le> 31" "scanner_channel f = 0"
    "unat x = 8 * unat (number_of_returns f) + unat (return_number f)
       + (if flags_scan_direction f = LeftToRight then 64 else 0)
       + (if is_edge_of_flight_line f then 128 else 0)"
    "unat y = unat (if is_overlap f then 12 else c)
       + (if is_synthetic f then 32 else 0) + (if is_key_point f then 64 else 0)
       + (if is_withheld f then 128 else 0)"
proof -
  have g: "\<not> 7 < return_number f" "\<not> 7 < number_of_returns f" "\<not> 31 < c"
    "\<not> 0 < scanner_channel f"
    using assms by (auto simp: three_to_two_bytes_def simp del: word_neq_0_conv split: if_split_asm)
  then have x: "x = push_bit 3 (number_of_returns f) + return_number f
               + (if flags_scan_direction f = LeftToRight then 64 else 0)
               + (if is_edge_of_flight_line f then 128 else 0)"
    and y: "y = (if is_overlap f then OVERLAP_CLASSIFICATION_CODE else c)
               + (if is_synthetic f then 32 else 0) + (if is_key_point f then 64 else 0)
               + (if is_withheld f then 128 else 0)"
    using assms unfolding three_to_two_bytes_def by (simp_all only: if_False outcome.inject prod.inject)
  show n: "unat (number_of_returns f) \<le> 7" and r: "unat (return_number f) \<le> 7"
    and c: "unat (if is_overlap f then 12 else c) \<le> 31"
    using g by (simp_all add: word_less_nat_alt not_less)
  show "scanner_channel f = 0" using g by (simp add: word_gt_0)
  show "unat x = 8 * unat (number_of_returns f) + unat (return_number f)
       + (if flags_scan_direction f = LeftToRight then 64 else 0)
       + (if is_edge_of_flight_line f then 128 else 0)"
    unfolding x by (rule unat_two_byte_a [OF n r])
  from unat_two_byte_b [OF c]
  show "unat y = unat (if is_overlap f then 12 else c)
       + (if is_synthetic f then 32 else 0) + (if is_key_point f then 64 else 0)
       + (if is_withheld f then 128 else 0)"
    unfolding y OVERLAP_CLASSIFICATION_CODE_def .
qed

lemma to_two_bytes_preserves:
  assumes ok: "to_two_bytes f = Ok (x, y)"
  defines "t \<equiv> TwoByte x y"
  shows "return_number t = return_number f" "number_of_returns t = number_of_returns f"
    "flags_scan_direction t = flags_scan_direction f"
    "is_edge_of_flight_line t = is_edge_of_flight_line f"
    "is_synthetic t = is_synthetic f" "is_key_point t = is_key_point f"
    "is_withheld t = is_withheld f" "scanner_channel t = scanner_channel f"
proof -
  have "return_number t = return_number f \<and> number_of_returns t = number_of_returns f \<and>
    flags_scan_direction t = flags_scan_direction f \<and>
    is_edge_of_flight_line t = is_edge_of_flight_line f \<and>
    is_synthetic t = is_synthetic f \<and> is_key_point t = is_key_point f \<and>
    is_withheld t = is_withheld f \<and> scanner_channel t = scanner_channel f"
  proof (cases f)
    case (TwoByte a b)
    with ok show ?thesis by (simp add: t_def)
  next
    case (ThreeByte a b c)
    with ok have "three_to_two_bytes f c = Ok (x, y)" by simp
    note bounds = three_to_two_bytes_bounds [OF this]
    note a = fields_of_a [OF bounds(1,2,5)]
    note b = fields_of_b [OF bounds(3,6)]
    have "return_number t = return_number f" "number_of_returns t = number_of_returns f"
      using a by (simp_all add: t_def bitfield word_unat_eq_iff)
    moreover have "flags_scan_direction t = flags_scan_direction f"
      using a(3) by (cases "flags_scan_direction f")
        (simp_all add: t_def flags_scan_direction_def [of "TwoByte x y"] bitfield word_unat_eq_iff)
    moreover have "is_edge_of_flight_line t = is_edge_of_flight_line f"
      using a(4) by (simp add: t_def is_edge_of_flight_line_def [of "TwoByte x y"] bitfield word_unat_eq_iff)
    moreover have "is_synthetic t = is_synthetic f" "is_key_point t = is_key_point f"
      "is_withheld t = is_withheld f"
      using b(2-4) by (simp_all add: t_def bitfield word_unat_eq_iff)
    ultimately show ?thesis using bounds(4) by (simp add: t_def)
  qed
  then show "return_number t = return_number f" "number_of_returns t = number_of_returns f"
    "flags_scan_direction t = flags_scan_direction f"
    "is_edge_of_flight_line t = is_edge_of_flight_line f"
    "is_synthetic t = is_synthetic f" "is_key_point t = is_key_point f"
    "is_withheld t = is_withheld f" "scanner_channel t = scanner_channel f"
    by blast+
qed

lemma to_two_bytes_class:
  assumes ok: "to_two_bytes (ThreeByte a b c) = Ok (x, y)"
  shows "y AND 31 = (if is_overlap (ThreeByte a b c) then 12 else c)"
proof -
  let ?f = "ThreeByte a b c"
  from ok have "three_to_two_bytes ?f c = Ok (x, y)" by simp
  note bounds = three_to_two_bytes_bounds [OF this]
  from fields_of_b(1) [OF bounds(3,6)]
  have "unat y mod 32 = unat (if is_overlap ?f then 12 else c)" .
  then show ?thesis by (simp add: word_unat_eq_iff bitfield)
qed

lemma and_224_low: "((b :: u8) AND 224) AND 31 = 0"
  by (simp add: and.assoc)

lemma clear_two_byte_class: "((b AND 224) + 1) AND 31 = (1 :: u8)"
proof -
  have "unat (b AND 224) mod 32 = 0" using unat_and_31 [of "b AND 224"] by (simp add: and_224_low)
  then have "(unat (b AND 224) + 1) mod 256 mod 32 = 1" by (auto simp: mod_mod_cancel mod_Suc)
  then show ?thesis by (simp add: word_unat_eq_iff bitfield unat_word_ariths)
qed

lemma to_classification_cleared:
  "\<exists>c. to_classification (clear_overlap_class f) = Ok c \<and> valid_classification c"
proof -
  have new: "\<exists>c. classification_new n = Ok c \<and> valid_classification c" if "n \<noteq> 12" for n
  proof -
    have "\<exists>c. classification_new n = Ok c" using that by (auto simp: classification_new_def)
    then show ?thesis using classification_new_to_u8 by blast
  qed
  show ?thesis
  proof (cases f)
    case (TwoByte a b)
    then show ?thesis
      using new [of "b AND 31"] new [of 1] clear_two_byte_class [of b]
      by (auto simp: OVERLAP_CLASSIFICATION_CODE_def)
  next
    case (ThreeByte a b c)
    then show ?thesis using new [of c] new [of 1] by (auto simp: OVERLAP_CLASSIFICATION_CODE_def)
  qed
qed

section \<open>Codecs of the parts of a point\<close>

definition enc_waveform :: "waveform \<Rightarrow> bytes" where
  "enc_waveform w =
     [wave_packet_descriptor_index w] @ to_le 8 (byte_offset_to_waveform_data w)
     @ to_le 4 (waveform_packet_size_in_bytes w) @ to_le 4 (return_point_waveform_location w)
     @ to_le 4 (x_t w) @ to_le 4 (y_t w) @ to_le 4 (z_t w)"

definition enc_color :: "color \<Rightarrow> bytes" where
  "enc_color c = to_le 2 (red c) @ to_le 2 (green c) @ to_le 2 (blue c)"

interpretation color: codec color_read_from color_write_to enc_color 6
proof
  show "writes (color_write_to v) (enc_color v)" for v
    unfolding color_write_to_def enc_color_def by (intro stream)
  show "length (enc_color v) = 6" for v by (simp add: enc_color_def)
  show "reads color_read_from (enc_color v) v" for v
    unfolding color_read_from_def enc_color_def
    by (rule reads_bind, rule prim_reads)+ (rule reads_map, rule prim_reads, simp)
  show "\<exists>c'. color_read_from c = (Err (Io UnexpectedEof), c')" if "remaining c < 6" for c
  proof -
    have "consumes color_read_from (2 + (2 + (2 + 0)))"
      unfolding color_read_from_def by (intro stream)
    with that show ?thesis by (simp add: consumes_def)
  qed
  show "\<exists>v. enc_color v = bs" if l0: "length bs = 6" for bs
  proof -
    obtain r :: u16 and bs1 where 1: "bs = to_le 2 r @ bs1" and l1: "length bs1 = 4"
      using u16.split_enc [of bs] l0 by auto
    obtain g :: u16 and bs2 where 2: "bs1 = to_le 2 g @ bs2" and l2: "length bs2 = 2"
      using u16.split_enc [of bs1] l1 by auto
    obtain b :: u16 where 3: "to_le 2 b = bs2"
      using u16.enc_surj [OF l2] by blast
    have "enc_color \<lparr>red = r, green = g, blue = b\<rparr> = bs"
      by (simp add: enc_color_def 1 2 3)
    then show ?thesis ..
  qed
qed simp

interpretation waveform: codec waveform_read_from waveform_write_to enc_waveform 29
proof
  show "writes (waveform_write_to v) (enc_waveform v)" for v
    unfolding waveform_write_to_def enc_waveform_def by (intro stream)
  show "length (enc_waveform v) = 29" for v by (simp add: enc_waveform_def)
  show "reads waveform_read_from (enc_waveform v) v" for v
    unfolding waveform_read_from_def enc_waveform_def
    by (rule reads_bind, rule prim_reads)+ (rule reads_map, rule prim_reads, simp)
  show "\<exists>c'. waveform_read_from c = (Err (Io UnexpectedEof), c')" if "remaining c < 29" for c
  proof -
    have "consumes waveform_read_from (1 + (8 + (4 + (4 + (4 + (4 + (4 + 0)))))))"
      unfolding waveform_read_from_def by (intro stream)
    with that show ?thesis by (simp add: consumes_def)
  qed
  show "\<exists>v. enc_waveform v = bs" if l0: "length bs = 29" for bs
  proof -
    obtain i :: u8 and bs1 where 1: "bs = [i] @ bs1" and l1: "length bs1 = 28"
      using u8.split_enc [of bs] l0 by auto
    obtain d :: u64 and bs2 where 2: "bs1 = to_le 8 d @ bs2" and l2: "length bs2 = 20"
      using u64.split_enc [of bs1] l1 by auto
    obtain n :: u32 and bs3 where 3: "bs2 = to_le 4 n @ bs3" and l3: "length bs3 = 16"
      using u32.split_enc [of bs2] l2 by auto
    obtain l :: u32 and bs4 where 4: "bs3 = to_le 4 l @ bs4" and l4: "length bs4 = 12"
      using u32.split_enc [of bs3] l3 by auto
    obtain x :: u32 and bs5 where 5: "bs4 = to_le 4 x @ bs5" and l5: "length bs5 = 8"
      using u32.split_enc [of bs4] l4 by auto
    obtain y :: u32 and bs6 where 6: "bs5 = to_le 4 y @ bs6" and l6: "length bs6 = 4"
      using u32.split_enc [of bs5] l5 by auto
    obtain z :: u32 where 7: "to_le 4 z = bs6" using u32.enc_surj [OF l6] by blast
    have "enc_waveform \<lparr>wave_packet_descriptor_index = i, byte_offset_to_waveform_data = d,
        waveform_packet_size_in_bytes = n, return_point_waveform_location = l,
        x_t = x, y_t = y, z_t = z\<rparr> = bs"
      by (simp add: enc_waveform_def 1 2 3 4 5 6 7)
    then show ?thesis ..
  qed
qed simp


lemmas part_stream [stream] =
  color.reads_enc color.writes_enc color.consumes_rd
  waveform.reads_enc waveform.writes_enc waveform.consumes_rd

section \<open>The codec of a point\<close>

text \<open>What a format keeps of a point: the point a reader gets back from its record.\<close>

definition stored_flags :: "format \<Rightarrow> flags \<Rightarrow> flags outcome" where
  "stored_flags f fl =
     (if is_extended f then (case three_bytes fl of (a, b, c) \<Rightarrow> Ok (ThreeByte a b c))
      else and_then (to_two_bytes fl) (\<lambda>(a, b). Ok (TwoByte a b)))"

definition stored_angle :: "format \<Rightarrow> scan_angle \<Rightarrow> scan_angle" where
  "stored_angle f a =
     (if is_extended f then Scaled (i16_of_scan_angle a) else Rank (i8_of_scan_angle a))"

definition stored :: "format \<Rightarrow> raw_point \<Rightarrow> flags \<Rightarrow> raw_point" where
  "stored f p fl =
     p\<lparr>rp_flags := fl,
       rp_scan_angle := stored_angle f (rp_scan_angle p),
       rp_gps_time := keep_if (has_gps_time f) (rp_gps_time p) 0,
       rp_color := keep_if (has_color f) (rp_color p) color_default,
       rp_waveform := keep_if (has_waveform f) (rp_waveform p) waveform_default,
       rp_nir := Option.bind (keep_if (has_nir f) (rp_nir p) 0) some_or_none_if_zero\<rparr>"

fun enc_flags :: "flags \<Rightarrow> bytes" where
  "enc_flags (TwoByte a b) = [a] @ [b]"
| "enc_flags (ThreeByte a b c) = [a] @ [b] @ [c]"

fun enc_angle :: "scan_angle \<Rightarrow> u8 \<Rightarrow> bytes" where
  "enc_angle (Rank n) u = [n] @ [u]"
| "enc_angle (Scaled n) u = [u] @ to_le 2 n"

definition enc_head :: "format \<Rightarrow> raw_point \<Rightarrow> flags \<Rightarrow> bytes" where
  "enc_head f p fl =
     to_le 4 (rp_x p) @ to_le 4 (rp_y p) @ to_le 4 (rp_z p) @ to_le 2 (rp_intensity p)
     @ enc_flags fl @ enc_angle (stored_angle f (rp_scan_angle p)) (rp_user_data p)
     @ to_le 2 (rp_point_source_id p)
     @ enc_opt (to_le 8) (keep_if (has_gps_time f) (rp_gps_time p) 0)
     @ enc_opt enc_color (keep_if (has_color f) (rp_color p) color_default)"

definition enc_point :: "format \<Rightarrow> raw_point \<Rightarrow> flags \<Rightarrow> bytes" where
  "enc_point f p fl =
     enc_head f p fl
     @ enc_opt (to_le 2) (keep_if (has_nir f) (rp_nir p) 0)
     @ enc_opt enc_waveform (keep_if (has_waveform f) (rp_waveform p) waveform_default)
     @ rp_extra_bytes p"

lemma stored_flags_kind:
  "stored_flags f fl = Ok g \<Longrightarrow>
     (if is_extended f then (\<exists>a b c. g = ThreeByte a b c) else (\<exists>a b. g = TwoByte a b))"
  by (auto simp: stored_flags_def split: prod.splits if_splits)

lemma writes_flags [stream]:
  assumes "stored_flags f fl = Ok g"
  shows "writes (flags_write_to f fl) (enc_flags g)"
proof (cases "is_extended f")
  case True
  obtain a b c where abc: "three_bytes fl = (a, b, c)" by (metis prod.exhaust)
  with assms True have "g = ThreeByte a b c" by (simp add: stored_flags_def)
  have "writes (io_bind (write_u8 a) (\<lambda>_. io_bind (write_u8 b) (\<lambda>_. write_u8 c)))
      ([a] @ [b] @ [c])" by (intro stream)
  then show ?thesis using True abc \<open>g = ThreeByte a b c\<close> by (simp add: flags_write_to_def)
next
  case False
  with assms obtain a b where ab: "to_two_bytes fl = Ok (a, b)" and g: "g = TwoByte a b"
    by (auto simp: stored_flags_def split: prod.splits)
  have "writes (io_bind (write_u8 a) (\<lambda>_. write_u8 b)) ([a] @ [b])"
    by (intro stream)
  with False ab g show ?thesis
    by (simp add: flags_write_to_def writes_def io_bind_def io_lift_def)
qed

lemma reads_flags [stream]:
  assumes "stored_flags f fl = Ok g"
  shows "reads (flags_read_from f) (enc_flags g) g"
proof (cases "is_extended f")
  case True
  with stored_flags_kind [OF assms] obtain a b c where g: "g = ThreeByte a b c" by auto
  show ?thesis unfolding flags_read_from_def g enc_flags.simps if_P [OF True]
    by (rule reads_bind, rule prim_reads)+ (rule reads_map, rule prim_reads, simp)
next
  case False
  with stored_flags_kind [OF assms] obtain a b where g: "g = TwoByte a b" by auto
  show ?thesis unfolding flags_read_from_def g enc_flags.simps if_not_P [OF False]
    by (rule reads_bind, rule prim_reads)+ (rule reads_map, rule prim_reads, simp)
qed

lemma consumes_flags [stream]: "consumes (flags_read_from f) (if is_extended f then 3 else 2)"
proof -
  have "consumes (io_bind read_u8 (\<lambda>a. io_bind read_u8 (\<lambda>b. io_bind read_u8 (\<lambda>c.
      io_return (ThreeByte a b c))))) (1 + (1 + (1 + 0)))" by (intro stream)
  moreover have "consumes (io_bind read_u8 (\<lambda>a. io_bind read_u8 (\<lambda>b.
      io_return (TwoByte a b)))) (1 + (1 + 0))" by (intro stream)
  ultimately show ?thesis by (auto simp: flags_read_from_def elim!: consumes_cong)
qed

lemma writes_angle [stream]:
  "writes (angle_write_to f a u) (enc_angle (stored_angle f a) u)"
proof (cases "is_extended f")
  case True
  have "writes (io_bind (write_u8 u) (\<lambda>_. write_u16 (i16_of_scan_angle a)))
      ([u] @ to_le 2 (i16_of_scan_angle a))" by (intro stream)
  with True show ?thesis by (simp add: angle_write_to_def stored_angle_def)
next
  case False
  have "writes (io_bind (write_u8 (i8_of_scan_angle a)) (\<lambda>_. write_u8 u))
      ([i8_of_scan_angle a] @ [u])" by (intro stream)
  with False show ?thesis by (simp add: angle_write_to_def stored_angle_def)
qed

lemma reads_angle [stream]:
  "reads (angle_read_from f) (enc_angle (stored_angle f a) u) (stored_angle f a, u)"
proof (cases "is_extended f")
  case True
  show ?thesis unfolding angle_read_from_def stored_angle_def if_P [OF True] enc_angle.simps
    by (rule reads_bind, rule prim_reads)+ (rule reads_map, rule prim_reads, simp)
next
  case False
  show ?thesis unfolding angle_read_from_def stored_angle_def if_not_P [OF False] enc_angle.simps
    by (rule reads_bind, rule prim_reads)+ (rule reads_map, rule prim_reads, simp)
qed

lemma consumes_angle [stream]: "consumes (angle_read_from f) (if is_extended f then 3 else 2)"
proof -
  have "consumes (io_bind read_u8 (\<lambda>u. io_bind read_u16 (\<lambda>n. io_return (Scaled n, u))))
      (1 + (2 + 0))" by (intro stream)
  moreover have "consumes (io_bind read_u8 (\<lambda>n. io_bind read_u8 (\<lambda>u. io_return (Rank n, u))))
      (1 + (1 + 0))" by (intro stream)
  ultimately show ?thesis by (auto simp: angle_read_from_def elim!: consumes_cong)
qed

lemma writes_raw_point:
  assumes "stored_flags f (rp_flags p) = Ok g" "length (rp_extra_bytes p) = unat (extra_bytes f)"
  shows "writes (raw_point_write_to f p) (enc_point f p g)"
  unfolding raw_point_write_to_def enc_point_def enc_head_def append_assoc assms(2) simp_thms if_False
  by (intro stream assms(1))

lemma consumes_raw_point: "consumes (raw_point_read_from f) (record_len f)"
proof (rule consumes_cong)
  show "consumes (raw_point_read_from f)
    (4 + (4 + (4 + (2 + ((if is_extended f then 3 else 2) + ((if is_extended f then 3 else 2)
     + (2 + ((if has_gps_time f then 8 else 0) + ((if has_color f then 6 else 0)
     + ((if has_waveform f then 29 else 0) + ((if has_nir f then 2 else 0)
     + (unat (extra_bytes f) + 0))))))))))))"
    unfolding raw_point_read_from_def
    by (intro stream)
qed (simp add: record_len_def)

lemma length_enc_point:
  assumes "stored_flags f (rp_flags p) = Ok g" "length (rp_extra_bytes p) = unat (extra_bytes f)"
  shows "length (enc_point f p g) = record_len f"
proof -
  have "length (enc_flags g) = (if is_extended f then 3 else 2)"
    using stored_flags_kind [OF assms(1)] by (auto split: if_splits)
  moreover have "length (enc_angle (stored_angle f (rp_scan_angle p)) (rp_user_data p))
      = (if is_extended f then 3 else 2)"
    by (simp add: stored_angle_def)
  ultimately show ?thesis
    using assms(2)
    by (simp add: enc_point_def enc_head_def record_len_def length_enc_opt_keep
        color.length_enc waveform.length_enc)
qed

lemmas opt_reads =
  reads_if [OF u64.reads_enc] reads_if [OF u16.reads_enc] reads_if [OF color.reads_enc]
  reads_if [OF waveform.reads_enc]

lemma reads_raw_point_parts:
  assumes "stored_flags f (rp_flags p) = Ok g" "length (rp_extra_bytes p) = unat (extra_bytes f)"
  shows "reads (raw_point_read_from f)
     (enc_head f p g
      @ enc_opt enc_waveform (keep_if (has_waveform f) w waveform_default)
      @ enc_opt (to_le 2) (keep_if (has_nir f) n 0) @ rp_extra_bytes p)
     (stored f (p\<lparr>rp_waveform := w, rp_nir := n\<rparr>) g)"
  unfolding raw_point_read_from_def enc_head_def append_assoc
  by ((rule reads_bind, rule prim_reads reads_flags [OF assms(1)] reads_angle opt_reads
        | simp only: prod.case)+,
      rule reads_map, rule reads_exact_len [OF assms(2)], simp add: stored_def)

lemma reads_raw_point:
  assumes "stored_flags f (rp_flags p) = Ok g" "length (rp_extra_bytes p) = unat (extra_bytes f)"
    and "\<not> (has_nir f \<and> has_waveform f)"
  shows "reads (raw_point_read_from f) (enc_point f p g) (stored f p g)"
proof -
  have "enc_point f p g = enc_head f p g
     @ enc_opt enc_waveform (keep_if (has_waveform f) (rp_waveform p) waveform_default)
     @ enc_opt (to_le 2) (keep_if (has_nir f) (rp_nir p) 0) @ rp_extra_bytes p"
    using assms(3) by (cases "has_nir f") (auto simp: enc_point_def keep_if_def)
  then show ?thesis
    using reads_raw_point_parts [OF assms(1,2), of "rp_waveform p" "rp_nir p"] by simp
qed

lemma enc_point_nonempty: "enc_point f p g \<noteq> []"
proof -
  have "length (to_le 4 (rp_x p)) \<le> length (enc_point f p g)"
    by (simp only: enc_point_def enc_head_def length_append)
  then show ?thesis by (auto simp del: length_0_conv)
qed

text \<open>A point with exactly the attributes of a format, in the representation of that format.\<close>

definition conforms :: "format \<Rightarrow> raw_point \<Rightarrow> bool" where
  "conforms f p \<longleftrightarrow>
     (case rp_flags p of TwoByte _ _ \<Rightarrow> \<not> is_extended f | ThreeByte _ _ _ \<Rightarrow> is_extended f) \<and>
     (case rp_scan_angle p of Rank _ \<Rightarrow> \<not> is_extended f | Scaled _ \<Rightarrow> is_extended f) \<and>
     (rp_gps_time p \<noteq> None \<longleftrightarrow> has_gps_time f) \<and> (rp_color p \<noteq> None \<longleftrightarrow> has_color f) \<and>
     (rp_waveform p \<noteq> None \<longleftrightarrow> has_waveform f) \<and>
     (if has_nir f then rp_nir p \<noteq> Some 0 else rp_nir p = None) \<and>
     length (rp_extra_bytes p) = unat (extra_bytes f)"

lemma stored_conforms:
  assumes "conforms f p"
  shows "stored_flags f (rp_flags p) = Ok (rp_flags p)" "stored f p (rp_flags p) = p"
proof -
  show "stored_flags f (rp_flags p) = Ok (rp_flags p)"
    using assms by (auto simp: conforms_def stored_flags_def split: flags.splits)
  have "stored_angle f (rp_scan_angle p) = rp_scan_angle p"
    using assms by (auto simp: conforms_def stored_angle_def split: scan_angle.splits)
  moreover have "Option.bind (keep_if (has_nir f) (rp_nir p) 0) some_or_none_if_zero = rp_nir p"
    using assms by (cases "rp_nir p")
      (auto simp: conforms_def keep_if_def some_or_none_if_zero_def split: if_splits)
  ultimately show "stored f p (rp_flags p) = p"
    using assms by (cases p) (auto simp: stored_def keep_if_def conforms_def)
qed

text \<open>The points that conform to a format are its serializable values.\<close>

interpretation raw_point: serial "raw_point_read_from f" "raw_point_write_to f"
  "\<lambda>p. enc_point f p (rp_flags p)" "\<lambda>p. conforms f p \<and> \<not> (has_nir f \<and> has_waveform f)" for f
proof (unfold_locales, goal_cases)
  case (1 p)
  then show ?case
    using stored_conforms [of f p] by (auto simp: conforms_def intro: writes_raw_point)
next
  case (2 p)
  then show ?case
    using stored_conforms [of f p] reads_raw_point [of f p "rp_flags p"] by (auto simp: conforms_def)
next
  case (3 p)
  show ?case by (rule enc_point_nonempty)
qed

section \<open>Properties\<close>

lemma raw_point_stored:
  assumes "stored_flags f (rp_flags p) = Ok g" "length (rp_extra_bytes p) = unat (extra_bytes f)"
    and "\<not> (has_nir f \<and> has_waveform f)"
  shows "\<exists>c1. raw_point_write_to f p c = (Ok (), c1) \<and> c_pos c1 = c_pos c + record_len f \<and>
     raw_point_read_from f (c1\<lparr>c_pos := c_pos c\<rparr>) = (Ok (stored f p g), c1)"
  using write_then_read [OF writes_raw_point [OF assms(1,2)] reads_raw_point [OF assms] enc_point_nonempty]
  by (auto simp: c_pos_put length_enc_point [OF assms(1,2)])

text \<open>
  C5. Writing a raw point succeeds whenever its flags can be represented in the format and
  its extra bytes have the declared number; it advances the stream by exactly the record
  length of the format, and reading back from where it was written returns the point with
  what the format keeps of it (two- or three-byte flags, rank or scaled angle, the optional
  attributes the format has) and leaves the stream where the write left it.  The one
  exception is a format with both near infrared and waveform data.
\<close>

theorem raw_point_write_read:
  assumes "stored_flags f (rp_flags p) = Ok g" "length (rp_extra_bytes p) = unat (extra_bytes f)"
    and "\<not> (has_nir f \<and> has_waveform f)"
  shows "\<exists>c1. raw_point_write_to f p c = (Ok (), c1) \<and> c_pos c1 = c_pos c + record_len f \<and>
     raw_point_read_from f (c1\<lparr>c_pos := c_pos c\<rparr>) = (Ok (stored f p g), c1)"
  by (rule raw_point_stored [OF assms])

definition sample_point :: raw_point where
  "sample_point =
     \<lparr>rp_x = 1, rp_y = 2, rp_z = 3, rp_intensity = 4, rp_flags = ThreeByte 0x11 0x40 2,
      rp_scan_angle = Scaled 5, rp_user_data = 6, rp_point_source_id = 7, rp_gps_time = None,
      rp_color = Some \<lparr>red = 1, green = 2, blue = 3\<rparr>, rp_waveform = None, rp_nir = None,
      rp_extra_bytes = [9]\<rparr>"

lemma sample_point_flags:
  "stored_flags (format_of_id False 2) (rp_flags sample_point) = Ok (TwoByte 0x49 2)"
  by (simp add: stored_flags_def sample_point_def format_of_id_def three_to_two_bytes_def
      flags_scan_direction_def is_edge_of_flight_line_def)

theorem raw_point_write_read_witness:
  "\<exists>c1. raw_point_write_to ((format_of_id False 2)\<lparr>extra_bytes := 1\<rparr>) sample_point
          \<lparr>c_data = [], c_pos = 0\<rparr> = (Ok (), c1) \<and> c_pos c1 = 27 \<and>
     raw_point_read_from ((format_of_id False 2)\<lparr>extra_bytes := 1\<rparr>) (c1\<lparr>c_pos := 0\<rparr>)
       = (Ok (stored ((format_of_id False 2)\<lparr>extra_bytes := 1\<rparr>) sample_point (TwoByte 0x49 2)), c1)"
proof -
  have "stored_flags ((format_of_id False 2)\<lparr>extra_bytes := 1\<rparr>) (rp_flags sample_point)
      = Ok (TwoByte 0x49 2)"
    using sample_point_flags by (simp add: stored_flags_def)
  from raw_point_write_read [OF this, of "\<lparr>c_data = [], c_pos = 0\<rparr>"] show ?thesis
    by (simp add: sample_point_def record_len_def format_of_id_def NIR_FORMATS_def
        WAVEFORM_FORMATS_def COLOR_FORMATS_def TIME_FORMATS_def)
qed

lemma to_le_2_1: "to_le 2 (1 :: u16) = [1, 0]"
  by (simp add: to_le_def numeral_2_eq_2)

lemma commuting_bytes:
  assumes "xs @ ys = ys @ xs" "length xs = 2" "length ys = 29"
  shows "\<exists>b. xs @ ys = replicate 31 b"
proof -
  obtain m n zs where z: "concat (replicate m zs) = xs" "concat (replicate n zs) = ys"
    using comm_append_are_replicate [OF assms(1)] by blast
  then have l: "m * length zs = 2" "n * length zs = 29"
    using assms(2,3) by (auto simp: length_concat sum_list_replicate simp flip: z)
  have "length zs dvd 29 - 14 * 2" using l by (metis dvd_diff_nat dvd_mult dvd_triv_right)
  then obtain b where b: "zs = [b]" by (auto simp: length_Suc_conv)
  have "concat (replicate k [b]) = replicate k b" for k by (induction k) simp_all
  then have "xs = replicate m b" "ys = replicate n b" using z b by simp_all
  with l b show ?thesis by (auto simp flip: replicate_add)
qed

lemma append_eq_replicate:
  assumes "xs @ ys = replicate n b"
  shows "xs = replicate (length xs) b \<and> ys = replicate (length ys) b"
proof -
  have "set (xs @ ys) \<subseteq> {b}" unfolding assms by auto
  then show ?thesis by (auto intro!: replicate_eqI)
qed

text \<open>The bytes of the near infrared value and the waveform, in the order in which they are written.\<close>

definition nir_and_waveform :: "raw_point \<Rightarrow> bytes" where
  "nir_and_waveform p =
     to_le 2 (unwrap_or (rp_nir p) 0) @ enc_waveform (unwrap_or (rp_waveform p) waveform_default)"

lemma waveform_first:
  assumes "has_nir f" "has_waveform f"
  shows "stored f (p\<lparr>rp_waveform := Some w, rp_nir := Some n\<rparr>) g = stored f p g \<longleftrightarrow>
     w = unwrap_or (rp_waveform p) waveform_default \<and> n = unwrap_or (rp_nir p) 0"
  using assms by (cases p) (auto simp: stored_def keep_if_def some_or_none_if_zero_def)

lemma rotated_waveform:
  assumes "enc_waveform w @ to_le 2 n = nir_and_waveform p"
  shows "w = unwrap_or (rp_waveform p) waveform_default \<and> n = unwrap_or (rp_nir p) 0 \<longleftrightarrow>
     (\<exists>b. nir_and_waveform p = replicate 31 b)"
proof
  assume "w = unwrap_or (rp_waveform p) waveform_default \<and> n = unwrap_or (rp_nir p) 0"
  with assms commuting_bytes [of "to_le 2 n" "enc_waveform w"]
  show "\<exists>b. nir_and_waveform p = replicate 31 b"
    by (simp add: nir_and_waveform_def waveform.length_enc)
next
  let ?w = "unwrap_or (rp_waveform p) waveform_default" and ?n = "unwrap_or (rp_nir p) 0"
  assume "\<exists>b. nir_and_waveform p = replicate 31 b"
  then obtain b where b: "nir_and_waveform p = replicate 31 b" by blast
  then have "enc_waveform w = replicate 29 b" "to_le 2 n = replicate 2 b"
    "to_le 2 ?n = replicate 2 b" "enc_waveform ?w = replicate 29 b"
    using append_eq_replicate [OF trans [OF assms b]]
      append_eq_replicate [OF b [unfolded nir_and_waveform_def]] by (simp_all add: waveform.length_enc)
  then show "w = ?w \<and> n = ?n" by (metis waveform.enc_inj u16.enc_inj)
qed

text \<open>
  C35. Points of a format with near infrared and waveform data, which is point format 10.  The
  writer puts the near infrared value before the waveform and the reader takes the waveform
  first: both calls succeed, the other fields are read back, but the 31 bytes of the two
  fields are cut in different places.  The point is read back as it was written exactly when
  all of these bytes are the same, as in a point where both fields are zero.
\<close>

theorem format_10_cut_differently:
  assumes "has_nir f" "has_waveform f" "stored_flags f (rp_flags p) = Ok g"
    and "length (rp_extra_bytes p) = unat (extra_bytes f)"
  shows "\<exists>c1 w n. raw_point_write_to f p c = (Ok (), c1) \<and> c_pos c1 = c_pos c + record_len f \<and>
     raw_point_read_from f (c1\<lparr>c_pos := c_pos c\<rparr>)
       = (Ok (stored f (p\<lparr>rp_waveform := Some w, rp_nir := Some n\<rparr>) g), c1) \<and>
     enc_waveform w @ to_le 2 n = nir_and_waveform p \<and>
     (stored f (p\<lparr>rp_waveform := Some w, rp_nir := Some n\<rparr>) g = stored f p g \<longleftrightarrow>
        (\<exists>b. nir_and_waveform p = replicate 31 b))"
proof -
  have len: "length (nir_and_waveform p) = 31" by (simp add: nir_and_waveform_def waveform.length_enc)
  then obtain w r where w: "nir_and_waveform p = enc_waveform w @ r" "length r = 2"
    using waveform.split_enc [of "nir_and_waveform p"] by auto
  obtain n :: u16 where n: "to_le 2 n = r" using u16.enc_surj w(2) by blast
  have cut: "enc_waveform w @ to_le 2 n = nir_and_waveform p" using w n by simp
  have "enc_point f p g = enc_head f p g
      @ enc_opt enc_waveform (keep_if (has_waveform f) (Some w) waveform_default)
      @ enc_opt (to_le 2) (keep_if (has_nir f) (Some n) 0) @ rp_extra_bytes p"
    using assms(1,2) cut by (simp add: enc_point_def keep_if_def nir_and_waveform_def)
  then have "reads (raw_point_read_from f) (enc_point f p g)
      (stored f (p\<lparr>rp_waveform := Some w, rp_nir := Some n\<rparr>) g)"
    using reads_raw_point_parts [OF assms(3,4), of "Some w" "Some n"] by simp
  from write_then_read [OF writes_raw_point [OF assms(3,4)] this enc_point_nonempty, of c]
  have "raw_point_write_to f p c = (Ok (), put (enc_point f p g) c)"
    "raw_point_read_from f ((put (enc_point f p g) c)\<lparr>c_pos := c_pos c\<rparr>)
       = (Ok (stored f (p\<lparr>rp_waveform := Some w, rp_nir := Some n\<rparr>) g), put (enc_point f p g) c)"
    by simp_all
  moreover have "c_pos (put (enc_point f p g) c) = c_pos c + record_len f"
    by (simp add: c_pos_put length_enc_point [OF assms(3,4)])
  moreover note waveform_first [OF assms(1,2), where p = p and w = w and n = n and g = g] rotated_waveform [OF cut] cut
  ultimately show ?thesis by blast
qed

text \<open>A near infrared value of 1 with a waveform of zeros, and a point of the repository's test with both zero.\<close>

definition nir_point :: "u16 \<Rightarrow> raw_point" where
  "nir_point n = sample_point\<lparr>rp_nir := Some n, rp_waveform := Some waveform_default, rp_extra_bytes := []\<rparr>"

lemma nir_point_bytes: "nir_and_waveform (nir_point n) = to_le 2 n @ replicate 29 0"
  by (simp add: nir_and_waveform_def nir_point_def enc_waveform_def waveform_default_def eval_nat_numeral)

theorem format_10_cut_differently_witness:
  "(\<exists>c1 q. raw_point_write_to (format_of_id False 10) (nir_point 1) \<lparr>c_data = [], c_pos = 0\<rparr> = (Ok (), c1) \<and>
      raw_point_read_from (format_of_id False 10) (c1\<lparr>c_pos := 0\<rparr>) = (Ok q, c1) \<and>
      q \<noteq> stored (format_of_id False 10) (nir_point 1) (rp_flags sample_point)) \<and>
   (\<exists>c1. raw_point_write_to (format_of_id False 10) (nir_point 0) \<lparr>c_data = [], c_pos = 0\<rparr> = (Ok (), c1) \<and>
      raw_point_read_from (format_of_id False 10) (c1\<lparr>c_pos := 0\<rparr>)
        = (Ok (stored (format_of_id False 10) (nir_point 0) (rp_flags sample_point)), c1))"
proof -
  let ?f = "format_of_id False 10" and ?c = "\<lparr>c_data = [], c_pos = 0\<rparr>"
  have f: "has_nir ?f" "has_waveform ?f" "is_extended ?f" "extra_bytes ?f = 0"
    by (simp_all add: format_of_id_def NIR_FORMATS_def WAVEFORM_FORMATS_def)
  have "stored_flags ?f (rp_flags (nir_point n)) = Ok (rp_flags sample_point)"
    "length (rp_extra_bytes (nir_point n)) = unat (extra_bytes ?f)" for n
    using f by (simp_all add: stored_flags_def nir_point_def sample_point_def)
  note at = format_10_cut_differently [OF f(1,2) this, where c = ?c]
  have "replicate 31 b ! 0 = replicate 31 b ! 1" for b :: u8 by simp
  moreover have "nir_and_waveform (nir_point 1) ! 0 = 1" "nir_and_waveform (nir_point 1) ! 1 = 0"
    by (simp_all add: nir_point_bytes to_le_2_1)
  ultimately have "\<nexists>b. nir_and_waveform (nir_point 1) = replicate 31 b" by (metis zero_neq_one)
  moreover have "nir_and_waveform (nir_point 0) = replicate 31 0"
    by (simp add: nir_point_bytes eval_nat_numeral)
  ultimately show ?thesis using at [of 1] at [of 0] by auto
qed

text \<open>
  Two flag bytes that are turned into three lose what the second byte would hold: here the scan
  direction and the edge of flight line, and the synthetic flag becomes a part of the class.
\<close>

lemma two_bytes_extended:
  "return_number (TwoByte 0xC0 0x22) = 0" "flags_scan_direction (TwoByte 0xC0 0x22) = LeftToRight"
  "is_edge_of_flight_line (TwoByte 0xC0 0x22)" "is_synthetic (TwoByte 0xC0 0x22)"
  "three_bytes (TwoByte 0xC0 0x22) = (0, 0, 0x22)"
  by (simp_all add: flags_scan_direction_def is_edge_of_flight_line_def Let_def)

end
