(* ===== verification/Transforms.thy ===== *)
theory Transforms
  imports Las_Types
begin

text \<open>
  Coordinate transforms (\<^verbatim>\<open>src/transform.rs\<close>): the scale and offset between the integer
  coordinates of a file and the floating-point coordinates of a point.
\<close>

section \<open>Operations\<close>

definition direct :: "transform \<Rightarrow> i32 \<Rightarrow> f64" where
  "direct t n = f64_add (f64_mul (scale t) (f64_of_int (sint n))) (offset t)"

definition i32_MAX :: int where "i32_MAX = 2147483647"
definition i32_MIN :: int where "i32_MIN = - 2147483648"

definition check_i32_range :: "transform \<Rightarrow> f64 \<Rightarrow> i32 outcome" where
  "check_i32_range t n =
     (if f64_lt (f64_of_int i32_MAX) n \<or> f64_lt n (f64_of_int i32_MIN)
      then Err (InvalidInverseTransform n t)
      else Ok (f64_to_i32 n))"

definition inverse_with_rounding_mode :: "transform \<Rightarrow> f64 \<Rightarrow> rounding_mode \<Rightarrow> i32 outcome" where
  "inverse_with_rounding_mode t n r =
     check_i32_range t (f64_round_int r (f64_div (f64_sub n (offset t)) (scale t)))"

definition inverse :: "transform \<Rightarrow> f64 \<Rightarrow> i32 outcome" where
  "inverse t n = inverse_with_rounding_mode t n Round"

definition transform_default :: transform where
  "transform_default = \<lparr>scale = word_of_nat (fp_round 52 11 False 1 1000), offset = 0\<rparr>"

definition vector_transform_default :: "transform vector" where
  "vector_transform_default =
     \<lparr>vx = transform_default, vy = transform_default, vz = transform_default\<rparr>"

lemma inverse_not_Panic: "inverse t n \<noteq> Panic"
  by (simp add: inverse_def inverse_with_rounding_mode_def check_i32_range_def)

end
