(* ===== verification/Las_Point.thy ===== *)
theory Las_Point
  imports Raw_Point Transforms
begin

text \<open>
  Points with named attributes (\<^verbatim>\<open>src/point/mod.rs\<close>), their conversions from and to raw
  points, and the bounding box that points grow (\<^verbatim>\<open>src/bounds.rs\<close>).
\<close>

section \<open>Points\<close>

record point =
  pt_x :: f64
  pt_y :: f64
  pt_z :: f64
  pt_intensity :: u16
  pt_return_number :: u8
  pt_number_of_returns :: u8
  pt_scan_direction :: scan_direction
  pt_is_edge_of_flight_line :: bool
  pt_classification :: classification
  pt_is_synthetic :: bool
  pt_is_key_point :: bool
  pt_is_withheld :: bool
  pt_is_overlap :: bool
  pt_scanner_channel :: u8
  pt_scan_angle :: f32
  pt_user_data :: u8
  pt_point_source_id :: u16
  pt_gps_time :: "f64 option"
  pt_color :: "color option"
  pt_waveform :: "waveform option"
  pt_nir :: "u16 option"
  pt_extra_bytes :: bytes

definition point_new :: "raw_point \<Rightarrow> transform vector \<Rightarrow> point outcome" where
  "point_new raw ts =
     (let cleared = clear_overlap_class (rp_flags raw) in
      and_then (expect (to_classification cleared)) (\<lambda>class.
      Ok \<lparr>pt_x = direct (vx ts) (rp_x raw),
          pt_y = direct (vy ts) (rp_y raw),
          pt_z = direct (vz ts) (rp_z raw),
          pt_intensity = rp_intensity raw,
          pt_return_number = return_number cleared,
          pt_number_of_returns = number_of_returns cleared,
          pt_scan_direction = flags_scan_direction cleared,
          pt_is_edge_of_flight_line = is_edge_of_flight_line cleared,
          pt_classification = class,
          pt_is_synthetic = is_synthetic cleared,
          pt_is_key_point = is_key_point cleared,
          pt_is_withheld = is_withheld cleared,
          pt_is_overlap = is_overlap (rp_flags raw),
          pt_scanner_channel = scanner_channel cleared,
          pt_scan_angle = f32_of_scan_angle (rp_scan_angle raw),
          pt_user_data = rp_user_data raw,
          pt_point_source_id = rp_point_source_id raw,
          pt_gps_time = rp_gps_time raw,
          pt_color = rp_color raw,
          pt_waveform = rp_waveform raw,
          pt_nir = rp_nir raw,
          pt_extra_bytes = rp_extra_bytes raw\<rparr>))"

definition flag_bits :: "point \<Rightarrow> u8" where
  "flag_bits p =
     push_bit 4 (pt_scanner_channel p)
     + (if pt_is_synthetic p then 1 else 0)
     + (if pt_is_key_point p then 2 else 0)
     + (if pt_is_withheld p then 4 else 0)
     + (if pt_is_overlap p then 8 else 0)
     + (if pt_scan_direction p = LeftToRight then 64 else 0)
     + (if pt_is_edge_of_flight_line p then 128 else 0)"

definition point_flags :: "point \<Rightarrow> flags outcome" where
  "point_flags p =
     (if 15 < pt_return_number p then Err (ReturnNumber (pt_return_number p) None)
      else if 15 < pt_number_of_returns p then Err (ReturnNumber (pt_number_of_returns p) None)
      else if 3 < pt_scanner_channel p then Err (InvalidScannerChannel (pt_scanner_channel p))
      else Ok (ThreeByte (push_bit 4 (pt_number_of_returns p) + pt_return_number p)
                 (flag_bits p) (u8_of_classification (pt_classification p))))"

definition into_raw :: "point \<Rightarrow> transform vector \<Rightarrow> raw_point outcome" where
  "into_raw p ts =
     and_then (inverse (vx ts) (pt_x p)) (\<lambda>x.
     and_then (inverse (vy ts) (pt_y p)) (\<lambda>y.
     and_then (inverse (vz ts) (pt_z p)) (\<lambda>z.
     and_then (point_flags p) (\<lambda>flags.
     Ok \<lparr>rp_x = x, rp_y = y, rp_z = z, rp_intensity = pt_intensity p, rp_flags = flags,
         rp_scan_angle = scan_angle_of_f32 (pt_scan_angle p), rp_user_data = pt_user_data p,
         rp_point_source_id = pt_point_source_id p, rp_gps_time = pt_gps_time p,
         rp_color = pt_color p, rp_waveform = pt_waveform p, rp_nir = pt_nir p,
         rp_extra_bytes = pt_extra_bytes p\<rparr>))))"

definition point_matches :: "point \<Rightarrow> format \<Rightarrow> bool" where
  "point_matches p f \<longleftrightarrow>
     (pt_gps_time p \<noteq> None) = has_gps_time f \<and>
     (pt_color p \<noteq> None) = has_color f \<and>
     (pt_waveform p \<noteq> None) = has_waveform f \<and>
     (pt_nir p \<noteq> None) = has_nir f \<and>
     length (pt_extra_bytes p) = unat (extra_bytes f)"

section \<open>Bounds\<close>

record bounds =
  b_min :: "f64 vector"
  b_max :: "f64 vector"

definition bounds_default :: bounds where
  "bounds_default =
     \<lparr>b_min = \<lparr>vx = f64_infinity, vy = f64_infinity, vz = f64_infinity\<rparr>,
      b_max = \<lparr>vx = f64_neg_infinity, vy = f64_neg_infinity, vz = f64_neg_infinity\<rparr>\<rparr>"

definition grow :: "bounds \<Rightarrow> point \<Rightarrow> bounds" where
  "grow b p =
     \<lparr>b_min =
        \<lparr>vx = (if f64_lt (pt_x p) (vx (b_min b)) then pt_x p else vx (b_min b)),
         vy = (if f64_lt (pt_y p) (vy (b_min b)) then pt_y p else vy (b_min b)),
         vz = (if f64_lt (pt_z p) (vz (b_min b)) then pt_z p else vz (b_min b))\<rparr>,
      b_max =
        \<lparr>vx = (if f64_lt (vx (b_max b)) (pt_x p) then pt_x p else vx (b_max b)),
         vy = (if f64_lt (vy (b_max b)) (pt_y p) then pt_y p else vy (b_max b)),
         vz = (if f64_lt (vz (b_max b)) (pt_z p) then pt_z p else vz (b_max b))\<rparr>\<rparr>"

definition inner_convert :: "f64 \<Rightarrow> transform \<Rightarrow> rounding_mode \<Rightarrow> f64 outcome" where
  "inner_convert v t r =
     (if f64_is_infinite v then Ok v
      else and_then (inverse_with_rounding_mode t v r) (\<lambda>n. Ok (direct t n)))"

definition adapt :: "bounds \<Rightarrow> transform vector \<Rightarrow> bounds outcome" where
  "adapt b ts =
     and_then (inner_convert (vx (b_min b)) (vx ts) Floor) (\<lambda>x0.
     and_then (inner_convert (vy (b_min b)) (vy ts) Floor) (\<lambda>y0.
     and_then (inner_convert (vz (b_min b)) (vz ts) Floor) (\<lambda>z0.
     and_then (inner_convert (vx (b_max b)) (vx ts) Ceil) (\<lambda>x1.
     and_then (inner_convert (vy (b_max b)) (vy ts) Ceil) (\<lambda>y1.
     and_then (inner_convert (vz (b_max b)) (vz ts) Ceil) (\<lambda>z1.
     Ok \<lparr>b_min = \<lparr>vx = x0, vy = y0, vz = z0\<rparr>, b_max = \<lparr>vx = x1, vy = y1, vz = z1\<rparr>\<rparr>))))))"

section \<open>Facts about the flag bytes of a point\<close>

lemma point_flags_bounds:
  assumes "point_flags p = Ok f"
  shows "unat (pt_return_number p) \<le> 15" "unat (pt_number_of_returns p) \<le> 15"
    "unat (pt_scanner_channel p) \<le> 3"
  using assms by (auto simp: point_flags_def word_less_nat_alt split: if_splits)

lemma unat_flag_bits:
  assumes "unat (pt_scanner_channel p) \<le> 3"
  shows "unat (flag_bits p) =
     of_bool (pt_is_synthetic p) + 2 * (of_bool (pt_is_key_point p) + 2 * (of_bool (pt_is_withheld p)
     + 2 * (of_bool (pt_is_overlap p) + 2 * (unat (pt_scanner_channel p)
     + 4 * (of_bool (pt_scan_direction p = LeftToRight)
     + 2 * of_bool (pt_is_edge_of_flight_line p))))))"
proof -
  have "unat (push_bit 4 (pt_scanner_channel p)) = 16 * unat (pt_scanner_channel p)"
    using assms by (simp add: push_bit_eq_mult unat_word_ariths)
  then show ?thesis
    using assms by (auto simp: flag_bits_def unat_word_ariths)
qed

lemma flag_digits:
  fixes v ch :: nat
  assumes "ch \<le> 3"
    and "v = of_bool s + 2 * (of_bool k + 2 * (of_bool w + 2 * (of_bool l + 2 * (ch
           + 4 * (of_bool d + 2 * of_bool e)))))"
  shows "odd v = s" "odd (v div 2) = k" "odd (v div 4) = w" "odd (v div 8) = l"
    "v div 16 mod 4 = ch" "v div 64 mod 2 = of_bool d" "v div 128 = of_bool e"
proof -
  have 2: "v div 2 = of_bool k + 2 * (of_bool w + 2 * (of_bool l + 2 * (ch
           + 4 * (of_bool d + 2 * of_bool e))))" using assms(2) by simp
  then have 4: "v div 4 = of_bool w + 2 * (of_bool l + 2 * (ch + 4 * (of_bool d + 2 * of_bool e)))"
    using div_mult2_eq [of v 2 2] by simp
  then have 8: "v div 8 = of_bool l + 2 * (ch + 4 * (of_bool d + 2 * of_bool e))"
    using div_mult2_eq [of v 4 2] by simp
  then have 16: "v div 16 = ch + 4 * (of_bool d + 2 * of_bool e)"
    using div_mult2_eq [of v 8 2] by simp
  then have 64: "v div 64 = of_bool d + 2 * of_bool e"
    using div_mult2_eq [of v 16 4] assms(1) by simp
  then have 128: "v div 128 = of_bool e" using div_mult2_eq [of v 64 2] by simp
  show "odd v = s" using assms(2) by simp
  show "odd (v div 2) = k" "odd (v div 4) = w" "odd (v div 8) = l"
    by (simp_all add: 2 4 8)
  show "v div 16 mod 4 = ch" unfolding 16 using assms(1) by (subst mod_mult_self2) simp
  show "v div 64 mod 2 = of_bool d" "v div 128 = of_bool e" by (simp_all add: 64 128)
qed

lemma return_digits:
  assumes "unat r \<le> 15" "unat n \<le> 15"
  shows "(push_bit 4 n + r :: u8) AND 15 = r" "drop_bit 4 (push_bit 4 n + r) AND 15 = n"
proof -
  have "unat (push_bit 4 n + r) = unat r + 16 * unat n"
    using assms by (simp add: push_bit_eq_mult unat_word_ariths)
  then show "(push_bit 4 n + r) AND 15 = r" "drop_bit 4 (push_bit 4 n + r) AND 15 = n"
    using assms by (simp_all add: word_unat_eq_iff bitfield)
qed

lemma point_flags_attributes:
  assumes "point_flags p = Ok f"
  shows "return_number f = pt_return_number p" "number_of_returns f = pt_number_of_returns p"
    "flags_scan_direction f = pt_scan_direction p"
    "is_edge_of_flight_line f = pt_is_edge_of_flight_line p"
    "is_synthetic f = pt_is_synthetic p" "is_key_point f = pt_is_key_point p"
    "is_withheld f = pt_is_withheld p" "is_overlap f = pt_is_overlap p"
    "scanner_channel f = pt_scanner_channel p"
proof -
  note bounds = point_flags_bounds [OF assms]
  have f: "f = ThreeByte (push_bit 4 (pt_number_of_returns p) + pt_return_number p)
                 (flag_bits p) (u8_of_classification (pt_classification p))"
    using assms by (simp add: point_flags_def split: if_splits)
  note d = flag_digits [OF bounds(3) unat_flag_bits [OF bounds(3)]]
  show "return_number f = pt_return_number p" "number_of_returns f = pt_number_of_returns p"
    using return_digits [OF bounds(1,2)] by (simp_all add: f)
  show "flags_scan_direction f = pt_scan_direction p"
    using d(6) by (cases "pt_scan_direction p")
      (simp_all add: f flags_scan_direction_def bitfield word_unat_eq_iff)
  show "is_edge_of_flight_line f = pt_is_edge_of_flight_line p"
    using d(7) by (simp add: f is_edge_of_flight_line_def bitfield word_unat_eq_iff)
  have "(flag_bits p AND 1 = 1) \<longleftrightarrow> odd (unat (flag_bits p))"
    by (simp add: word_unat_eq_iff unat_and_1 mod_2_eq_odd)
  then show "is_synthetic f = pt_is_synthetic p" by (simp only: f is_synthetic.simps d)
  show "is_key_point f = pt_is_key_point p" "is_withheld f = pt_is_withheld p"
    "is_overlap f = pt_is_overlap p"
    by (simp_all only: f is_key_point.simps is_withheld.simps is_overlap.simps and_flag_iff d)
  show "scanner_channel f = pt_scanner_channel p"
    using d(5) by (simp add: f bitfield word_unat_eq_iff)
qed

lemma point_flags_class:
  assumes "point_flags p = Ok f" "valid_classification (pt_classification p)"
  shows "to_classification f = Ok (pt_classification p)" "clear_overlap_class f = f"
proof -
  obtain a b where f: "f = ThreeByte a b (u8_of_classification (pt_classification p))"
    using assms(1) by (auto simp: point_flags_def split: if_splits)
  then show c: "to_classification f = Ok (pt_classification p)"
    using classification_of_u8 [OF assms(2)] by simp
  then have "u8_of_classification (pt_classification p) \<noteq> 12"
    using classification_new_error [of 12 OverlapClassification] classification_of_u8 [OF assms(2)]
    by (metis outcome.distinct(1))
  then show "clear_overlap_class f = f" by (simp add: f OVERLAP_CLASSIFICATION_CODE_def)
qed

lemma class_bits_cleared:
  "(b AND 224) + 1 = ((b AND 224) OR 1 :: u8)"
  by (rule disjunctive_add_eq_or) (simp add: and.assoc)

lemma clear_overlap_class_attributes [simp]:
  "return_number (clear_overlap_class f) = return_number f"
  "number_of_returns (clear_overlap_class f) = number_of_returns f"
  "flags_scan_direction (clear_overlap_class f) = flags_scan_direction f"
  "is_edge_of_flight_line (clear_overlap_class f) = is_edge_of_flight_line f"
  "is_synthetic (clear_overlap_class f) = is_synthetic f"
  "is_key_point (clear_overlap_class f) = is_key_point f"
  "is_withheld (clear_overlap_class f) = is_withheld f"
  "scanner_channel (clear_overlap_class f) = scanner_channel f"
  by (cases f; simp add: class_bits_cleared flags_scan_direction_def is_edge_of_flight_line_def
      bit.conj_disj_distrib2 and.assoc)+

lemma expect_Ok [simp]: "expect r = Ok a \<longleftrightarrow> r = Ok a"
  by (cases r) simp_all

lemma point_new_Ok:
  "\<exists>p. point_new raw ts = Ok p \<and> valid_classification (pt_classification p)"
  using to_classification_cleared [of "rp_flags raw"] by (auto simp: point_new_def Let_def)

lemma into_raw_fields:
  assumes "into_raw p ts = Ok raw"
  shows "inverse (vx ts) (pt_x p) = Ok (rp_x raw)" "inverse (vy ts) (pt_y p) = Ok (rp_y raw)"
    "inverse (vz ts) (pt_z p) = Ok (rp_z raw)" "point_flags p = Ok (rp_flags raw)"
    "rp_scan_angle raw = scan_angle_of_f32 (pt_scan_angle p)"
    "rp_intensity raw = pt_intensity p" "rp_user_data raw = pt_user_data p"
    "rp_point_source_id raw = pt_point_source_id p" "rp_gps_time raw = pt_gps_time p"
    "rp_color raw = pt_color p" "rp_waveform raw = pt_waveform p" "rp_nir raw = pt_nir p"
    "rp_extra_bytes raw = pt_extra_bytes p"
  using assms by (auto simp: into_raw_def)

lemma two_byte_overlap:
  assumes "to_two_bytes (ThreeByte a b c) = Ok (x, y)" "c \<noteq> 12"
  shows "is_overlap (TwoByte x y) \<longleftrightarrow> is_overlap (ThreeByte a b c) \<or> c AND 15 = 12"
    "to_classification (clear_overlap_class (TwoByte x y)) =
       (if is_overlap (ThreeByte a b c) then Ok Unclassified else classification_new c)"
proof -
  note y = to_two_bytes_class [OF assms(1)]
  have "y AND 15 = (y AND 31) AND 15" by (simp add: and.assoc)
  then show "is_overlap (TwoByte x y) \<longleftrightarrow> is_overlap (ThreeByte a b c) \<or> c AND 15 = 12"
    by (simp add: y OVERLAP_CLASSIFICATION_CODE_def)
  show "to_classification (clear_overlap_class (TwoByte x y)) =
       (if is_overlap (ThreeByte a b c) then Ok Unclassified else classification_new c)"
    using y assms(2) clear_two_byte_class [of y]
    by (auto simp: OVERLAP_CLASSIFICATION_CODE_def classification_new_def [of 1])
qed

text \<open>What the two flag bytes of the legacy formats keep of a point.\<close>

definition legacy_flags :: "point \<Rightarrow> point" where
  "legacy_flags p =
     p\<lparr>pt_is_overlap := pt_is_overlap p \<or> u8_of_classification (pt_classification p) AND 15 = 12,
       pt_classification := (if pt_is_overlap p then Unclassified else pt_classification p)\<rparr>"

text \<open>The coordinates and the angle of a raw point, through its transform and format.\<close>

definition quantised :: "format \<Rightarrow> transform vector \<Rightarrow> raw_point \<Rightarrow> point \<Rightarrow> point" where
  "quantised f ts raw p =
     p\<lparr>pt_x := direct (vx ts) (rp_x raw), pt_y := direct (vy ts) (rp_y raw),
       pt_z := direct (vz ts) (rp_z raw),
       pt_scan_angle := f32_of_scan_angle (stored_angle f (rp_scan_angle raw)),
       pt_nir := Option.bind (pt_nir p) some_or_none_if_zero\<rparr>"

lemma point_new_stored:
  assumes "return_number g = pt_return_number p" "number_of_returns g = pt_number_of_returns p"
    "flags_scan_direction g = pt_scan_direction p"
    "is_edge_of_flight_line g = pt_is_edge_of_flight_line p"
    "is_synthetic g = pt_is_synthetic p" "is_key_point g = pt_is_key_point p"
    "is_withheld g = pt_is_withheld p" "scanner_channel g = pt_scanner_channel p"
    and cls: "to_classification (clear_overlap_class g) = Ok cl"
    and raw: "into_raw p ts = Ok raw" and "point_matches p f"
  shows "point_new (stored f raw g) ts =
     Ok (quantised f ts raw (p\<lparr>pt_is_overlap := is_overlap g, pt_classification := cl\<rparr>))"
proof -
  note r = into_raw_fields [OF raw]
  have "keep_if (has_gps_time f) (rp_gps_time raw) 0 = pt_gps_time p"
    "keep_if (has_color f) (rp_color raw) color_default = pt_color p"
    "keep_if (has_waveform f) (rp_waveform raw) waveform_default = pt_waveform p"
    "Option.bind (keep_if (has_nir f) (rp_nir raw) 0) some_or_none_if_zero
       = Option.bind (pt_nir p) some_or_none_if_zero"
    using assms(11) by (auto simp: r keep_if_def point_matches_def)
  then show ?thesis
    by (simp add: point_new_def Let_def stored_def assms(1-8) cls quantised_def r)
qed

lemma point_through_extended:
  assumes raw: "into_raw p ts = Ok raw" and "point_matches p f"
    and valid: "valid_classification (pt_classification p)"
  shows "point_new (stored f raw (rp_flags raw)) ts = Ok (quantised f ts raw p)"
proof -
  note fl = into_raw_fields(4) [OF raw]
  note a = point_flags_attributes [OF fl]
  note c = point_flags_class [OF fl valid]
  have "to_classification (clear_overlap_class (rp_flags raw)) = Ok (pt_classification p)"
    by (simp add: c)
  from point_new_stored [OF a(1-7) a(9) this assms(1,2)] show ?thesis by (simp add: a(8))
qed

lemma point_through_legacy:
  assumes raw: "into_raw p ts = Ok raw" and "point_matches p f"
    and valid: "valid_classification (pt_classification p)"
    and two: "to_two_bytes (rp_flags raw) = Ok (x, y)"
  shows "point_new (stored f raw (TwoByte x y)) ts = Ok (quantised f ts raw (legacy_flags p))"
proof -
  note fl = into_raw_fields(4) [OF raw]
  note a = point_flags_attributes [OF fl]
  note t = to_two_bytes_preserves [OF two]
  let ?c = "u8_of_classification (pt_classification p)"
  obtain u v where uv: "rp_flags raw = ThreeByte u v ?c"
    using fl [symmetric] by (auto simp: point_flags_def split: if_splits)
  have c: "classification_new ?c = Ok (pt_classification p)" by (rule classification_of_u8 [OF valid])
  then have "?c \<noteq> 12" using classification_new_error [of 12 OverlapClassification] by auto
  note ov = two_byte_overlap [OF two [unfolded uv] this]
  have "to_classification (clear_overlap_class (TwoByte x y)) =
      Ok (if pt_is_overlap p then Unclassified else pt_classification p)"
    using ov(2) a(8) c uv by (simp del: is_overlap.simps)
  from point_new_stored [OF t(1-7) [unfolded a] t(8) [unfolded a] this assms(1,2)] ov(1) a(8) uv
  show ?thesis by (simp add: legacy_flags_def del: is_overlap.simps)
qed

text \<open>
  The fields of the format show in a point that is read, except for a near infrared value of
  zero: that point does not match the format it was read in, and a writer of that format
  refuses it.
\<close>

lemma zero_nir_unmatched:
  assumes "has_nir f" "unwrap_or (rp_nir raw) 0 = 0" "point_new (stored f raw g) ts = Ok p"
  shows "pt_nir p = None \<and> \<not> point_matches p f"
  using assms by (auto simp: point_new_def Let_def stored_def keep_if_def some_or_none_if_zero_def
      point_matches_def)

section \<open>Properties\<close>

text \<open>A point of the survey at (1, 2, 0) for the witnesses.\<close>

definition survey_point :: point where
  "survey_point =
     \<lparr>pt_x = 0x3FF0000000000000, pt_y = 0x4000000000000000, pt_z = 0, pt_intensity = 42,
      pt_return_number = 1, pt_number_of_returns = 2, pt_scan_direction = LeftToRight,
      pt_is_edge_of_flight_line = False, pt_classification = Ground, pt_is_synthetic = False,
      pt_is_key_point = True, pt_is_withheld = False, pt_is_overlap = False,
      pt_scanner_channel = 0, pt_scan_angle = 0, pt_user_data = 0, pt_point_source_id = 7,
      pt_gps_time = Some 0, pt_color = None, pt_waveform = None, pt_nir = None,
      pt_extra_bytes = []\<rparr>"

lemma scale_bits: "transform_default = \<lparr>scale = 0x3F50624DD2F1A9FC, offset = 0\<rparr>"
  by (simp add: transform_default_def fp_eval)
lemma inverse_samples:
  "inverse transform_default 0x3FF0000000000000 = Ok 1000"
  "inverse transform_default 0x4000000000000000 = Ok 2000"
  "inverse transform_default 0 = Ok 0"
  by (simp_all add: scale_bits inverse_def inverse_with_rounding_mode_def check_i32_range_def i32_MAX_def
      i32_MIN_def fp_eval)

lemma survey_flags: "point_flags survey_point = Ok (ThreeByte 0x21 0x42 2)"
  by (simp add: survey_point_def point_flags_def flag_bits_def)

lemma survey_raw: "into_raw survey_point vector_transform_default =
  Ok \<lparr>rp_x = 1000, rp_y = 2000, rp_z = 0, rp_intensity = 42, rp_flags = ThreeByte 0x21 0x42 2,
      rp_scan_angle = Scaled 0, rp_user_data = 0, rp_point_source_id = 7, rp_gps_time = Some 0,
      rp_color = None, rp_waveform = None, rp_nir = None, rp_extra_bytes = []\<rparr>"
  using survey_flags
  by (simp add: into_raw_def survey_point_def vector_transform_default_def inverse_samples
     scan_angle_of_f32_def SCAN_ANGLE_SCALE_FACTOR_def fp_eval)

lemma survey_matches:
  "point_matches survey_point (format_of_id False 6)" "point_matches survey_point (format_of_id False 1)"
  by (simp_all add: point_matches_def survey_point_def format_of_id_def NIR_FORMATS_def
      WAVEFORM_FORMATS_def COLOR_FORMATS_def TIME_FORMATS_def)

text \<open>
  C14. A point whose attributes match an extended format goes through a file: its raw point is
  written, read back and turned into the same point, up to the coordinates, which are those
  of the integer coordinates in the file, the scan angle, which is a multiple of the
  angle unit, and a near infrared value of zero, which comes back as none.  The format does not
  have both near infrared and waveform data.
\<close>

theorem point_through_file_extended:
  assumes "into_raw p ts = Ok raw" "point_matches p f" "is_extended f"
    and "valid_classification (pt_classification p)" "\<not> (has_nir f \<and> has_waveform f)"
  shows "\<exists>c1 raw'. raw_point_write_to f raw c = (Ok (), c1) \<and>
     raw_point_read_from f (c1\<lparr>c_pos := c_pos c\<rparr>) = (Ok raw', c1) \<and>
     point_new raw' ts = Ok (quantised f ts raw p)"
proof -
  have "stored_flags f (rp_flags raw) = Ok (rp_flags raw)"
    using into_raw_fields(4) [OF assms(1), symmetric] assms(3)
    by (auto simp: stored_flags_def point_flags_def split: if_splits)
  moreover have "length (rp_extra_bytes raw) = unat (extra_bytes f)"
    using into_raw_fields(13) [OF assms(1)] assms(2) by (simp add: point_matches_def)
  ultimately show ?thesis
    using raw_point_stored [of f raw "rp_flags raw"] point_through_extended [OF assms(1,2,4)] assms(5)
    by blast
qed

theorem point_through_file_extended_witness:
  "\<exists>raw c1 raw'. into_raw survey_point vector_transform_default = Ok raw \<and>
     raw_point_write_to (format_of_id False 6) raw \<lparr>c_data = [], c_pos = 0\<rparr> = (Ok (), c1) \<and>
     raw_point_read_from (format_of_id False 6) (c1\<lparr>c_pos := 0\<rparr>) = (Ok raw', c1) \<and>
     point_new raw' vector_transform_default
       = Ok (quantised (format_of_id False 6) vector_transform_default raw survey_point)"
proof -
  have "is_extended (format_of_id False 6)"
    "\<not> (has_nir (format_of_id False 6) \<and> has_waveform (format_of_id False 6))"
    by (simp_all add: format_of_id_def NIR_FORMATS_def)
  moreover have "valid_classification (pt_classification survey_point)" by (simp add: survey_point_def)
  ultimately show ?thesis
    using point_through_file_extended [OF survey_raw survey_matches(1), of "\<lparr>c_data = [], c_pos = 0\<rparr>"]
      survey_raw by auto
qed

text \<open>
  C15. The same through a legacy format, when the flags fit in its two bytes.  An overlap
  point comes back as an unclassified overlap point, and a point whose class has the low four
  bits 1100 (class 28) comes back as an overlap point.
\<close>

theorem point_through_file_legacy:
  assumes "into_raw p ts = Ok raw" "point_matches p f" "\<not> is_extended f"
    and "to_two_bytes (rp_flags raw) = Ok (x, y)"
    and "valid_classification (pt_classification p)" "\<not> (has_nir f \<and> has_waveform f)"
  shows "\<exists>c1 raw'. raw_point_write_to f raw c = (Ok (), c1) \<and>
     raw_point_read_from f (c1\<lparr>c_pos := c_pos c\<rparr>) = (Ok raw', c1) \<and>
     point_new raw' ts = Ok (quantised f ts raw (legacy_flags p))"
proof -
  have "stored_flags f (rp_flags raw) = Ok (TwoByte x y)"
    using assms(3,4) by (simp add: stored_flags_def)
  moreover have "length (rp_extra_bytes raw) = unat (extra_bytes f)"
    using into_raw_fields(13) [OF assms(1)] assms(2) by (simp add: point_matches_def)
  ultimately show ?thesis
    using raw_point_stored [of f raw "TwoByte x y"] point_through_legacy [OF assms(1,2,5,4)] assms(6)
    by blast
qed

theorem point_through_file_legacy_witness:
  "\<exists>raw c1 raw'. into_raw survey_point vector_transform_default = Ok raw \<and>
     raw_point_write_to (format_of_id False 1) raw \<lparr>c_data = [], c_pos = 0\<rparr> = (Ok (), c1) \<and>
     raw_point_read_from (format_of_id False 1) (c1\<lparr>c_pos := 0\<rparr>) = (Ok raw', c1) \<and>
     point_new raw' vector_transform_default
       = Ok (quantised (format_of_id False 1) vector_transform_default raw (legacy_flags survey_point))"
proof -
  have "\<not> is_extended (format_of_id False 1)"
    "\<not> (has_nir (format_of_id False 1) \<and> has_waveform (format_of_id False 1))"
    by (simp_all add: format_of_id_def NIR_FORMATS_def word_le_nat_alt)
  moreover have "to_two_bytes (ThreeByte 0x21 0x42 2) = Ok (0x51, 0x42)"
    by (simp add: three_to_two_bytes_def flags_scan_direction_def is_edge_of_flight_line_def)
  moreover have "valid_classification (pt_classification survey_point)" by (simp add: survey_point_def)
  ultimately show ?thesis
    using point_through_file_legacy [OF survey_raw survey_matches(2), of "0x51" "0x42" "\<lparr>c_data = [], c_pos = 0\<rparr>"]
      survey_raw by auto
qed

end
