(* ===== verification/Vlrs.thy ===== *)
theory Vlrs
  imports Las_Strings
begin

text \<open>
  Variable length records: the raw records of a file (\<^verbatim>\<open>src/raw/vlr.rs\<close>) and the records
  with strings (\<^verbatim>\<open>src/vlr.rs\<close>).  A fixed array of bytes is a list, whose length
  \<open>raw_vlr_ok\<close> states.
\<close>

section \<open>Raw records\<close>

datatype record_length = RVlr u16 | REvlr u64

record raw_vlr =
  rv_reserved :: u16
  rv_user_id :: bytes
  rv_record_id :: u16
  rv_record_length_after_header :: record_length
  rv_description :: bytes
  rv_data :: bytes

fun u64_of_record_length :: "record_length \<Rightarrow> u64" where
  "u64_of_record_length (RVlr n) = ucast n"
| "u64_of_record_length (REvlr n) = n"

definition usize_of_record_length :: "record_length \<Rightarrow> nat" where
  "usize_of_record_length l = unat (u64_of_record_length l)"

text \<open>\<^verbatim>\<open>Vec::resize\<close> panics when the capacity would exceed \<^verbatim>\<open>isize::MAX\<close> bytes.\<close>

definition resize_zeroed :: "nat \<Rightarrow> nat outcome" where
  "resize_zeroed n = (if n < 2 ^ 63 then Ok n else Panic)"

definition record_length_read_from :: "bool \<Rightarrow> record_length reader" where
  "record_length_read_from extended =
     (if extended then io_bind read_u64 (\<lambda>n. io_return (REvlr n))
      else io_bind read_u16 (\<lambda>n. io_return (RVlr n)))"

definition raw_vlr_read_from :: "bool \<Rightarrow> raw_vlr reader" where
  "raw_vlr_read_from extended =
     io_bind read_u16 (\<lambda>reserved. io_bind (read_exact 16) (\<lambda>user_id.
     io_bind read_u16 (\<lambda>record_id. io_bind (record_length_read_from extended) (\<lambda>len.
     io_bind (read_exact 32) (\<lambda>description.
     io_bind (io_lift (resize_zeroed (usize_of_record_length len))) (\<lambda>n.
     io_bind (read_exact n) (\<lambda>data.
     io_return \<lparr>rv_reserved = reserved, rv_user_id = user_id, rv_record_id = record_id,
       rv_record_length_after_header = len, rv_description = description, rv_data = data\<rparr>)))))))"

fun record_length_write_to :: "record_length \<Rightarrow> writer" where
  "record_length_write_to (RVlr n) = write_u16 n"
| "record_length_write_to (REvlr n) = write_u64 n"

definition raw_vlr_write_to :: "raw_vlr \<Rightarrow> writer" where
  "raw_vlr_write_to v =
     io_bind (write_u16 (rv_reserved v)) (\<lambda>_. io_bind (write_all (rv_user_id v)) (\<lambda>_.
     io_bind (write_u16 (rv_record_id v)) (\<lambda>_.
     io_bind (record_length_write_to (rv_record_length_after_header v)) (\<lambda>_.
     io_bind (write_all (rv_description v)) (\<lambda>_. write_all (rv_data v))))))"

section \<open>Records\<close>

definition REGULAR_HEADER_SIZE :: nat where "REGULAR_HEADER_SIZE = 54"
definition EXTENDED_HEADER_SIZE :: nat where "EXTENDED_HEADER_SIZE = 60"
definition u16_MAX :: nat where "u16_MAX = 65535"

record vlr =
  v_user_id :: bytes
  v_record_id :: u16
  v_description :: bytes
  v_data :: bytes

definition vlr_default :: vlr where
  "vlr_default = \<lparr>v_user_id = [], v_record_id = 0, v_description = [], v_data = []\<rparr>"

definition vlr_new :: "raw_vlr \<Rightarrow> vlr" where
  "vlr_new raw =
     \<lparr>v_user_id = as_las_string_lossy (rv_user_id raw), v_record_id = rv_record_id raw,
      v_description = as_las_string_lossy (rv_description raw), v_data = rv_data raw\<rparr>"

definition record_length_after_header :: "vlr \<Rightarrow> bool \<Rightarrow> record_length outcome" where
  "record_length_after_header v extended =
     (if extended then Ok (REvlr (word_of_nat (length (v_data v))))
      else if u16_MAX < length (v_data v) then Err (VlrTooLong (length (v_data v)))
      else Ok (RVlr (word_of_nat (length (v_data v)))))"

definition vlr_into_raw :: "vlr \<Rightarrow> bool \<Rightarrow> raw_vlr outcome" where
  "vlr_into_raw v extended =
     and_then (from_las_str (replicate 16 0) (v_user_id v)) (\<lambda>user_id.
     and_then (from_las_str (replicate 32 0) (v_description v)) (\<lambda>description.
     and_then (record_length_after_header v extended) (\<lambda>len.
     Ok \<lparr>rv_reserved = 0, rv_user_id = user_id, rv_record_id = v_record_id v,
         rv_record_length_after_header = len, rv_description = description,
         rv_data = v_data v\<rparr>)))"

definition vlr_len :: "vlr \<Rightarrow> bool \<Rightarrow> nat" where
  "vlr_len v extended =
     length (v_data v) + (if extended then EXTENDED_HEADER_SIZE else REGULAR_HEADER_SIZE)"

definition is_empty :: "vlr \<Rightarrow> bool" where
  "is_empty v \<longleftrightarrow> v_data v = []"

definition has_large_data :: "vlr \<Rightarrow> bool" where
  "has_large_data v \<longleftrightarrow> u16_MAX < length (v_data v)"

text \<open>
  \<^verbatim>\<open>to_lowercase\<close> on the user id, compared with \<open>lasf_projection\<close>: the only other
  characters whose lowercase form is ASCII are the Kelvin sign and a dotted capital I (which
  gains a combining dot), and neither yields a letter of that word, so lowering the ASCII
  letters decides the comparison.
\<close>

definition ascii_lower :: "u8 \<Rightarrow> u8" where
  "ascii_lower b = (if 0x41 \<le> b \<and> b \<le> 0x5A then b + 32 else b)"

definition LASF_PROJECTION :: bytes where
  "LASF_PROJECTION = [0x6C, 0x61, 0x73, 0x66, 0x5F, 0x70, 0x72, 0x6F, 0x6A, 0x65, 0x63, 0x74,
     0x69, 0x6F, 0x6E]"

definition is_projection :: "vlr \<Rightarrow> bool" where
  "is_projection v \<longleftrightarrow>
     map ascii_lower (v_user_id v) = LASF_PROJECTION \<and>
     v_record_id v \<in> {2112, 34735, 34736, 34737}"

section \<open>The codec of a raw record\<close>

fun enc_record_length :: "record_length \<Rightarrow> bytes" where
  "enc_record_length (RVlr n) = to_le 2 n"
| "enc_record_length (REvlr n) = to_le 8 n"

definition enc_vlr :: "raw_vlr \<Rightarrow> bytes" where
  "enc_vlr v =
     to_le 2 (rv_reserved v) @ rv_user_id v @ to_le 2 (rv_record_id v)
     @ enc_record_length (rv_record_length_after_header v) @ rv_description v @ rv_data v"

fun length_kind :: "bool \<Rightarrow> record_length \<Rightarrow> bool" where
  "length_kind extended (RVlr _) \<longleftrightarrow> \<not> extended"
| "length_kind extended (REvlr _) \<longleftrightarrow> extended"

definition raw_vlr_ok :: "bool \<Rightarrow> raw_vlr \<Rightarrow> bool" where
  "raw_vlr_ok extended v \<longleftrightarrow>
     length (rv_user_id v) = 16 \<and> length (rv_description v) = 32 \<and>
     length_kind extended (rv_record_length_after_header v) \<and>
     usize_of_record_length (rv_record_length_after_header v) = length (rv_data v) \<and>
     length (rv_data v) < 2 ^ 63"

lemma writes_vlr: "writes (raw_vlr_write_to v) (enc_vlr v)"
proof -
  have "writes (record_length_write_to l) (enc_record_length l)" for l
    by (cases l) (simp_all add: prim_writes)
  then show ?thesis
    unfolding raw_vlr_write_to_def enc_vlr_def by (intro stream)
qed

lemma reads_record_length:
  "length_kind extended l \<Longrightarrow> reads (record_length_read_from extended) (enc_record_length l) l"
  by (cases l) (auto simp: record_length_read_from_def intro: reads_map prim_reads)

lemma reads_vlr:
  assumes "raw_vlr_ok extended v"
  shows "reads (raw_vlr_read_from extended) (enc_vlr v) v"
proof -
  let ?l = "rv_record_length_after_header v"
  have "reads (raw_vlr_read_from extended)
     (to_le 2 (rv_reserved v) @ rv_user_id v @ to_le 2 (rv_record_id v)
      @ enc_record_length ?l @ rv_description v @ [] @ rv_data v) v"
    unfolding raw_vlr_read_from_def
    apply (rule reads_bind, rule prim_reads)
    apply (rule reads_bind, rule reads_exact_len)
    using assms apply (simp add: raw_vlr_ok_def)
    apply (rule reads_bind, rule prim_reads)
    apply (rule reads_bind, rule reads_record_length)
    using assms apply (simp add: raw_vlr_ok_def)
    apply (rule reads_bind, rule reads_exact_len)
    using assms apply (simp add: raw_vlr_ok_def)
    apply (rule reads_bind [where x = "length (rv_data v)"])
    using assms apply (simp add: raw_vlr_ok_def resize_zeroed_def reads_lift)
    apply (rule reads_map, rule reads_exact_len, simp, simp)
    done
  then show ?thesis by (simp add: enc_vlr_def)
qed

interpretation raw_vlr: serial "raw_vlr_read_from extended" raw_vlr_write_to enc_vlr
  "raw_vlr_ok extended" for extended
proof (unfold_locales, goal_cases)
  case (3 v)
  then show ?case by (auto simp: enc_vlr_def raw_vlr_ok_def)
qed (simp_all add: writes_vlr reads_vlr)

section \<open>Records through their raw form\<close>

lemma vlr_into_raw_eq:
  "vlr_into_raw v extended =
     (if 16 < length (v_user_id v) then Err (StringTooLong (v_user_id v) 16)
      else if 32 < length (v_description v) then Err (StringTooLong (v_description v) 32)
      else if \<not> extended \<and> has_large_data v then Err (VlrTooLong (length (v_data v)))
      else Ok \<lparr>rv_reserved = 0,
        rv_user_id = v_user_id v @ replicate (16 - length (v_user_id v)) 0,
        rv_record_id = v_record_id v,
        rv_record_length_after_header =
          (if extended then REvlr (word_of_nat (length (v_data v)))
           else RVlr (word_of_nat (length (v_data v)))),
        rv_description = v_description v @ replicate (32 - length (v_description v)) 0,
        rv_data = v_data v\<rparr>)"
  by (simp add: vlr_into_raw_def from_las_str_def record_length_after_header_def has_large_data_def)

lemma vlr_new_into_raw:
  assumes "vlr_into_raw v extended = Ok raw" "las_text (v_user_id v)" "las_text (v_description v)"
  shows "vlr_new raw = v"
  using assms
  by (auto simp: vlr_into_raw_eq vlr_new_def as_las_string_lossy_text split: if_splits)

lemma vlr_into_raw_ok:
  assumes "vlr_into_raw v extended = Ok raw" "length (v_data v) < 2 ^ 63"
  shows "raw_vlr_ok extended raw" "length (enc_vlr raw) = vlr_len v extended"
proof -
  have len: "u64_of_record_length (if extended then REvlr (word_of_nat (length (v_data v)))
       else RVlr (word_of_nat (length (v_data v)))) = word_of_nat (length (v_data v))"
    if "extended \<or> length (v_data v) \<le> u16_MAX"
    using that by (auto simp: u16_MAX_def unsigned_ucast_eq word_unat_eq_iff unat_of_nat
        take_bit_nat_eq_self)
  show "raw_vlr_ok extended raw"
    using assms len
    by (auto simp: vlr_into_raw_eq raw_vlr_ok_def usize_of_record_length_def has_large_data_def
        unat_of_nat split: if_splits)
  show "length (enc_vlr raw) = vlr_len v extended"
    using assms
    by (auto simp: vlr_into_raw_eq enc_vlr_def vlr_len_def EXTENDED_HEADER_SIZE_def
        REGULAR_HEADER_SIZE_def split: if_splits)
qed

section \<open>Properties\<close>

text \<open>
  C24. A variable length record, regular or extended, survives the file: when its conversion
  to a raw record succeeds, writing the raw record advances the stream by \<^verbatim>\<open>len\<close>, reading it
  back returns it, and converting it returns the record.  The conversion fails exactly when
  the user id exceeds 16 bytes, the description exceeds 32 bytes, or the data of a regular
  record exceeds 65535 bytes.
\<close>

theorem vlr_roundtrip:
  assumes "las_text (v_user_id v)" "las_text (v_description v)" "length (v_data v) < 2 ^ 63"
  shows "if length (v_user_id v) \<le> 16 \<and> length (v_description v) \<le> 32 \<and>
            (extended \<or> \<not> has_large_data v)
         then \<exists>raw c1. vlr_into_raw v extended = Ok raw \<and>
           raw_vlr_write_to raw c = (Ok (), c1) \<and> c_pos c1 = c_pos c + vlr_len v extended \<and>
           raw_vlr_read_from extended (c1\<lparr>c_pos := c_pos c\<rparr>) = (Ok raw, c1) \<and> vlr_new raw = v
         else \<exists>e. vlr_into_raw v extended = Err e"
proof (cases "\<exists>raw. vlr_into_raw v extended = Ok raw")
  case True
  then obtain raw where raw: "vlr_into_raw v extended = Ok raw" by blast
  have "length (v_user_id v) \<le> 16 \<and> length (v_description v) \<le> 32 \<and> (extended \<or> \<not> has_large_data v)"
    using raw by (auto simp: vlr_into_raw_eq split: if_splits)
  then show ?thesis
    using raw_vlr.round_trip [OF vlr_into_raw_ok(1) [OF raw assms(3)], of c] raw
      vlr_into_raw_ok(2) [OF raw assms(3)] vlr_new_into_raw [OF raw assms(1,2)] by auto
next
  case False
  then show ?thesis by (auto simp: vlr_into_raw_eq split: if_splits)
qed

theorem vlr_roundtrip_witness:
  "\<exists>raw c1. vlr_into_raw (vlr_default\<lparr>v_user_id := [0x61], v_data := [1, 2]\<rparr>) True = Ok raw \<and>
     raw_vlr_write_to raw \<lparr>c_data = [9, 9, 9], c_pos = 3\<rparr> = (Ok (), c1) \<and> c_pos c1 = 65 \<and>
     raw_vlr_read_from True (c1\<lparr>c_pos := 3\<rparr>) = (Ok raw, c1) \<and>
     vlr_new raw = vlr_default\<lparr>v_user_id := [0x61], v_data := [1, 2]\<rparr>"
proof -
  have "las_text [0x61]" "las_text []" by (simp_all add: las_text_def utf8_next.simps)
  then show ?thesis
    using vlr_roundtrip [of "vlr_default\<lparr>v_user_id := [0x61], v_data := [1, 2]\<rparr>" True
        "\<lparr>c_data = [9, 9, 9], c_pos = 3\<rparr>"]
    by (simp add: vlr_default_def vlr_len_def EXTENDED_HEADER_SIZE_def)
qed

end
