(* ===== verification/Raw_Header.thy ===== *)
theory Raw_Header
  imports Raw_Point Las_Version
begin

text \<open>
  The raw header block of a file (\<^verbatim>\<open>src/raw/header.rs\<close>): its fields, reading and writing.
  Fixed arrays are lists, whose lengths \<open>raw_header_ok\<close> states.
\<close>

section \<open>Data\<close>

record evlr_info =
  start_of_first_evlr :: u64
  number_of_evlrs :: u32

record large_file =
  lf_number_of_point_records :: u64
  lf_number_of_points_by_return :: "u64 list"

record raw_header =
  rh_file_signature :: bytes
  rh_file_source_id :: u16
  rh_global_encoding :: u16
  rh_guid :: bytes
  rh_version :: version
  rh_system_identifier :: bytes
  rh_generating_software :: bytes
  rh_file_creation_day_of_year :: u16
  rh_file_creation_year :: u16
  rh_header_size :: u16
  rh_offset_to_point_data :: u32
  rh_number_of_variable_length_records :: u32
  rh_point_data_record_format :: u8
  rh_point_data_record_length :: u16
  rh_number_of_point_records :: u32
  rh_number_of_points_by_return :: "u32 list"
  rh_x_scale_factor :: f64
  rh_y_scale_factor :: f64
  rh_z_scale_factor :: f64
  rh_x_offset :: f64
  rh_y_offset :: f64
  rh_z_offset :: f64
  rh_max_x :: f64
  rh_min_x :: f64
  rh_max_y :: f64
  rh_min_y :: f64
  rh_max_z :: f64
  rh_min_z :: f64
  rh_start_of_waveform_data_packet_record :: "u64 option"
  rh_evlr :: "evlr_info option"
  rh_large_file :: "large_file option"
  rh_padding :: bytes

definition LASF :: bytes where "LASF = [0x4C, 0x41, 0x53, 0x46]"

section \<open>Reading\<close>

definition evlr_read_from :: "evlr_info reader" where
  "evlr_read_from =
     io_bind read_u64 (\<lambda>s. io_bind read_u32 (\<lambda>n.
     io_return \<lparr>start_of_first_evlr = s, number_of_evlrs = n\<rparr>))"

definition evlr_into_option :: "evlr_info \<Rightarrow> evlr_info option" where
  "evlr_into_option e =
     (if 0 < start_of_first_evlr e \<and> 0 < number_of_evlrs e then Some e else None)"

definition large_file_read_from :: "large_file reader" where
  "large_file_read_from =
     io_bind read_u64 (\<lambda>n. io_bind (io_times 15 read_u64) (\<lambda>ns.
     io_return \<lparr>lf_number_of_point_records = n, lf_number_of_points_by_return = ns\<rparr>))"

definition padding_len :: "u16 \<Rightarrow> version \<Rightarrow> nat" where
  "padding_len hsize v =
     (if version_header_size v < hsize then unat (hsize - version_header_size v) else 0)"

definition check_signature :: "bytes \<Rightarrow> unit outcome" where
  "check_signature sig = (if sig \<noteq> LASF then Err (InvalidFileSignature sig) else Ok ())"

definition raw_header_read_from :: "raw_header reader" where
  "raw_header_read_from =
     io_bind (read_exact 4) (\<lambda>sig. io_bind (io_lift (check_signature sig)) (\<lambda>_.
     io_bind read_u16 (\<lambda>source. io_bind read_u16 (\<lambda>encoding. io_bind (read_exact 16) (\<lambda>guid.
     io_bind read_u8 (\<lambda>v_major. io_bind read_u8 (\<lambda>v_minor.
     io_bind (read_exact 32) (\<lambda>system. io_bind (read_exact 32) (\<lambda>software.
     io_bind read_u16 (\<lambda>day. io_bind read_u16 (\<lambda>year. io_bind read_u16 (\<lambda>hsize.
     io_bind read_u32 (\<lambda>off. io_bind read_u32 (\<lambda>vlrs. io_bind read_u8 (\<lambda>fmt.
     io_bind read_u16 (\<lambda>len. io_bind read_u32 (\<lambda>points.
     io_bind (io_times 5 read_u32) (\<lambda>by_return.
     io_bind read_u64 (\<lambda>xs. io_bind read_u64 (\<lambda>ys. io_bind read_u64 (\<lambda>zs.
     io_bind read_u64 (\<lambda>xo. io_bind read_u64 (\<lambda>yo. io_bind read_u64 (\<lambda>zo.
     io_bind read_u64 (\<lambda>x1. io_bind read_u64 (\<lambda>x0.
     io_bind read_u64 (\<lambda>y1. io_bind read_u64 (\<lambda>y0.
     io_bind read_u64 (\<lambda>z1. io_bind read_u64 (\<lambda>z0.
     io_bind (read_if (supports (Version v_major v_minor) Waveforms) read_u64) (\<lambda>waveform.
     io_bind (read_if (supports (Version v_major v_minor) Evlrs) evlr_read_from) (\<lambda>evlr.
     io_bind (read_if (supports (Version v_major v_minor) LargeFiles) large_file_read_from) (\<lambda>large.
     io_bind (read_exact (padding_len hsize (Version v_major v_minor))) (\<lambda>padding.
     io_return \<lparr>rh_file_signature = sig, rh_file_source_id = source,
       rh_global_encoding = encoding, rh_guid = guid, rh_version = Version v_major v_minor,
       rh_system_identifier = system, rh_generating_software = software,
       rh_file_creation_day_of_year = day, rh_file_creation_year = year, rh_header_size = hsize,
       rh_offset_to_point_data = off, rh_number_of_variable_length_records = vlrs,
       rh_point_data_record_format = fmt, rh_point_data_record_length = len,
       rh_number_of_point_records = points, rh_number_of_points_by_return = by_return,
       rh_x_scale_factor = xs, rh_y_scale_factor = ys, rh_z_scale_factor = zs,
       rh_x_offset = xo, rh_y_offset = yo, rh_z_offset = zo,
       rh_max_x = x1, rh_min_x = x0, rh_max_y = y1, rh_min_y = y0, rh_max_z = z1, rh_min_z = z0,
       rh_start_of_waveform_data_packet_record = Option.bind waveform some_or_none_if_zero,
       rh_evlr = Option.bind evlr evlr_into_option, rh_large_file = large,
       rh_padding = padding\<rparr>))))))))))))))))))))))))))))))))))"

section \<open>Writing\<close>

definition evlr_default :: evlr_info where
  "evlr_default = \<lparr>start_of_first_evlr = 0, number_of_evlrs = 0\<rparr>"

definition large_file_default :: large_file where
  "large_file_default =
     \<lparr>lf_number_of_point_records = 0, lf_number_of_points_by_return = replicate 15 0\<rparr>"

definition evlr_write_to :: "evlr_info \<Rightarrow> writer" where
  "evlr_write_to e =
     io_bind (write_u64 (start_of_first_evlr e)) (\<lambda>_. write_u32 (number_of_evlrs e))"

definition large_file_write_to :: "large_file \<Rightarrow> writer" where
  "large_file_write_to l =
     io_bind (write_u64 (lf_number_of_point_records l)) (\<lambda>_.
     io_each write_u64 (lf_number_of_points_by_return l))"

definition raw_header_write_to :: "raw_header \<Rightarrow> writer" where
  "raw_header_write_to h =
     io_bind (write_all (rh_file_signature h)) (\<lambda>_.
     io_bind (write_u16 (rh_file_source_id h)) (\<lambda>_.
     io_bind (write_u16 (rh_global_encoding h)) (\<lambda>_.
     io_bind (write_all (rh_guid h)) (\<lambda>_.
     io_bind (write_u8 (major (rh_version h))) (\<lambda>_.
     io_bind (write_u8 (minor (rh_version h))) (\<lambda>_.
     io_bind (write_all (rh_system_identifier h)) (\<lambda>_.
     io_bind (write_all (rh_generating_software h)) (\<lambda>_.
     io_bind (write_u16 (rh_file_creation_day_of_year h)) (\<lambda>_.
     io_bind (write_u16 (rh_file_creation_year h)) (\<lambda>_.
     io_bind (write_u16 (rh_header_size h)) (\<lambda>_.
     io_bind (write_u32 (rh_offset_to_point_data h)) (\<lambda>_.
     io_bind (write_u32 (rh_number_of_variable_length_records h)) (\<lambda>_.
     io_bind (write_u8 (rh_point_data_record_format h)) (\<lambda>_.
     io_bind (write_u16 (rh_point_data_record_length h)) (\<lambda>_.
     io_bind (write_u32 (rh_number_of_point_records h)) (\<lambda>_.
     io_bind (io_each write_u32 (rh_number_of_points_by_return h)) (\<lambda>_.
     io_bind (write_u64 (rh_x_scale_factor h)) (\<lambda>_.
     io_bind (write_u64 (rh_y_scale_factor h)) (\<lambda>_.
     io_bind (write_u64 (rh_z_scale_factor h)) (\<lambda>_.
     io_bind (write_u64 (rh_x_offset h)) (\<lambda>_.
     io_bind (write_u64 (rh_y_offset h)) (\<lambda>_.
     io_bind (write_u64 (rh_z_offset h)) (\<lambda>_.
     io_bind (write_u64 (rh_max_x h)) (\<lambda>_. io_bind (write_u64 (rh_min_x h)) (\<lambda>_.
     io_bind (write_u64 (rh_max_y h)) (\<lambda>_. io_bind (write_u64 (rh_min_y h)) (\<lambda>_.
     io_bind (write_u64 (rh_max_z h)) (\<lambda>_. io_bind (write_u64 (rh_min_z h)) (\<lambda>_.
     io_bind (write_if (supports (rh_version h) Waveforms)
       (write_u64 (unwrap_or (rh_start_of_waveform_data_packet_record h) 0))) (\<lambda>_.
     io_bind (write_if (supports (rh_version h) Evlrs)
       (evlr_write_to (unwrap_or (rh_evlr h) evlr_default))) (\<lambda>_.
     io_bind (write_if (supports (rh_version h) LargeFiles)
       (large_file_write_to (unwrap_or (rh_large_file h) large_file_default))) (\<lambda>_.
     write_all (rh_padding h)))))))))))))))))))))))))))))))))"

section \<open>Sizes and defaults\<close>

definition number_of_point_records :: "raw_header \<Rightarrow> u64" where
  "number_of_point_records h =
     (let legacy = ucast (rh_number_of_point_records h) in
      case rh_large_file h of
        Some lf \<Rightarrow> if legacy \<noteq> 0 then legacy else lf_number_of_point_records lf
      | None \<Rightarrow> legacy)"

definition offset_to_end_of_points :: "raw_header \<Rightarrow> u64 outcome" where
  "offset_to_end_of_points h =
     and_then (checked_mul (number_of_point_records h) (ucast (rh_point_data_record_length h)))
       (\<lambda>n. checked_add (ucast (rh_offset_to_point_data h)) n)"

definition raw_header_default :: raw_header where
  "raw_header_default =
     \<lparr>rh_file_signature = LASF, rh_file_source_id = 0, rh_global_encoding = 0,
      rh_guid = replicate 16 0, rh_version = Version 1 2,
      rh_system_identifier = replicate 32 0, rh_generating_software = replicate 32 0,
      rh_file_creation_day_of_year = 0, rh_file_creation_year = 0,
      rh_header_size = version_header_size (Version 1 2),
      rh_offset_to_point_data = ucast (version_header_size (Version 1 2)),
      rh_number_of_variable_length_records = 0, rh_point_data_record_format = 0,
      rh_point_data_record_length = 20, rh_number_of_point_records = 0,
      rh_number_of_points_by_return = replicate 5 0,
      rh_x_scale_factor = 0, rh_y_scale_factor = 0, rh_z_scale_factor = 0,
      rh_x_offset = 0, rh_y_offset = 0, rh_z_offset = 0,
      rh_max_x = 0, rh_min_x = 0, rh_max_y = 0, rh_min_y = 0, rh_max_z = 0, rh_min_z = 0,
      rh_start_of_waveform_data_packet_record = None, rh_evlr = None, rh_large_file = None,
      rh_padding = []\<rparr>"

lemma raw_header_default_format:
  "to_u8 laz (format_of_id False 0) = Ok (rh_point_data_record_format raw_header_default)"
  "format_len (format_of_id False 0) = Ok (rh_point_data_record_length raw_header_default)"
  by (simp_all add: raw_header_default_def to_u8_def format_len_def format_of_id_def
      TIME_FORMATS_def COLOR_FORMATS_def WAVEFORM_FORMATS_def NIR_FORMATS_def add_if_def
      checked_add_def word_le_nat_alt)

section \<open>The codec of the header\<close>

definition enc_evlr :: "evlr_info \<Rightarrow> bytes" where
  "enc_evlr e = to_le 8 (start_of_first_evlr e) @ to_le 4 (number_of_evlrs e)"

definition enc_large_file :: "large_file \<Rightarrow> bytes" where
  "enc_large_file l =
     to_le 8 (lf_number_of_point_records l) @ concat (map (to_le 8) (lf_number_of_points_by_return l))"

definition enc_header_head :: "raw_header \<Rightarrow> bytes" where
  "enc_header_head h =
     rh_file_signature h @ to_le 2 (rh_file_source_id h) @ to_le 2 (rh_global_encoding h)
     @ rh_guid h @ [major (rh_version h)] @ [minor (rh_version h)]
     @ rh_system_identifier h @ rh_generating_software h
     @ to_le 2 (rh_file_creation_day_of_year h) @ to_le 2 (rh_file_creation_year h)
     @ to_le 2 (rh_header_size h) @ to_le 4 (rh_offset_to_point_data h)
     @ to_le 4 (rh_number_of_variable_length_records h) @ [rh_point_data_record_format h]
     @ to_le 2 (rh_point_data_record_length h) @ to_le 4 (rh_number_of_point_records h)
     @ concat (map (to_le 4) (rh_number_of_points_by_return h))
     @ to_le 8 (rh_x_scale_factor h) @ to_le 8 (rh_y_scale_factor h) @ to_le 8 (rh_z_scale_factor h)
     @ to_le 8 (rh_x_offset h) @ to_le 8 (rh_y_offset h) @ to_le 8 (rh_z_offset h)
     @ to_le 8 (rh_max_x h) @ to_le 8 (rh_min_x h) @ to_le 8 (rh_max_y h) @ to_le 8 (rh_min_y h)
     @ to_le 8 (rh_max_z h) @ to_le 8 (rh_min_z h)"

definition enc_header :: "raw_header \<Rightarrow> bytes" where
  "enc_header h =
     enc_header_head h
     @ enc_opt (to_le 8) (keep_if (supports (rh_version h) Waveforms)
         (rh_start_of_waveform_data_packet_record h) 0)
     @ enc_opt enc_evlr (keep_if (supports (rh_version h) Evlrs) (rh_evlr h) evlr_default)
     @ enc_opt enc_large_file (keep_if (supports (rh_version h) LargeFiles)
         (rh_large_file h) large_file_default)
     @ rh_padding h"

text \<open>The headers that the format represents exactly.\<close>

definition raw_header_ok :: "raw_header \<Rightarrow> bool" where
  "raw_header_ok h \<longleftrightarrow>
     rh_file_signature h = LASF \<and> length (rh_guid h) = 16 \<and>
     length (rh_system_identifier h) = 32 \<and> length (rh_generating_software h) = 32 \<and>
     length (rh_number_of_points_by_return h) = 5 \<and>
     (case rh_start_of_waveform_data_packet_record h of
        Some n \<Rightarrow> n \<noteq> 0 \<and> supports (rh_version h) Waveforms | None \<Rightarrow> True) \<and>
     (case rh_evlr h of
        Some e \<Rightarrow> start_of_first_evlr e \<noteq> 0 \<and> number_of_evlrs e \<noteq> 0 \<and> supports (rh_version h) Evlrs
      | None \<Rightarrow> True) \<and>
     (case rh_large_file h of
        Some l \<Rightarrow> length (lf_number_of_points_by_return l) = 15 \<and> supports (rh_version h) LargeFiles
      | None \<Rightarrow> \<not> supports (rh_version h) LargeFiles) \<and>
     length (rh_padding h) = padding_len (rh_header_size h) (rh_version h)"

lemma writes_evlr: "writes (evlr_write_to e) (enc_evlr e)"
  unfolding evlr_write_to_def enc_evlr_def by (intro stream)

lemma writes_large_file: "writes (large_file_write_to l) (enc_large_file l)"
  unfolding large_file_write_to_def enc_large_file_def by (intro stream u64.writes_list)

lemma writes_header: "writes (raw_header_write_to h) (enc_header h)"
proof -
  have "writes (raw_header_write_to h)
     (rh_file_signature h @ to_le 2 (rh_file_source_id h) @ to_le 2 (rh_global_encoding h)
     @ rh_guid h @ [major (rh_version h)] @ [minor (rh_version h)]
     @ rh_system_identifier h @ rh_generating_software h
     @ to_le 2 (rh_file_creation_day_of_year h) @ to_le 2 (rh_file_creation_year h)
     @ to_le 2 (rh_header_size h) @ to_le 4 (rh_offset_to_point_data h)
     @ to_le 4 (rh_number_of_variable_length_records h) @ [rh_point_data_record_format h]
     @ to_le 2 (rh_point_data_record_length h) @ to_le 4 (rh_number_of_point_records h)
     @ concat (map (to_le 4) (rh_number_of_points_by_return h))
     @ to_le 8 (rh_x_scale_factor h) @ to_le 8 (rh_y_scale_factor h) @ to_le 8 (rh_z_scale_factor h)
     @ to_le 8 (rh_x_offset h) @ to_le 8 (rh_y_offset h) @ to_le 8 (rh_z_offset h)
     @ to_le 8 (rh_max_x h) @ to_le 8 (rh_min_x h) @ to_le 8 (rh_max_y h) @ to_le 8 (rh_min_y h)
     @ to_le 8 (rh_max_z h) @ to_le 8 (rh_min_z h)
     @ enc_opt (to_le 8) (keep_if (supports (rh_version h) Waveforms)
         (rh_start_of_waveform_data_packet_record h) 0)
     @ enc_opt enc_evlr (keep_if (supports (rh_version h) Evlrs) (rh_evlr h) evlr_default)
     @ enc_opt enc_large_file (keep_if (supports (rh_version h) LargeFiles)
         (rh_large_file h) large_file_default)
     @ rh_padding h)"
    unfolding raw_header_write_to_def
    by (intro stream u32.writes_list writes_evlr writes_large_file)
  then show ?thesis by (simp add: enc_header_def enc_header_head_def)
qed

lemma reads_evlr: "reads evlr_read_from (enc_evlr e) e"
  unfolding evlr_read_from_def enc_evlr_def
  by (rule reads_bind, rule prim_reads) (rule reads_map, rule prim_reads, simp)

lemma reads_large_file:
  assumes "length (lf_number_of_points_by_return l) = 15"
  shows "reads large_file_read_from (enc_large_file l) l"
  unfolding large_file_read_from_def enc_large_file_def
  by (rule reads_bind, rule prim_reads) (rule reads_map, rule u64.reads_list_len, rule assms, simp)

lemma reads_header:
  assumes "raw_header_ok h"
  shows "reads raw_header_read_from (enc_header h) h"
proof -
  let ?w = "keep_if (supports (rh_version h) Waveforms) (rh_start_of_waveform_data_packet_record h) 0"
  let ?e = "keep_if (supports (rh_version h) Evlrs) (rh_evlr h) evlr_default"
  let ?l = "keep_if (supports (rh_version h) LargeFiles) (rh_large_file h) large_file_default"
  have lens: "length (rh_guid h) = 16" "length (rh_system_identifier h) = 32"
    "length (rh_generating_software h) = 32" "length (rh_number_of_points_by_return h) = 5"
    "length (rh_padding h) = padding_len (rh_header_size h) (rh_version h)"
    "length (rh_file_signature h) = 4"
    using assms by (auto simp: raw_header_ok_def LASF_def)
  have sig: "check_signature (rh_file_signature h) = Ok ()"
    using assms by (simp add: raw_header_ok_def check_signature_def)
  have w: "Option.bind ?w some_or_none_if_zero = rh_start_of_waveform_data_packet_record h"
    using assms by (cases "rh_start_of_waveform_data_packet_record h")
      (auto simp: raw_header_ok_def keep_if_def some_or_none_if_zero_def)
  have e: "Option.bind ?e evlr_into_option = rh_evlr h"
    using assms by (cases "rh_evlr h")
      (auto simp: raw_header_ok_def keep_if_def evlr_into_option_def evlr_default_def word_gt_0)
  have l: "?l = rh_large_file h" "length (lf_number_of_points_by_return (unwrap_or (rh_large_file h) large_file_default)) = 15"
    using assms by (cases "rh_large_file h"; auto simp: raw_header_ok_def keep_if_def large_file_default_def)+
  have "reads raw_header_read_from
     (rh_file_signature h @ [] @ to_le 2 (rh_file_source_id h) @ to_le 2 (rh_global_encoding h)
     @ rh_guid h @ [major (rh_version h)] @ [minor (rh_version h)]
     @ rh_system_identifier h @ rh_generating_software h
     @ to_le 2 (rh_file_creation_day_of_year h) @ to_le 2 (rh_file_creation_year h)
     @ to_le 2 (rh_header_size h) @ to_le 4 (rh_offset_to_point_data h)
     @ to_le 4 (rh_number_of_variable_length_records h) @ [rh_point_data_record_format h]
     @ to_le 2 (rh_point_data_record_length h) @ to_le 4 (rh_number_of_point_records h)
     @ concat (map (to_le 4) (rh_number_of_points_by_return h))
     @ to_le 8 (rh_x_scale_factor h) @ to_le 8 (rh_y_scale_factor h) @ to_le 8 (rh_z_scale_factor h)
     @ to_le 8 (rh_x_offset h) @ to_le 8 (rh_y_offset h) @ to_le 8 (rh_z_offset h)
     @ to_le 8 (rh_max_x h) @ to_le 8 (rh_min_x h) @ to_le 8 (rh_max_y h) @ to_le 8 (rh_min_y h)
     @ to_le 8 (rh_max_z h) @ to_le 8 (rh_min_z h)
     @ enc_opt (to_le 8) ?w @ enc_opt enc_evlr ?e @ enc_opt enc_large_file ?l
     @ rh_padding h) h"
    unfolding raw_header_read_from_def
    apply (rule reads_bind, rule reads_exact_len, rule lens)
    apply (rule reads_bind, simp only: sig, rule reads_lift)
    apply (rule reads_bind, rule prim_reads)+
    apply (rule reads_bind, rule reads_exact_len, rule lens)
    apply (rule reads_bind, rule prim_reads)+
    apply (rule reads_bind, rule reads_exact_len, rule lens)
    apply (rule reads_bind, rule reads_exact_len, rule lens)
    apply (rule reads_bind, rule prim_reads)+
    apply (rule reads_bind, rule u32.reads_list_len, rule lens)
    apply (rule reads_bind, rule prim_reads)+
    apply (simp only: version.collapse)
    apply (rule reads_bind, rule reads_if, rule prim_reads)
    apply (rule reads_bind, rule reads_if, rule reads_evlr)
    apply (rule reads_bind, rule reads_if_ok, rule reads_large_file, rule l)
    apply (rule reads_map, rule reads_exact_len, rule lens)
    apply (simp only: w e l raw_header.surjective [symmetric])
    apply simp
    done
  then show ?thesis by (simp add: enc_header_def enc_header_head_def)
qed

interpretation raw_header: serial raw_header_read_from raw_header_write_to enc_header raw_header_ok
proof (unfold_locales, goal_cases)
  case (3 h)
  then show ?case by (auto simp: enc_header_def enc_header_head_def)
qed (simp_all add: writes_header reads_header)

lemma length_enc_header:
  assumes "raw_header_ok h" "rh_version h \<in> set las_versions"
  shows "length (enc_header h) = unat (version_header_size (rh_version h)) + length (rh_padding h)"
proof -
  have head: "length (enc_header_head h) = 227"
    using assms(1) by (simp add: enc_header_head_def raw_header_ok_def LASF_def u32.length_list)
  have "length (enc_large_file (unwrap_or (rh_large_file h) large_file_default)) = 128"
    using assms(1)
    by (cases "rh_large_file h")
      (auto simp: raw_header_ok_def enc_large_file_def u64.length_list large_file_default_def
        length_concat sum_list_replicate comp_def sum_list_triv)
  then show ?thesis
    using assms(2) head
    by (auto simp: enc_header_def keep_if_def enc_evlr_def las_versions_def
        version_header_size_simps supports_simps)
qed

lemma yields_large_file:
  "yields large_file_read_from (\<lambda>l. length (lf_number_of_points_by_return l) = 15)"
  unfolding large_file_read_from_def
  by (rule yields_bind, rule yields_any, rule yields_bind, rule yields_times) (auto intro: yields_return)

lemma yields_header: "yields raw_header_read_from raw_header_ok"
  unfolding raw_header_read_from_def
  apply (rule yields_bind, rule yields_exact)
  apply (rule yields_bind, rule yields_lift)
  apply (rule yields_bind, rule yields_any)
  apply (rule yields_bind, rule yields_any)
  apply (rule yields_bind, rule yields_exact)
  apply (rule yields_bind, rule yields_any)
  apply (rule yields_bind, rule yields_any)
  apply (rule yields_bind, rule yields_exact)
  apply (rule yields_bind, rule yields_exact)
  apply (rule yields_bind, rule yields_any)
  apply (rule yields_bind, rule yields_any)
  apply (rule yields_bind, rule yields_any)
  apply (rule yields_bind, rule yields_any)
  apply (rule yields_bind, rule yields_any)
  apply (rule yields_bind, rule yields_any)
  apply (rule yields_bind, rule yields_any)
  apply (rule yields_bind, rule yields_any)
  apply (rule yields_bind, rule yields_times)
  apply (rule yields_bind, rule yields_any)
  apply (rule yields_bind, rule yields_any)
  apply (rule yields_bind, rule yields_any)
  apply (rule yields_bind, rule yields_any)
  apply (rule yields_bind, rule yields_any)
  apply (rule yields_bind, rule yields_any)
  apply (rule yields_bind, rule yields_any)
  apply (rule yields_bind, rule yields_any)
  apply (rule yields_bind, rule yields_any)
  apply (rule yields_bind, rule yields_any)
  apply (rule yields_bind, rule yields_any)
  apply (rule yields_bind, rule yields_any)
  apply (rule yields_bind, rule yields_if, rule yields_any)
  apply (rule yields_bind, rule yields_if, rule yields_any)
  apply (rule yields_bind, rule yields_if, rule yields_large_file)
  apply (rule yields_bind, rule yields_exact)
  apply (rule yields_return)
  apply (auto simp: raw_header_ok_def check_signature_def bind_eq_Some_conv pred_option_def
      some_or_none_if_zero_def evlr_into_option_def word_gt_0 split: option.splits if_splits)
  done

lemma no_panic_header: "no_panic raw_header_read_from"
  unfolding raw_header_read_from_def evlr_read_from_def large_file_read_from_def
  by (intro safe) (simp add: check_signature_def)

section \<open>Properties\<close>

text \<open>
  C22. The raw header of any las version 1.0 to 1.4 survives the file: writing it advances the
  stream by the header size of its version plus its padding, and reading returns it.
\<close>

theorem raw_header_roundtrip:
  assumes "raw_header_ok h" "rh_version h \<in> set las_versions"
  shows "\<exists>c1. raw_header_write_to h c = (Ok (), c1) \<and>
     c_pos c1 = c_pos c + unat (version_header_size (rh_version h)) + length (rh_padding h) \<and>
     raw_header_read_from (c1\<lparr>c_pos := c_pos c\<rparr>) = (Ok h, c1)"
  using raw_header.round_trip [OF assms(1), of c] length_enc_header [OF assms] by auto

lemma raw_header_default_ok:
  "raw_header_ok raw_header_default" "rh_version raw_header_default \<in> set las_versions"
  by (simp_all add: raw_header_ok_def raw_header_default_def las_versions_def padding_len_def
      supports_simps)

theorem raw_header_roundtrip_witness:
  "\<exists>c1. raw_header_write_to raw_header_default \<lparr>c_data = [], c_pos = 0\<rparr> = (Ok (), c1) \<and>
     c_pos c1 = 227 \<and> raw_header_read_from (c1\<lparr>c_pos := 0\<rparr>) = (Ok raw_header_default, c1)"
  using raw_header_roundtrip [OF raw_header_default_ok, of "\<lparr>c_data = [], c_pos = 0\<rparr>"]
  by (simp add: raw_header_default_def version_header_size_simps)

text \<open>
  C23. Reading a header from arbitrary bytes does not panic; a header that is read is well
  formed, so that it can be written and read again; and four bytes other than the signature
  are refused with that error, whatever follows.
\<close>

theorem raw_header_read_safe:
  "fst (raw_header_read_from c) \<noteq> Panic \<and>
   (raw_header_read_from c = (Ok h, c') \<longrightarrow> raw_header_ok h) \<and>
   (4 \<le> remaining c \<and> take 4 (drop (c_pos c) (c_data c)) \<noteq> LASF \<longrightarrow>
      fst (raw_header_read_from c)
        = Err (InvalidFileSignature (take 4 (drop (c_pos c) (c_data c)))))"
proof -
  have "fst (raw_header_read_from c) \<noteq> Panic"
    using no_panic_header by (simp add: no_panic_def)
  moreover have "raw_header_read_from c = (Ok h, c') \<longrightarrow> raw_header_ok h"
    using yieldsD [OF yields_header] by blast
  moreover have "fst (raw_header_read_from c) = Err (InvalidFileSignature sig)"
    if "4 \<le> remaining c" "sig = take 4 (drop (c_pos c) (c_data c))" "sig \<noteq> LASF" for sig
  proof -
    have "read_exact 4 c = (Ok sig, c\<lparr>c_pos := c_pos c + 4\<rparr>)"
      using that(1,2) by (simp add: read_exact_def remaining_def)
    moreover have "check_signature sig = Err (InvalidFileSignature sig)"
      using that(3) by (simp add: check_signature_def)
    ultimately show ?thesis
      by (simp add: raw_header_read_from_def io_bind_def io_lift_def)
  qed
  ultimately show ?thesis by blast
qed

theorem raw_header_read_safe_witness:
  "fst (raw_header_read_from \<lparr>c_data = [0x4C, 0x41, 0x53, 0x00, 1], c_pos = 0\<rparr>)
     = Err (InvalidFileSignature [0x4C, 0x41, 0x53, 0x00])"
  using raw_header_read_safe [of "\<lparr>c_data = [0x4C, 0x41, 0x53, 0x00, 1], c_pos = 0\<rparr>"]
  by (simp add: remaining_def LASF_def)

lemma offset_to_end_of_points_val:
  "offset_to_end_of_points h =
     (let n = unat (rh_offset_to_point_data h)
              + unat (number_of_point_records h) * unat (rh_point_data_record_length h)
      in if n < 2 ^ 64 then Ok (word_of_nat n) else Panic)"
proof -
  define a where "a = number_of_point_records h"
  define l :: u64 where "l = ucast (rh_point_data_record_length h)"
  define b :: u64 where "b = ucast (rh_offset_to_point_data h)"
  have l: "unat l = unat (rh_point_data_record_length h)"
    and b: "unat b = unat (rh_offset_to_point_data h)"
    by (simp_all add: l_def b_def unat_ucast_up)
  have "b + a * l = word_of_nat (unat b + unat a * unat l)" by simp
  then show ?thesis
    by (auto simp: offset_to_end_of_points_def Let_def checked_mul_def checked_add_def unat_word_ariths
        simp flip: a_def l_def b_def l b)
qed

end
