(* ===== verification/Las_Header.thy ===== *)
theory Las_Header
  imports Las_Point Vlrs Raw_Header "HOL-Library.AList"
begin

text \<open>
  Headers and header builders (\<^verbatim>\<open>src/header/mod.rs\<close>, \<^verbatim>\<open>src/header/builder.rs\<close>).  What the
  crate takes from other crates is a record \<open>env\<close> of functions: calendar dates of
  \<^verbatim>\<open>chrono\<close>, identifiers of \<^verbatim>\<open>uuid\<close>, the cargo feature \<^verbatim>\<open>laz\<close>, the package version, and the size of a
  point in memory, which the compiler chooses.
  The map of point counts by return is an association list with distinct keys, in the
  iteration order of the hash map.
\<close>

section \<open>The environment\<close>

record ('d, 'u) env =
  env_from_yo_opt :: "int \<Rightarrow> nat \<Rightarrow> 'd option"
  env_ordinal :: "'d \<Rightarrow> nat"
  env_year :: "'d \<Rightarrow> int"
  env_today :: 'd
  env_uuid_as_bytes :: "'u \<Rightarrow> bytes"
  env_uuid_from_bytes :: "bytes \<Rightarrow> 'u"
  env_uuid_nil :: 'u
  env_laz :: bool
  env_pkg_version :: bytes
  env_point_size :: nat

text \<open>
  The documented behaviour of \<^verbatim>\<open>chrono\<close> and \<^verbatim>\<open>uuid\<close>: a date is determined by its year and
  its day of the year, which \<^verbatim>\<open>from_yo_opt\<close> turns back into the date, and the day is between
  1 and 366; an identifier is its sixteen bytes.
\<close>

definition chrono_laws :: "('d, 'u) env \<Rightarrow> bool" where
  "chrono_laws E \<longleftrightarrow>
     (\<forall>d. env_from_yo_opt E (env_year E d) (env_ordinal E d) = Some d \<and>
          1 \<le> env_ordinal E d \<and> env_ordinal E d \<le> 366) \<and>
     (\<forall>y. env_from_yo_opt E y 0 = None)"

definition uuid_laws :: "('d, 'u) env \<Rightarrow> bool" where
  "uuid_laws E \<longleftrightarrow>
     (\<forall>u. length (env_uuid_as_bytes E u) = 16 \<and> env_uuid_from_bytes E (env_uuid_as_bytes E u) = u)"

section \<open>Data\<close>

record ('d, 'u) header =
  h_bounds :: bounds
  h_date :: "'d option"
  h_evlrs :: "vlr list"
  h_file_source_id :: u16
  h_generating_software :: bytes
  h_gps_time_type :: gps_time_type
  h_guid :: 'u
  h_has_synthetic_return_numbers :: bool
  h_has_wkt_crs :: bool
  h_number_of_points :: u64
  h_number_of_points_by_return :: "(u8 \<times> u64) list"
  h_padding :: bytes
  h_point_format :: format
  h_point_padding :: bytes
  h_start_of_first_evlr :: "u64 option"
  h_system_identifier :: bytes
  h_transforms :: "transform vector"
  h_version :: version
  h_vlr_padding :: bytes
  h_vlrs :: "vlr list"

record ('d, 'u) builder =
  bl_date :: "'d option"
  bl_file_source_id :: u16
  bl_generating_software :: bytes
  bl_gps_time_type :: gps_time_type
  bl_guid :: 'u
  bl_has_synthetic_return_numbers :: bool
  bl_has_wkt_crs :: bool
  bl_padding :: bytes
  bl_point_format :: format
  bl_point_padding :: bytes
  bl_system_identifier :: bytes
  bl_transforms :: "transform vector"
  bl_version :: version
  bl_vlr_padding :: bytes
  bl_vlrs :: "vlr list"
  bl_evlrs :: "vlr list"
  bl_number_of_points_by_return :: "(u8 \<times> u64) list"
  bl_number_of_points :: u64
  bl_bounds :: bounds

definition POINT_DATA_START_SIGNATURE :: bytes where
  "POINT_DATA_START_SIGNATURE = [0xCC, 0xDD]"

section \<open>Builders\<close>

text \<open>
  \<^verbatim>\<open>number_of_points_hash_map\<close>: the counts that are not zero, by the return number.  The
  slices have 5 or 15 elements, so its assertion on the length holds.
\<close>

fun hash_map_from :: "nat \<Rightarrow> u64 list \<Rightarrow> (u8 \<times> u64) list" where
  "hash_map_from i [] = []"
| "hash_map_from i (n # ns) =
     (if 0 < n then [(word_of_nat i + 1, n)] else []) @ hash_map_from (Suc i) ns"

definition number_of_points_hash_map :: "u64 list \<Rightarrow> (u8 \<times> u64) list outcome" where
  "number_of_points_hash_map ns = (if length ns < 255 then Ok (hash_map_from 0 ns) else Panic)"

definition builder_number_of_points :: "raw_header \<Rightarrow> u64" where
  "builder_number_of_points raw =
     (if 0 < rh_number_of_point_records raw then ucast (rh_number_of_point_records raw)
      else case rh_large_file raw of Some l \<Rightarrow> lf_number_of_point_records l | None \<Rightarrow> 0)"

definition builder_points_by_return :: "raw_header \<Rightarrow> (u8 \<times> u64) list outcome" where
  "builder_points_by_return raw =
     (if list_ex (\<lambda>n. 0 < n) (rh_number_of_points_by_return raw)
      then number_of_points_hash_map (map ucast (rh_number_of_points_by_return raw))
      else case rh_large_file raw of
             Some l \<Rightarrow> number_of_points_hash_map (lf_number_of_points_by_return l)
           | None \<Rightarrow> Ok [])"

definition builder_point_format :: "raw_header \<Rightarrow> format outcome" where
  "builder_point_format raw =
     and_then (format_new (rh_point_data_record_format raw)) (\<lambda>f.
     and_then (format_len f) (\<lambda>n.
     if rh_point_data_record_length raw < n
     then Err (PointDataRecordLengthTooLarge f (rh_point_data_record_length raw))
     else if rh_point_data_record_length raw = n then Ok f
     else Ok (f\<lparr>extra_bytes := rh_point_data_record_length raw - n\<rparr>)))"

definition builder_new :: "('d, 'u) env \<Rightarrow> raw_header \<Rightarrow> ('d, 'u) builder outcome" where
  "builder_new E raw =
     and_then (builder_points_by_return raw) (\<lambda>by_return.
     and_then (builder_point_format raw) (\<lambda>point_format.
     Ok \<lparr>bl_date = env_from_yo_opt E (int (unat (rh_file_creation_year raw)))
           (unat (rh_file_creation_day_of_year raw)),
         bl_file_source_id = rh_file_source_id raw,
         bl_generating_software = as_las_string_lossy (rh_generating_software raw),
         bl_gps_time_type = gps_time_type_of_u16 (rh_global_encoding raw),
         bl_guid = env_uuid_from_bytes E (rh_guid raw),
         bl_has_synthetic_return_numbers = (rh_global_encoding raw AND 8 = 8),
         bl_has_wkt_crs = (rh_global_encoding raw AND 16 = 16),
         bl_padding = rh_padding raw, bl_point_format = point_format, bl_point_padding = [],
         bl_system_identifier = as_las_string_lossy (rh_system_identifier raw),
         bl_transforms =
           \<lparr>vx = \<lparr>scale = rh_x_scale_factor raw, offset = rh_x_offset raw\<rparr>,
            vy = \<lparr>scale = rh_y_scale_factor raw, offset = rh_y_offset raw\<rparr>,
            vz = \<lparr>scale = rh_z_scale_factor raw, offset = rh_z_offset raw\<rparr>\<rparr>,
         bl_version = rh_version raw, bl_vlr_padding = [], bl_vlrs = [], bl_evlrs = [],
         bl_number_of_points_by_return = by_return,
         bl_number_of_points = builder_number_of_points raw,
         bl_bounds =
           \<lparr>b_min = \<lparr>vx = rh_min_x raw, vy = rh_min_y raw, vz = rh_min_z raw\<rparr>,
            b_max = \<lparr>vx = rh_max_x raw, vy = rh_max_y raw, vz = rh_max_z raw\<rparr>\<rparr>\<rparr>))"

definition verify_if :: "bool \<Rightarrow> version \<Rightarrow> feature \<Rightarrow> unit outcome" where
  "verify_if b v f = (if b then verify_support_for v f else Ok ())"

definition signed_padding :: "version \<Rightarrow> bytes \<Rightarrow> bytes" where
  "signed_padding v p =
     (if requires_point_data_start_signature v \<and>
         (length p < 2 \<or> drop (length p - 2) p \<noteq> POINT_DATA_START_SIGNATURE)
      then p @ POINT_DATA_START_SIGNATURE else p)"

text \<open>The two loops that distribute the records over regular and extended ones.\<close>

fun place_evlrs :: "version \<Rightarrow> vlr list \<Rightarrow> vlr list \<times> vlr list \<Rightarrow> vlr list \<times> vlr list" where
  "place_evlrs v [] acc = acc"
| "place_evlrs v (e # es) (vlrs, evlrs) =
     (if supports v Evlrs \<or> has_large_data e then place_evlrs v es (vlrs, evlrs @ [e])
      else place_evlrs v es (vlrs @ [e], evlrs))"

fun place_vlrs :: "vlr list \<Rightarrow> vlr list \<times> vlr list \<Rightarrow> vlr list \<times> vlr list" where
  "place_vlrs [] acc = acc"
| "place_vlrs (x # xs) (vlrs, evlrs) =
     (if has_large_data x then place_vlrs xs (vlrs, evlrs @ [x])
      else place_vlrs xs (vlrs @ [x], evlrs))"

definition placed :: "('d, 'u) builder \<Rightarrow> vlr list \<times> vlr list" where
  "placed b = place_vlrs (bl_vlrs b) (place_evlrs (bl_version b) (bl_evlrs b) ([], []))"

definition check_evlrs :: "('d, 'u) builder \<Rightarrow> vlr list \<Rightarrow> unit outcome" where
  "check_evlrs b evlrs =
     (if evlrs \<noteq> [] then verify_support_for (bl_version b) Evlrs
      else if bl_point_padding b \<noteq> [] then Err PointPaddingNotAllowed
      else Ok ())"

definition built_header :: "('d, 'u) builder \<Rightarrow> vlr list \<Rightarrow> vlr list \<Rightarrow> ('d, 'u) header" where
  "built_header b vlrs evlrs =
     \<lparr>h_bounds = bl_bounds b, h_date = bl_date b, h_evlrs = evlrs,
      h_file_source_id = bl_file_source_id b,
      h_generating_software = bl_generating_software b,
      h_gps_time_type = bl_gps_time_type b, h_guid = bl_guid b,
      h_has_synthetic_return_numbers = bl_has_synthetic_return_numbers b,
      h_has_wkt_crs = (bl_has_wkt_crs b \<or> is_extended (bl_point_format b)),
      h_number_of_points = bl_number_of_points b,
      h_number_of_points_by_return = bl_number_of_points_by_return b,
      h_padding = bl_padding b, h_point_format = bl_point_format b,
      h_point_padding = bl_point_padding b, h_start_of_first_evlr = None,
      h_system_identifier = bl_system_identifier b, h_transforms = bl_transforms b,
      h_version = bl_version b,
      h_vlr_padding = signed_padding (bl_version b) (bl_vlr_padding b), h_vlrs = vlrs\<rparr>"

definition into_header :: "('d, 'u) builder \<Rightarrow> ('d, 'u) header outcome" where
  "into_header b =
     (let v = bl_version b in
      and_then (verify_if (bl_file_source_id b \<noteq> 0) v FileSourceId) (\<lambda>_.
      and_then (verify_if (bl_has_synthetic_return_numbers b) v SyntheticReturnNumbers) (\<lambda>_.
      and_then (verify_if (is_standard (bl_gps_time_type b)) v GpsStandardTime) (\<lambda>_.
      if \<not> supports_point_format v (bl_point_format b)
      then Err (UnsupportedFormat v (bl_point_format b))
      else case placed b of (vlrs, evlrs) \<Rightarrow>
      and_then (check_evlrs b evlrs) (\<lambda>_. Ok (built_header b vlrs evlrs))))))"

definition with_minor :: "('d, 'u) builder \<Rightarrow> u8 \<Rightarrow> ('d, 'u) builder" where
  "with_minor b m = b\<lparr>bl_version := Version (major (bl_version b)) m\<rparr>"

fun first_supported :: "('d, 'u) builder \<Rightarrow> u8 list \<Rightarrow> version option" where
  "first_supported b [] = None"
| "first_supported b (m # ms) =
     (if is_ok (into_header (with_minor b m)) then Some (Version 1 m) else first_supported b ms)"

definition minimum_supported_version :: "('d, 'u) builder \<Rightarrow> version option" where
  "minimum_supported_version b = first_supported b [0, 1, 2, 3, 4]"

definition builder_default :: "('d, 'u) env \<Rightarrow> ('d, 'u) builder" where
  "builder_default E =
     \<lparr>bl_date = None, bl_file_source_id = 0, bl_generating_software = [],
      bl_gps_time_type = Week, bl_guid = env_uuid_nil E,
      bl_has_synthetic_return_numbers = False, bl_has_wkt_crs = False, bl_padding = [],
      bl_point_format = format_default, bl_point_padding = [], bl_system_identifier = [],
      bl_transforms = vector_transform_default, bl_version = version_default,
      bl_vlr_padding = [], bl_vlrs = [], bl_evlrs = [], bl_number_of_points_by_return = [],
      bl_number_of_points = 0, bl_bounds = bounds_default\<rparr>"

definition builder_of_version :: "('d, 'u) env \<Rightarrow> version \<Rightarrow> ('d, 'u) builder" where
  "builder_of_version E v = (builder_default E)\<lparr>bl_version := v\<rparr>"

definition builder_of_header :: "('d, 'u) header \<Rightarrow> ('d, 'u) builder" where
  "builder_of_header h =
     \<lparr>bl_date = h_date h, bl_file_source_id = h_file_source_id h,
      bl_generating_software = h_generating_software h, bl_gps_time_type = h_gps_time_type h,
      bl_guid = h_guid h, bl_has_synthetic_return_numbers = h_has_synthetic_return_numbers h,
      bl_has_wkt_crs = h_has_wkt_crs h, bl_padding = h_padding h,
      bl_point_format = h_point_format h, bl_point_padding = h_point_padding h,
      bl_system_identifier = h_system_identifier h, bl_transforms = h_transforms h,
      bl_version = h_version h, bl_vlr_padding = h_vlr_padding h, bl_vlrs = h_vlrs h,
      bl_evlrs = h_evlrs h, bl_number_of_points_by_return = h_number_of_points_by_return h,
      bl_number_of_points = h_number_of_points h, bl_bounds = h_bounds h\<rparr>"

section \<open>Headers\<close>

definition u32_MAX :: nat where "u32_MAX = 4294967295"

definition header_default :: "('d, 'u) env \<Rightarrow> ('d, 'u) header" where
  "header_default E =
     \<lparr>h_bounds = bounds_default, h_date = Some (env_today E), h_evlrs = [], h_file_source_id = 0,
      h_generating_software = [0x6C, 0x61, 0x73, 0x2D, 0x72, 0x73, 0x20] @ env_pkg_version E,
      h_gps_time_type = Week, h_guid = env_uuid_nil E, h_has_synthetic_return_numbers = False,
      h_has_wkt_crs = False, h_number_of_points = 0, h_number_of_points_by_return = [],
      h_padding = [], h_point_format = format_default, h_point_padding = [],
      h_start_of_first_evlr = None,
      h_system_identifier = [0x6C, 0x61, 0x73, 0x2D, 0x72, 0x73],
      h_transforms = vector_transform_default, h_version = version_default,
      h_vlr_padding = [], h_vlrs = []\<rparr>"

definition header_from_raw :: "('d, 'u) env \<Rightarrow> raw_header \<Rightarrow> ('d, 'u) header outcome" where
  "header_from_raw E raw = and_then (builder_new E raw) into_header"

definition header_of_version :: "('d, 'u) env \<Rightarrow> version \<Rightarrow> ('d, 'u) header outcome" where
  "header_of_version E v = expect (into_header (builder_of_version E v))"

definition clear :: "('d, 'u) header \<Rightarrow> ('d, 'u) header" where
  "clear h = h\<lparr>h_number_of_points := 0, h_number_of_points_by_return := [],
               h_bounds := bounds_default\<rparr>"

text \<open>\<^verbatim>\<open>*entry += 1\<close> on the count of a return: absent counts start at zero.\<close>

definition count_return :: "(u8 \<times> u64) list \<Rightarrow> u8 \<Rightarrow> (u8 \<times> u64) list outcome" where
  "count_return m r =
     and_then (checked_add (unwrap_or (map_of m r) 0) 1) (\<lambda>n. Ok (AList.update r n m))"

definition add_point :: "('d, 'u) header \<Rightarrow> point \<Rightarrow> ('d, 'u) header outcome" where
  "add_point h p =
     and_then (checked_add (h_number_of_points h) 1) (\<lambda>n.
     and_then (if 0 < pt_return_number p
               then count_return (h_number_of_points_by_return h) (pt_return_number p)
               else Ok (h_number_of_points_by_return h)) (\<lambda>m.
     Ok (h\<lparr>h_number_of_points := n, h_number_of_points_by_return := m,
           h_bounds := grow (h_bounds h) p\<rparr>)))"

definition number_of_points_by_return :: "('d, 'u) header \<Rightarrow> u8 \<Rightarrow> u64 option" where
  "number_of_points_by_return h n = map_of (h_number_of_points_by_return h) n"

definition all_vlrs :: "('d, 'u) header \<Rightarrow> vlr list" where
  "all_vlrs h = h_vlrs h @ h_evlrs h"

definition has_crs_vlrs :: "('d, 'u) header \<Rightarrow> bool" where
  "has_crs_vlrs h = list_ex is_projection (all_vlrs h)"

definition set_start_of_first_evlr :: "('d, 'u) header \<Rightarrow> u64 \<Rightarrow> ('d, 'u) header" where
  "set_start_of_first_evlr h n = h\<lparr>h_start_of_first_evlr := Some n\<rparr>"

definition global_encoding :: "('d, 'u) header \<Rightarrow> u16" where
  "global_encoding h =
     u16_of_gps_time_type (h_gps_time_type h)
     OR (if h_has_synthetic_return_numbers h then 8 else 0)
     OR (if h_has_wkt_crs h \<or> is_extended (h_point_format h) then 16 else 0)"

definition system_identifier_raw :: "('d, 'u) header \<Rightarrow> bytes outcome" where
  "system_identifier_raw h = from_las_str (replicate 32 0) (h_system_identifier h)"

definition generating_software_raw :: "('d, 'u) header \<Rightarrow> bytes outcome" where
  "generating_software_raw h = from_las_str (replicate 32 0) (h_generating_software h)"

definition header_size :: "('d, 'u) header \<Rightarrow> u16 outcome" where
  "header_size h =
     (let n = unat (version_header_size (h_version h)) + length (h_padding h)
      in if u16_MAX < n then Err (HeaderTooLarge n) else Ok (word_of_nat n))"

definition offset_to_point_data :: "('d, 'u) header \<Rightarrow> u32 outcome" where
  "offset_to_point_data h =
     and_then (header_size h) (\<lambda>size.
     let n = unat size + fold (\<lambda>v acc. acc + vlr_len v False) (h_vlrs h) 0 + length (h_vlr_padding h)
     in if u32_MAX < n then Err (OffsetToPointDataTooLarge n) else Ok (word_of_nat n))"

definition number_of_variable_length_records :: "('d, 'u) header \<Rightarrow> u32 outcome" where
  "number_of_variable_length_records h =
     (let n = length (h_vlrs h)
      in if u32_MAX < n then Err (TooManyVlrs n) else Ok (word_of_nat n))"

definition number_of_points_raw :: "('d, 'u) header \<Rightarrow> u32 outcome" where
  "number_of_points_raw h =
     (if u32_MAX < unat (h_number_of_points h)
      then if supports (h_version h) LargeFiles then Ok 0
           else Err (TooManyPoints (h_number_of_points h) (h_version h))
      else Ok (ucast (h_number_of_points h)))"

fun by_return_loop :: "version \<Rightarrow> (u8 \<times> u64) list \<Rightarrow> u32 list \<Rightarrow> u32 list outcome" where
  "by_return_loop v [] a = Ok a"
| "by_return_loop v ((i, n) # m) a =
     (if 5 < i then
        (if \<not> supports v LargeFiles then Err (ReturnNumber i (Some v)) else by_return_loop v m a)
      else if 0 < i then
        (if u32_MAX < unat n
         then (if \<not> supports v LargeFiles then Err (TooManyPoints n v) else by_return_loop v m a)
         else by_return_loop v m (a[unat i - 1 := ucast n]))
      else by_return_loop v m a)"

definition number_of_points_by_return_raw :: "('d, 'u) header \<Rightarrow> u32 list outcome" where
  "number_of_points_by_return_raw h =
     by_return_loop (h_version h) (h_number_of_points_by_return h) (replicate 5 0)"

fun large_file_loop :: "version \<Rightarrow> (u8 \<times> u64) list \<Rightarrow> u64 list \<Rightarrow> u64 list outcome" where
  "large_file_loop v [] a = Ok a"
| "large_file_loop v ((i, n) # m) a =
     (if 15 < i then Err (ReturnNumber i (Some v))
      else if 0 < i then large_file_loop v m (a[unat i - 1 := n])
      else large_file_loop v m a)"

definition header_large_file :: "('d, 'u) header \<Rightarrow> large_file option outcome" where
  "header_large_file h =
     and_then (large_file_loop (h_version h) (h_number_of_points_by_return h) (replicate 15 0)) (\<lambda>a.
     Ok (Some \<lparr>lf_number_of_point_records = h_number_of_points h,
               lf_number_of_points_by_return = a\<rparr>))"

definition point_data_len :: "('d, 'u) header \<Rightarrow> u64 outcome" where
  "point_data_len h =
     and_then (format_len (h_point_format h)) (\<lambda>l. checked_mul (h_number_of_points h) (ucast l))"

definition header_evlr :: "('d, 'u) header \<Rightarrow> evlr_info option outcome" where
  "header_evlr h =
     (let n = length (h_evlrs h) in
      if n = 0 then Ok None
      else if u32_MAX < n then Err (TooManyEvlrs n)
      else and_then
        (case h_start_of_first_evlr h of
           Some s \<Rightarrow> Ok s
         | None \<Rightarrow>
             and_then (point_data_len h) (\<lambda>len.
             and_then (checked_add len (word_of_nat (length (h_point_padding h)))) (\<lambda>s.
             and_then (offset_to_point_data h) (\<lambda>off. checked_add s (ucast off)))))
        (\<lambda>s. Ok (Some \<lparr>start_of_first_evlr = s, number_of_evlrs = word_of_nat n\<rparr>)))"

definition header_into_raw :: "('d, 'u) env \<Rightarrow> ('d, 'u) header \<Rightarrow> raw_header outcome" where
  "header_into_raw E h =
     and_then (adapt (h_bounds h) (h_transforms h)) (\<lambda>bounds.
     and_then (system_identifier_raw h) (\<lambda>system.
     and_then (generating_software_raw h) (\<lambda>software.
     and_then (header_size h) (\<lambda>hsize.
     and_then (offset_to_point_data h) (\<lambda>off.
     and_then (number_of_variable_length_records h) (\<lambda>vlrs.
     and_then (to_writable_u8 (env_laz E) (h_point_format h)) (\<lambda>fmt.
     and_then (format_len (h_point_format h)) (\<lambda>len.
     and_then (number_of_points_raw h) (\<lambda>points.
     and_then (number_of_points_by_return_raw h) (\<lambda>by_return.
     and_then (header_evlr h) (\<lambda>evlr.
     and_then (header_large_file h) (\<lambda>large.
     Ok \<lparr>rh_file_signature = LASF, rh_file_source_id = h_file_source_id h,
         rh_global_encoding = global_encoding h, rh_guid = env_uuid_as_bytes E (h_guid h),
         rh_version = h_version h, rh_system_identifier = system,
         rh_generating_software = software,
         rh_file_creation_day_of_year =
           (case h_date h of Some d \<Rightarrow> word_of_nat (env_ordinal E d) | None \<Rightarrow> 0),
         rh_file_creation_year =
           (case h_date h of Some d \<Rightarrow> word_of_int (env_year E d) | None \<Rightarrow> 0),
         rh_header_size = hsize, rh_offset_to_point_data = off,
         rh_number_of_variable_length_records = vlrs, rh_point_data_record_format = fmt,
         rh_point_data_record_length = len, rh_number_of_point_records = points,
         rh_number_of_points_by_return = by_return,
         rh_x_scale_factor = scale (vx (h_transforms h)),
         rh_y_scale_factor = scale (vy (h_transforms h)),
         rh_z_scale_factor = scale (vz (h_transforms h)),
         rh_x_offset = offset (vx (h_transforms h)), rh_y_offset = offset (vy (h_transforms h)),
         rh_z_offset = offset (vz (h_transforms h)),
         rh_max_x = vx (b_max bounds), rh_min_x = vx (b_min bounds),
         rh_max_y = vy (b_max bounds), rh_min_y = vy (b_min bounds),
         rh_max_z = vz (b_max bounds), rh_min_z = vz (b_min bounds),
         rh_start_of_waveform_data_packet_record = None, rh_evlr = evlr,
         rh_large_file = large, rh_padding = h_padding h\<rparr>))))))))))))"

definition write_vlr :: "bool \<Rightarrow> vlr \<Rightarrow> writer" where
  "write_vlr extended v = io_bind (io_lift (vlr_into_raw v extended)) raw_vlr_write_to"

definition header_write_to :: "('d, 'u) env \<Rightarrow> ('d, 'u) header \<Rightarrow> writer" where
  "header_write_to E h =
     io_bind (io_bind (io_lift (header_into_raw E h)) raw_header_write_to) (\<lambda>_.
     io_bind (io_each (write_vlr False) (h_vlrs h)) (\<lambda>_.
     write_all (h_vlr_padding h)))"

section \<open>Reading a header with its records\<close>

definition read_vlr :: "bool \<Rightarrow> vlr reader" where
  "read_vlr extended = io_bind (raw_vlr_read_from extended) (\<lambda>raw. io_return (vlr_new raw))"

definition read_vlr_padding :: "nat \<Rightarrow> u32 \<Rightarrow> bytes reader" where
  "read_vlr_padding position off =
     (if position < unat off then read_up_to (unat off - position)
      else if position = unat off then io_return []
      else io_lift (Err (OffsetToPointDataTooSmall off)))"

definition read_point_padding :: "format \<Rightarrow> u64 \<Rightarrow> u64 \<Rightarrow> bytes reader" where
  "read_point_padding f start end_of_points =
     (if is_compressed f then io_return []
      else if start < end_of_points then io_lift (Err (OffsetToEvlrsTooSmall start))
      else if start = end_of_points then io_return []
      else read_up_to (unat (start - end_of_points)))"

definition read_evlr ::
  "('d, 'u) builder \<Rightarrow> u64 \<Rightarrow> evlr_info option \<Rightarrow> ('d, 'u) builder reader" where
  "read_evlr b end_of_points evlr =
     (case evlr of
        None \<Rightarrow> io_return b
      | Some e \<Rightarrow>
          io_bind (read_point_padding (bl_point_format b) (start_of_first_evlr e) end_of_points) (\<lambda>pad.
          io_bind (seek_start (unat (start_of_first_evlr e))) (\<lambda>_.
          io_bind (read_vlr True) (\<lambda>v.
          io_return (b\<lparr>bl_point_padding := pad, bl_evlrs := bl_evlrs b @ [v]\<rparr>)))))"

definition upgraded :: "('d, 'u) builder \<Rightarrow> ('d, 'u) builder" where
  "upgraded b =
     (case minimum_supported_version b of
        Some v \<Rightarrow> if bl_version b < v then b\<lparr>bl_version := v\<rparr> else b
      | None \<Rightarrow> b)"

definition header_new :: "('d, 'u) env \<Rightarrow> ('d, 'u) header reader" where
  "header_new E =
     io_bind raw_header_read_from (\<lambda>raw.
     io_bind (io_lift (offset_to_end_of_points raw)) (\<lambda>end_of_points.
     io_bind (io_lift (builder_new E raw)) (\<lambda>b.
     io_bind (io_times (unat (rh_number_of_variable_length_records raw)) (read_vlr False)) (\<lambda>vlrs.
     io_bind (read_vlr_padding
       (unat (rh_header_size raw) + sum_list (map (\<lambda>v. vlr_len v False) vlrs))
       (rh_offset_to_point_data raw)) (\<lambda>vlr_padding.
     io_bind (seek_start (unat end_of_points)) (\<lambda>_.
     io_bind (read_evlr (b\<lparr>bl_vlrs := vlrs, bl_vlr_padding := vlr_padding\<rparr>) end_of_points
       (rh_evlr raw)) (\<lambda>b.
     io_bind (seek_start (unat (rh_offset_to_point_data raw))) (\<lambda>_.
     io_lift (into_header (upgraded b))))))))))"

section \<open>Facts about builders\<close>

lemma place_evlrs_eq:
  "place_evlrs v es (a, b) =
     (a @ filter (\<lambda>e. \<not> (supports v Evlrs \<or> has_large_data e)) es,
      b @ filter (\<lambda>e. supports v Evlrs \<or> has_large_data e) es)"
  by (induction es arbitrary: a b) auto

lemma place_vlrs_eq:
  "place_vlrs xs (a, b) =
     (a @ filter (\<lambda>e. \<not> has_large_data e) xs, b @ filter has_large_data xs)"
  by (induction xs arbitrary: a b) auto

lemma placed_eq:
  "placed b =
     (filter (\<lambda>e. \<not> (supports (bl_version b) Evlrs \<or> has_large_data e)) (bl_evlrs b)
        @ filter (\<lambda>e. \<not> has_large_data e) (bl_vlrs b),
      filter (\<lambda>e. supports (bl_version b) Evlrs \<or> has_large_data e) (bl_evlrs b)
        @ filter has_large_data (bl_vlrs b))"
  by (simp add: placed_def place_evlrs_eq place_vlrs_eq)

lemma signed_padding_idem: "signed_padding v (signed_padding v p) = signed_padding v p"
  by (auto simp: signed_padding_def POINT_DATA_START_SIGNATURE_def)

lemma verify_if_cases: "verify_if b v f = (if b \<longrightarrow> supports v f then Ok () else Err (UnsupportedFeature v (feature_name f)))"
  by (simp add: verify_if_def verify_support_for_def)

text \<open>The headers that a builder can build.\<close>

definition header_inv :: "('d, 'u) header \<Rightarrow> bool" where
  "header_inv h \<longleftrightarrow>
     (h_file_source_id h \<noteq> 0 \<longrightarrow> supports (h_version h) FileSourceId) \<and>
     (h_has_synthetic_return_numbers h \<longrightarrow> supports (h_version h) SyntheticReturnNumbers) \<and>
     (is_standard (h_gps_time_type h) \<longrightarrow> supports (h_version h) GpsStandardTime) \<and>
     supports_point_format (h_version h) (h_point_format h) \<and>
     (\<forall>v \<in> set (h_vlrs h). \<not> has_large_data v) \<and>
     (h_evlrs h \<noteq> [] \<longrightarrow> supports (h_version h) Evlrs) \<and>
     (h_point_padding h \<noteq> [] \<longrightarrow> h_evlrs h \<noteq> []) \<and>
     signed_padding (h_version h) (h_vlr_padding h) = h_vlr_padding h \<and>
     (is_extended (h_point_format h) \<longrightarrow> h_has_wkt_crs h)"

text \<open>Which builders can be built.\<close>

definition buildable :: "('d, 'u) builder \<Rightarrow> bool" where
  "buildable b \<longleftrightarrow>
     (bl_file_source_id b \<noteq> 0 \<longrightarrow> supports (bl_version b) FileSourceId) \<and>
     (bl_has_synthetic_return_numbers b \<longrightarrow> supports (bl_version b) SyntheticReturnNumbers) \<and>
     (is_standard (bl_gps_time_type b) \<longrightarrow> supports (bl_version b) GpsStandardTime) \<and>
     supports_point_format (bl_version b) (bl_point_format b) \<and>
     (if snd (placed b) \<noteq> [] then supports (bl_version b) Evlrs else bl_point_padding b = [])"

lemma into_header_cases:
  "if buildable b then into_header b = Ok (built_header b (fst (placed b)) (snd (placed b)))
   else \<exists>e. into_header b = Err e"
  by (cases "placed b") (auto simp: into_header_def Let_def verify_if_cases check_evlrs_def
      verify_support_for_def buildable_def)

lemma into_header_Ok:
  "into_header b = Ok h \<longleftrightarrow> buildable b \<and> h = built_header b (fst (placed b)) (snd (placed b))"
  using into_header_cases [of b] by (auto split: if_splits)

lemma is_ok_into_header: "is_ok (into_header b) \<longleftrightarrow> buildable b"
  by (auto simp: is_ok_iff into_header_Ok)

lemma built_header_inv: "buildable b \<Longrightarrow> header_inv (built_header b (fst (placed b)) (snd (placed b)))"
  unfolding header_inv_def built_header_def buildable_def header.simps signed_padding_idem
  by (auto simp: placed_eq split: if_splits)

lemma into_header_of_header:
  assumes "header_inv h"
  shows "into_header (builder_of_header h) = Ok (h\<lparr>h_start_of_first_evlr := None\<rparr>)"
proof -
  have p: "placed (builder_of_header h) = (h_vlrs h, h_evlrs h)"
    using assms by (cases "h_evlrs h")
      (simp_all add: placed_eq builder_of_header_def header_inv_def filter_id_conv filter_empty_conv)
  then have "buildable (builder_of_header h)"
    using assms unfolding buildable_def p by (auto simp: builder_of_header_def header_inv_def)
  moreover have "built_header (builder_of_header h) (h_vlrs h) (h_evlrs h)
      = h\<lparr>h_start_of_first_evlr := None\<rparr>"
    using assms by (intro header.equality)
      (simp_all add: built_header_def builder_of_header_def header_inv_def, blast)
  ultimately show ?thesis using p by (simp add: into_header_Ok)
qed

lemma first_supported_find:
  "first_supported b ms = map_option (Version 1) (find (\<lambda>m. buildable (with_minor b m)) ms)"
  by (induction ms) (simp_all add: is_ok_into_header)

lemma minors_upt: "[0, 1, 2, 3, 4 :: u8] = map word_of_nat [0..<5]"
  by (simp add: upt_rec [of _ 5])

lemma minimum_supported_version_Some:
  "minimum_supported_version b = Some v \<longleftrightarrow>
     (\<exists>i < 5. v = Version 1 (word_of_nat i) \<and> buildable (with_minor b (word_of_nat i)) \<and>
        (\<forall>j < i. \<not> buildable (with_minor b (word_of_nat j))))"
  unfolding minimum_supported_version_def first_supported_find minors_upt
    map_option_eq_Some find_upt_Some by blast

lemma minimum_supported_version_None:
  "minimum_supported_version b = None \<longleftrightarrow> (\<forall>i < 5. \<not> buildable (with_minor b (word_of_nat i)))"
  unfolding minimum_supported_version_def first_supported_find minors_upt
    option.map_disc_iff find_upt_None ..

text \<open>A builder of a version that can be built is not upgraded.\<close>

lemma upgraded_buildable:
  assumes "buildable b"
  shows "upgraded b = b"
proof (cases "minimum_supported_version b")
  case (Some v)
  then obtain i where i: "i < 5" "v = Version 1 (word_of_nat i)"
    and least: "\<And>j. j < i \<Longrightarrow> \<not> buildable (with_minor b (word_of_nat j))"
    by (auto simp: minimum_supported_version_Some)
  have major: "major (bl_version b) = 1" and minor: "minor (bl_version b) \<le> 4"
    using assms by (auto simp: buildable_def supports_point_format_def split: if_splits)
  define k where "k = unat (minor (bl_version b))"
  have "with_minor b (word_of_nat k) = b" by (simp add: with_minor_def k_def)
  then have "i \<le> k" using least [of k] assms by (metis not_le)
  then have "word_of_nat i \<le> minor (bl_version b)"
    using i(1) minor by (simp add: word_le_nat_alt unat_of_nat k_def)
  then have "\<not> bl_version b < v" using major i(2) by (simp add: less_version_def not_less)
  with Some show ?thesis by (simp add: upgraded_def)
qed (simp add: upgraded_def)

section \<open>A header through its raw form\<close>

lemma from_las_str_zerosD:
  assumes "from_las_str (replicate n 0) s = Ok buf"
  shows "length s \<le> n" "buf = s @ replicate (n - length s) 0" "length buf = n"
  using assms by (auto simp: from_las_str_def split: if_splits)

lemma header_into_raw_fields:
  assumes "header_into_raw E h = Ok raw"
  shows "rh_file_signature raw = LASF" "rh_file_source_id raw = h_file_source_id h"
    "rh_global_encoding raw = global_encoding h" "rh_guid raw = env_uuid_as_bytes E (h_guid h)"
    "rh_version raw = h_version h" "system_identifier_raw h = Ok (rh_system_identifier raw)"
    "generating_software_raw h = Ok (rh_generating_software raw)"
    "header_size h = Ok (rh_header_size raw)"
    "offset_to_point_data h = Ok (rh_offset_to_point_data raw)"
    "number_of_variable_length_records h = Ok (rh_number_of_variable_length_records raw)"
    "to_writable_u8 (env_laz E) (h_point_format h) = Ok (rh_point_data_record_format raw)"
    "format_len (h_point_format h) = Ok (rh_point_data_record_length raw)"
    "number_of_points_raw h = Ok (rh_number_of_point_records raw)"
    "number_of_points_by_return_raw h = Ok (rh_number_of_points_by_return raw)"
    "header_evlr h = Ok (rh_evlr raw)" "header_large_file h = Ok (rh_large_file raw)"
    "rh_padding raw = h_padding h" "rh_start_of_waveform_data_packet_record raw = None"
  using assms by (auto simp: header_into_raw_def)

lemma header_into_raw_transforms:
  assumes "header_into_raw E h = Ok raw"
  shows "\<lparr>vx = \<lparr>scale = rh_x_scale_factor raw, offset = rh_x_offset raw\<rparr>,
          vy = \<lparr>scale = rh_y_scale_factor raw, offset = rh_y_offset raw\<rparr>,
          vz = \<lparr>scale = rh_z_scale_factor raw, offset = rh_z_offset raw\<rparr>\<rparr> = h_transforms h"
    "adapt (h_bounds h) (h_transforms h) =
       Ok \<lparr>b_min = \<lparr>vx = rh_min_x raw, vy = rh_min_y raw, vz = rh_min_z raw\<rparr>,
           b_max = \<lparr>vx = rh_max_x raw, vy = rh_max_y raw, vz = rh_max_z raw\<rparr>\<rparr>"
    "rh_file_creation_day_of_year raw =
       (case h_date h of Some d \<Rightarrow> word_of_nat (env_ordinal E d) | None \<Rightarrow> 0)"
    "rh_file_creation_year raw =
       (case h_date h of Some d \<Rightarrow> word_of_int (env_year E d) | None \<Rightarrow> 0)"
  using assms by (auto simp: header_into_raw_def)

lemma by_return_loop_length:
  "by_return_loop v m a = Ok a' \<Longrightarrow> length a' = length a"
  by (induction v m a rule: by_return_loop.induct) (auto split: if_splits)

lemma large_file_loop_length:
  "large_file_loop v m a = Ok a' \<Longrightarrow> length a' = length a"
  by (induction v m a rule: large_file_loop.induct) (auto split: if_splits)

lemma header_large_file_Ok:
  assumes "header_large_file h = Ok x"
  obtains a where
    "x = Some \<lparr>lf_number_of_point_records = h_number_of_points h, lf_number_of_points_by_return = a\<rparr>"
    "large_file_loop (h_version h) (h_number_of_points_by_return h) (replicate 15 0) = Ok a"
    "length a = 15"
proof -
  from assms obtain a where
    "large_file_loop (h_version h) (h_number_of_points_by_return h) (replicate 15 0) = Ok a"
    "x = Some \<lparr>lf_number_of_point_records = h_number_of_points h, lf_number_of_points_by_return = a\<rparr>"
    by (auto simp: header_large_file_def)
  then show thesis using that [of a] large_file_loop_length by fastforce
qed

text \<open>What the header block keeps: the fields of large files only when the version has them.\<close>

definition stored_header :: "raw_header \<Rightarrow> raw_header" where
  "stored_header raw =
     raw\<lparr>rh_large_file := (if supports (rh_version raw) LargeFiles then rh_large_file raw else None)\<rparr>"

lemma enc_stored_header: "enc_header (stored_header raw) = enc_header raw"
  by (simp add: stored_header_def enc_header_def enc_header_head_def keep_if_def)

lemma header_size_Ok:
  assumes "header_size h = Ok s"
  shows "unat s = unat (version_header_size (h_version h)) + length (h_padding h)"
proof -
  define n where "n = unat (version_header_size (h_version h)) + length (h_padding h)"
  have "n \<le> 65535" "s = word_of_nat n"
    using assms by (auto simp: header_size_def Let_def u16_MAX_def simp flip: n_def split: if_splits)
  then show ?thesis by (simp add: unat_of_nat flip: n_def)
qed

lemma padding_len_header_size:
  assumes "header_size h = Ok s"
  shows "padding_len s (h_version h) = length (h_padding h)"
  using header_size_Ok [OF assms]
  by (auto simp: padding_len_def word_less_nat_alt word_le_nat_alt unat_sub)

lemma unat_of_nat_eq: "n < 2 ^ LENGTH('a::len) \<Longrightarrow> unat (word_of_nat n :: 'a word) = n"
  by (simp add: unat_of_nat)

lemma fold_sum_list: "fold (\<lambda>v acc. acc + f v) xs (k :: nat) = k + sum_list (map f xs)"
  by (induction xs arbitrary: k) auto

lemma offset_to_point_data_Ok:
  assumes "offset_to_point_data h = Ok off"
  shows "unat off = unat (version_header_size (h_version h)) + length (h_padding h)
     + sum_list (map (\<lambda>v. vlr_len v False) (h_vlrs h)) + length (h_vlr_padding h)"
proof -
  obtain s where s: "header_size h = Ok s" using assms by (auto simp: offset_to_point_data_def)
  define n where "n = unat s + fold (\<lambda>v acc. acc + vlr_len v False) (h_vlrs h) 0 + length (h_vlr_padding h)"
  have "n \<le> 4294967295" "off = word_of_nat n"
    using assms s
    by (auto simp: offset_to_point_data_def Let_def u32_MAX_def simp flip: n_def split: if_splits)
  then have "unat off = n" by (simp add: unat_of_nat)
  then show ?thesis by (simp add: n_def fold_sum_list header_size_Ok [OF s])
qed

lemma version_header_size_pos: "0 < unat (version_header_size v)"
  by (simp add: version_header_size_def)

lemma header_evlr_Ok:
  assumes "header_evlr h = Ok (Some e)" "h_start_of_first_evlr h \<noteq> Some 0"
  shows "start_of_first_evlr e \<noteq> 0 \<and> unat (number_of_evlrs e) = length (h_evlrs h) \<and> h_evlrs h \<noteq> []"
proof -
  have n: "h_evlrs h \<noteq> []" "length (h_evlrs h) \<le> u32_MAX"
    "number_of_evlrs e = word_of_nat (length (h_evlrs h))"
    using assms by (auto simp: header_evlr_def Let_def split: if_splits)
  have "start_of_first_evlr e \<noteq> 0"
  proof (cases "h_start_of_first_evlr h")
    case (Some s)
    then show ?thesis using assms n by (auto simp: header_evlr_def Let_def split: if_splits)
  next
    case None
    then obtain len s off where s: "offset_to_point_data h = Ok off"
      "checked_add s (ucast off) = Ok (start_of_first_evlr e)" "checked_add len s = checked_add len s"
      using assms n by (auto simp: header_evlr_def Let_def split: if_splits)
    have "0 < unat off"
      using offset_to_point_data_Ok [OF s(1)] version_header_size_pos [of "h_version h"] by linarith
    then have "0 < unat (start_of_first_evlr e)"
      using checked_add_eq_Ok [OF s(2)] by (simp add: unat_ucast_up)
    then show ?thesis by auto
  qed
  with n show ?thesis by (simp add: u32_MAX_def unat_of_nat)
qed

lemma header_evlr_None: "header_evlr h = Ok x \<Longrightarrow> x = None \<longleftrightarrow> h_evlrs h = []"
  by (auto simp: header_evlr_def Let_def split: if_splits)

lemma stored_header_ok:
  assumes raw: "header_into_raw E h = Ok raw" and inv: "header_inv h" and "uuid_laws E"
    and start: "h_start_of_first_evlr h \<noteq> Some 0"
  shows "raw_header_ok (stored_header raw)"
proof -
  note f = header_into_raw_fields [OF raw]
  have "length (rh_system_identifier raw) = 32" "length (rh_generating_software raw) = 32"
    using f(6,7) unfolding system_identifier_raw_def generating_software_raw_def
    by (auto dest: from_las_str_zerosD)
  moreover have "length (rh_number_of_points_by_return raw) = 5"
    using f(14) by (auto simp: number_of_points_by_return_raw_def dest: by_return_loop_length)
  moreover have "\<exists>l. rh_large_file raw = Some l \<and> length (lf_number_of_points_by_return l) = 15"
    using f(16) by (rule header_large_file_Ok) auto
  moreover have "case rh_evlr raw of
      Some e \<Rightarrow> start_of_first_evlr e \<noteq> 0 \<and> number_of_evlrs e \<noteq> 0 \<and> supports (h_version h) Evlrs
    | None \<Rightarrow> True"
  proof (cases "rh_evlr raw")
    case (Some e)
    from header_evlr_Ok [OF f(15) [unfolded Some] start] inv Some show ?thesis
      by (auto simp: header_inv_def)
  qed simp
  moreover have "length (rh_padding raw) = padding_len (rh_header_size raw) (rh_version raw)"
    using padding_len_header_size [OF f(8)] by (simp add: f)
  ultimately show ?thesis
    using f(1,4,5,18) assms(3)
    by (auto simp: raw_header_ok_def stored_header_def uuid_laws_def split: option.splits)
qed

lemma number_of_points_stored:
  assumes raw: "header_into_raw E h = Ok raw"
  shows "builder_number_of_points (stored_header raw) = h_number_of_points h"
proof -
  note f = header_into_raw_fields [OF raw]
  obtain l where l: "rh_large_file raw = Some l" "lf_number_of_point_records l = h_number_of_points h"
    using f(16) by (rule header_large_file_Ok) auto
  show ?thesis
  proof (cases "u32_MAX < unat (h_number_of_points h)")
    case True
    then have "rh_number_of_point_records raw = 0" "supports (h_version h) LargeFiles"
      using f(13) by (auto simp: number_of_points_raw_def split: if_splits)
    then show ?thesis using l f(5) by (simp add: builder_number_of_points_def stored_header_def)
  next
    case False
    then have n: "rh_number_of_point_records raw = ucast (h_number_of_points h)"
      using f(13) by (simp add: number_of_points_raw_def)
    have "unat (h_number_of_points h) < 2 ^ 32" using False by (simp add: u32_MAX_def)
    then have "ucast (ucast (h_number_of_points h) :: u32) = h_number_of_points h"
      by (simp add: word_unat_eq_iff unsigned_ucast_eq unsigned_take_bit_eq take_bit_nat_eq_self)
    with n l show ?thesis
      by (auto simp: builder_number_of_points_def stored_header_def word_gt_0)
  qed
qed

lemma point_format_stored:
  assumes raw: "header_into_raw E h = Ok raw"
  shows "builder_point_format (stored_header raw) = Ok (h_point_format h)"
proof -
  note f = header_into_raw_fields [OF raw]
  let ?f = "h_point_format h" and ?l = "rh_point_data_record_length raw"
  note len = format_len_OkD [OF f(12)]
  have short: "record_len (?f\<lparr>extra_bytes := 0\<rparr>) + unat (extra_bytes ?f) = record_len ?f"
    by (simp add: record_len_def)
  have "record_len (?f\<lparr>extra_bytes := 0\<rparr>) < 65536" by (simp add: record_len_def)
  then obtain n where n: "format_len (?f\<lparr>extra_bytes := 0\<rparr>) = Ok n"
    by (simp add: format_len_eq)
  have un: "unat n + unat (extra_bytes ?f) = unat ?l" using format_len_OkD [OF n] short len by simp
  then have "?l - n = extra_bytes ?f"
    by (simp add: word_unat_eq_iff unat_sub word_le_nat_alt)
  moreover have "\<not> ?l < n" using un by (simp add: word_less_nat_alt)
  moreover have "?l = n \<longleftrightarrow> extra_bytes ?f = 0" using un by (auto simp: word_unat_eq_iff)
  ultimately show ?thesis
    using n format_new_to_writable [OF f(11)]
    by (auto simp: builder_point_format_def stored_header_def)
qed

lemma global_encoding_bits:
  "gps_time_type_of_u16 (global_encoding h) = h_gps_time_type h"
  "(global_encoding h AND 8 = 8) = h_has_synthetic_return_numbers h"
  "(global_encoding h AND 16 = 16) = (h_has_wkt_crs h \<or> is_extended (h_point_format h))"
  by (cases "h_gps_time_type h"; cases "h_has_synthetic_return_numbers h";
      cases "h_has_wkt_crs h \<or> is_extended (h_point_format h)";
      simp add: global_encoding_def gps_time_type_of_u16_def)+

text \<open>The dates that the two 16-bit fields of the header block represent.\<close>

definition date_ok :: "('d, 'u) env \<Rightarrow> 'd option \<Rightarrow> bool" where
  "date_ok E d = (case d of Some d \<Rightarrow> 0 \<le> env_year E d \<and> env_year E d < 65536 | None \<Rightarrow> True)"

lemma date_stored:
  assumes raw: "header_into_raw E h = Ok raw" and "chrono_laws E" "date_ok E (h_date h)"
  shows "env_from_yo_opt E (int (unat (rh_file_creation_year raw)))
     (unat (rh_file_creation_day_of_year raw)) = h_date h"
proof (cases "h_date h")
  case None
  then show ?thesis
    using header_into_raw_transforms(3,4) [OF raw] assms(2) by (simp add: chrono_laws_def)
next
  case (Some d)
  have "env_ordinal E d \<le> 366" using assms(2) by (simp add: chrono_laws_def)
  then have "unat (word_of_nat (env_ordinal E d) :: u16) = env_ordinal E d"
    by (simp add: unat_of_nat)
  moreover have "int (unat (word_of_int (env_year E d) :: u16)) = env_year E d"
    using assms(3) Some by (simp add: date_ok_def unsigned_of_int take_bit_int_eq_self)
  ultimately show ?thesis
    using header_into_raw_transforms(3,4) [OF raw] Some assms(2) by (simp add: chrono_laws_def)
qed

lemma builder_points_by_return_Ok:
  assumes "raw_header_ok raw"
  shows "\<exists>m. builder_points_by_return raw = Ok m"
  using assms by (auto simp: builder_points_by_return_def number_of_points_hash_map_def
      raw_header_ok_def split: option.splits)

text \<open>The headers whose strings and date the header block represents.\<close>

definition header_text_ok :: "('d, 'u) env \<Rightarrow> ('d, 'u) header \<Rightarrow> bool" where
  "header_text_ok E h \<longleftrightarrow>
     las_text (h_system_identifier h) \<and> las_text (h_generating_software h) \<and> date_ok E (h_date h)"

lemma builder_new_stored:
  assumes raw: "header_into_raw E h = Ok raw" and inv: "header_inv h"
    and laws: "uuid_laws E" "chrono_laws E" and tx: "header_text_ok E h"
    and bnds: "adapt (h_bounds h) (h_transforms h) = Ok bnds"
    and m: "builder_points_by_return (stored_header raw) = Ok m"
  shows "builder_new E (stored_header raw) =
     Ok ((builder_of_header h)\<lparr>bl_bounds := bnds, bl_number_of_points_by_return := m,
       bl_point_padding := [], bl_vlr_padding := [], bl_vlrs := [], bl_evlrs := []\<rparr>)"
proof -
  note f = header_into_raw_fields [OF raw]
  note t = header_into_raw_transforms [OF raw]
  have "as_las_string_lossy (rh_system_identifier raw) = h_system_identifier h"
    "as_las_string_lossy (rh_generating_software raw) = h_generating_software h"
    using f(6,7) tx as_las_string_lossy_text
    unfolding system_identifier_raw_def generating_software_raw_def header_text_ok_def
    by (auto dest!: from_las_str_zerosD(2))
  moreover have "(h_has_wkt_crs h \<or> is_extended (h_point_format h)) = h_has_wkt_crs h"
    using inv by (auto simp: header_inv_def)
  moreover have "env_uuid_from_bytes E (rh_guid raw) = h_guid h"
    using f(4) laws(1) by (simp add: uuid_laws_def)
  moreover have "\<lparr>b_min = \<lparr>vx = rh_min_x raw, vy = rh_min_y raw, vz = rh_min_z raw\<rparr>,
        b_max = \<lparr>vx = rh_max_x raw, vy = rh_max_y raw, vz = rh_max_z raw\<rparr>\<rparr> = bnds"
    using bnds t(2) by simp
  moreover have "env_from_yo_opt E (int (unat (rh_file_creation_year raw)))
     (unat (rh_file_creation_day_of_year raw)) = h_date h"
    by (rule date_stored [OF raw laws(2)]) (use tx in \<open>simp add: header_text_ok_def\<close>)
  ultimately show ?thesis
    using m point_format_stored [OF raw] number_of_points_stored [OF raw] f(2,3,5,17) t(1)
      global_encoding_bits [of h]
    by (simp add: builder_new_def builder_of_header_def) (simp add: stored_header_def)
qed

section \<open>Writing a header and reading it back\<close>

text \<open>The bytes of a record, and the records that are read back.\<close>

definition vlr_bytes :: "bool \<Rightarrow> vlr \<Rightarrow> bytes" where
  "vlr_bytes extended v = (case vlr_into_raw v extended of Ok raw \<Rightarrow> enc_vlr raw | _ \<Rightarrow> [])"

definition vlr_ok :: "bool \<Rightarrow> vlr \<Rightarrow> bool" where
  "vlr_ok extended v \<longleftrightarrow>
     las_text (v_user_id v) \<and> length (v_user_id v) \<le> 16 \<and>
     las_text (v_description v) \<and> length (v_description v) \<le> 32 \<and>
     length (v_data v) < 2 ^ 63 \<and> (extended \<or> \<not> has_large_data v)"

lemma vlr_ok_into_raw: "vlr_ok extended v \<Longrightarrow> \<exists>raw. vlr_into_raw v extended = Ok raw"
  by (simp add: vlr_ok_def vlr_into_raw_eq)

interpretation vlr: serial "read_vlr extended" "write_vlr extended" "vlr_bytes extended"
  "vlr_ok extended" for extended
proof (unfold_locales, goal_cases)
  case (1 v)
  then obtain raw where "vlr_into_raw v extended = Ok raw" using vlr_ok_into_raw by blast
  then show ?case
    by (simp add: write_vlr_def vlr_bytes_def writes_vlr)
next
  case (2 v)
  then obtain raw where raw: "vlr_into_raw v extended = Ok raw" using vlr_ok_into_raw by blast
  have "vlr_new raw = v" using 2 raw by (intro vlr_new_into_raw) (auto simp: vlr_ok_def)
  moreover have "reads (raw_vlr_read_from extended) (enc_vlr raw) raw"
    using 2 vlr_into_raw_ok(1) [OF raw] by (intro reads_vlr) (simp add: vlr_ok_def)
  ultimately show ?case
    unfolding read_vlr_def by (auto simp: vlr_bytes_def raw intro: reads_map)
next
  case (3 v)
  then obtain raw where raw: "vlr_into_raw v extended = Ok raw" using vlr_ok_into_raw by blast
  then show ?case
    using 3 raw_vlr.enc_nonempty [OF vlr_into_raw_ok(1) [OF raw]] by (simp add: vlr_bytes_def vlr_ok_def)
qed

lemma length_vlr_bytes:
  assumes "vlr_ok extended v"
  shows "length (vlr_bytes extended v) = vlr_len v extended"
  using vlr_ok_into_raw [OF assms] vlr_into_raw_ok(2) [of v extended] assms
  by (auto simp: vlr_bytes_def vlr_ok_def)

definition header_bytes :: "raw_header \<Rightarrow> ('d, 'u) header \<Rightarrow> bytes" where
  "header_bytes raw h =
     enc_header raw @ concat (map (vlr_bytes False) (h_vlrs h)) @ h_vlr_padding h"

definition vlrs_ok :: "('d, 'u) header \<Rightarrow> bool" where
  "vlrs_ok h \<longleftrightarrow> list_all (vlr_ok False) (h_vlrs h) \<and> list_all (vlr_ok True) (h_evlrs h)"

lemma writes_las_header:
  assumes raw: "header_into_raw E h = Ok raw" and "vlrs_ok h"
  shows "writes (header_write_to E h) (header_bytes raw h)"
proof -
  have "writes (io_bind (io_lift (header_into_raw E h)) raw_header_write_to) (enc_header raw)"
    by (simp add: raw writes_header)
  moreover have "writes (io_each (write_vlr False) (h_vlrs h)) (concat (map (vlr_bytes False) (h_vlrs h)))"
    using assms(2) by (intro vlr.writes_many) (simp add: vlrs_ok_def)
  ultimately show ?thesis
    unfolding header_write_to_def header_bytes_def by (intro stream)
qed

lemma header_inv_version: "header_inv h \<Longrightarrow> h_version h \<in> set las_versions"
  by (auto simp: header_inv_def supports_point_format_def las_versions_iff word_le_nat_alt
      split: if_splits)

lemma length_concat_vlr_bytes:
  "list_all (vlr_ok extended) vs \<Longrightarrow>
   length (concat (map (vlr_bytes extended) vs)) = sum_list (map (\<lambda>v. vlr_len v extended) vs)"
  by (induction vs) (auto simp: length_vlr_bytes)

lemma length_header_bytes:
  assumes raw: "header_into_raw E h = Ok raw" and inv: "header_inv h" and "uuid_laws E"
    and "h_start_of_first_evlr h \<noteq> Some 0" "vlrs_ok h"
  shows "length (enc_header raw) = unat (rh_header_size raw)"
    "length (header_bytes raw h) = unat (rh_offset_to_point_data raw)"
proof -
  note f = header_into_raw_fields [OF raw]
  have "length (enc_header (stored_header raw))
      = unat (version_header_size (h_version h)) + length (h_padding h)"
    using length_enc_header [OF stored_header_ok [OF assms(1-4)]] header_inv_version [OF inv] f(5,17)
    by (simp add: stored_header_def)
  then show "length (enc_header raw) = unat (rh_header_size raw)"
    using header_size_Ok [OF f(8)] by (simp add: enc_stored_header)
  then show "length (header_bytes raw h) = unat (rh_offset_to_point_data raw)"
    using offset_to_point_data_Ok [OF f(9)] header_size_Ok [OF f(8)] assms(5)
      length_concat_vlr_bytes [of False "h_vlrs h"]
    by (simp add: header_bytes_def vlrs_ok_def)
qed

lemma number_of_point_records_stored:
  assumes raw: "header_into_raw E h = Ok raw"
  shows "number_of_point_records (stored_header raw) = h_number_of_points h"
proof -
  have "(ucast n = (0 :: u64)) = (n = 0)" for n :: u32
    by (simp add: word_unat_eq_iff unat_ucast_up)
  then show ?thesis
    using number_of_points_stored [OF raw]
    by (auto simp: number_of_point_records_def builder_number_of_points_def Let_def stored_header_def
        word_gt_0 split: option.splits if_splits)
qed

lemma reads_vlr_padding:
  "unat off = pos + length pad \<Longrightarrow> reads (read_vlr_padding pos off) pad pad"
  using reads_up_to [of pad] reads_return [of "[]"]
  by (auto simp: read_vlr_padding_def)

text \<open>
  The point padding and the first extended record.  Padding after compressed points is not
  read: it is part of the bytes before the extended records.
\<close>

definition kept_padding :: "format \<Rightarrow> bytes \<Rightarrow> bytes" where
  "kept_padding f pad = (if is_compressed f then [] else pad)"

lemma read_padding:
  assumes "\<not> is_compressed f \<Longrightarrow> unat start = unat eop + length pad \<and> c_pos c = unat eop \<and> ahead pad c"
  shows "\<exists>c'. c_data c' = c_data c \<and> read_point_padding f start eop c = (Ok (kept_padding f pad), c')"
proof (cases "is_compressed f")
  case True
  then show ?thesis by (simp add: read_point_padding_def kept_padding_def io_return_def)
next
  case False
  then have "reads (read_point_padding f start eop) pad pad" "ahead pad c"
    using assms reads_up_to [of pad] reads_return [of "[]"]
    by (auto simp: read_point_padding_def word_less_nat_alt word_unat_eq_iff unat_sub word_le_nat_alt)
  then show ?thesis using False by (simp add: reads_def kept_padding_def skip_def)
qed

lemma read_evlr_first:
  assumes "vlr_ok True v" "ahead (vlr_bytes True v) (c\<lparr>c_pos := unat (start_of_first_evlr e)\<rparr>)"
    and "\<not> is_compressed (bl_point_format b) \<Longrightarrow>
      unat (start_of_first_evlr e) = unat eop + length pad \<and> c_pos c = unat eop \<and> ahead pad c"
  shows "\<exists>c'. c_data c' = c_data c \<and> read_evlr b eop (Some e) c =
     (Ok (b\<lparr>bl_point_padding := kept_padding (bl_point_format b) pad, bl_evlrs := bl_evlrs b @ [v]\<rparr>), c')"
proof -
  from read_padding [OF assms(3)] obtain c1 where c1: "c_data c1 = c_data c"
    "read_point_padding (bl_point_format b) (start_of_first_evlr e) eop c
       = (Ok (kept_padding (bl_point_format b) pad), c1)" by blast
  have "c1\<lparr>c_pos := n\<rparr> = c\<lparr>c_pos := n\<rparr>" for n using c1(1) by simp
  moreover have "reads (read_vlr True) (vlr_bytes True v) v" using assms(1) by (rule vlr.reads_ok)
  ultimately show ?thesis
    using assms(2) c1(2)
    by (simp add: read_evlr_def io_bind_def [of "read_point_padding f s k" for f s k] reads_step
        io_bind_Ok [where m = "seek_start n" for n] seek_start_def io_return_def) (simp add: skip_def)
qed

lemma header_inv_update:
  "header_inv h \<Longrightarrow> (h_evlrs h = [] \<Longrightarrow> pad = []) \<Longrightarrow>
   header_inv (h\<lparr>h_bounds := b, h_number_of_points_by_return := m, h_evlrs := take 1 (h_evlrs h),
     h_point_padding := kept_padding (h_point_format h) pad\<rparr>)"
  by (cases "h_evlrs h") (simp_all add: header_inv_def kept_padding_def)

text \<open>The layout of a file, where \<open>pts\<close> are the bytes of the points, compressed or not.\<close>

definition file_layout ::
  "raw_header \<Rightarrow> ('d, 'u) header \<Rightarrow> bytes \<Rightarrow> bytes \<Rightarrow> bytes" where
  "file_layout raw h pts tail =
     header_bytes raw h @ pts @ h_point_padding h
     @ concat (map (vlr_bytes True) (h_evlrs h)) @ tail"

text \<open>The conditions under which a header is written completely, and read back.\<close>

definition header_ok :: "('d, 'u) env \<Rightarrow> ('d, 'u) header \<Rightarrow> bool" where
  "header_ok E h \<longleftrightarrow>
     header_inv h \<and> header_text_ok E h \<and> vlrs_ok h \<and> uuid_laws E \<and> chrono_laws E"

definition points_fit :: "raw_header \<Rightarrow> ('d, 'u) header \<Rightarrow> bytes \<Rightarrow> bool" where
  "points_fit raw h pts \<longleftrightarrow>
     (\<not> is_compressed (h_point_format h) \<longrightarrow>
        length pts = unat (h_number_of_points h) * record_len (h_point_format h)) \<and>
     unat (rh_offset_to_point_data raw)
       + unat (h_number_of_points h) * record_len (h_point_format h) < 2 ^ 64 \<and>
     (case rh_evlr raw of
        Some e \<Rightarrow> unat (start_of_first_evlr e) =
          unat (rh_offset_to_point_data raw) + length pts + length (h_point_padding h)
      | None \<Rightarrow> True)"

lemma end_of_points_stored:
  assumes raw: "header_into_raw E h = Ok raw"
    and fit: "unat (rh_offset_to_point_data raw)
      + unat (h_number_of_points h) * record_len (h_point_format h) < 2 ^ 64"
  shows "\<exists>eop. offset_to_end_of_points (stored_header raw) = Ok eop \<and>
     unat eop = unat (rh_offset_to_point_data raw)
       + unat (h_number_of_points h) * record_len (h_point_format h)"
proof -
  note f = header_into_raw_fields [OF raw]
  let ?n = "unat (rh_offset_to_point_data raw)
    + unat (h_number_of_points h) * record_len (h_point_format h)"
  have "offset_to_end_of_points (stored_header raw) = Ok (word_of_nat ?n)"
    using fit format_len_OkD [OF f(12)] number_of_point_records_stored [OF raw]
    unfolding offset_to_end_of_points_val Let_def
    by (simp add: stored_header_def)
  moreover have "unat (word_of_nat ?n :: u64) = ?n"
    using fit by (intro unat_of_nat_eq) simp
  ultimately show ?thesis by blast
qed

lemma header_new_prefix:
  assumes raw: "header_into_raw E h = Ok raw" and ok: "header_ok E h"
    and start: "h_start_of_first_evlr h \<noteq> Some 0"
    and c: "ahead (header_bytes raw h) c"
    and bnds: "adapt (h_bounds h) (h_transforms h) = Ok bnds"
    and m: "builder_points_by_return (stored_header raw) = Ok m"
    and eop: "offset_to_end_of_points (stored_header raw) = Ok eop"
  shows "header_new E c =
     io_bind (read_evlr ((builder_of_header h)\<lparr>bl_bounds := bnds, bl_number_of_points_by_return := m,
         bl_point_padding := [], bl_evlrs := []\<rparr>) eop (rh_evlr raw)) (\<lambda>b.
     io_bind (seek_start (unat (rh_offset_to_point_data raw))) (\<lambda>_.
     io_lift (into_header (upgraded b)))) (c\<lparr>c_pos := unat eop\<rparr>)"
proof -
  note f = header_into_raw_fields [OF raw]
  have inv: "header_inv h" and vlrs: "vlrs_ok h" and laws: "uuid_laws E" "chrono_laws E"
    and tx: "header_text_ok E h" using ok by (auto simp: header_ok_def)
  note ok' = stored_header_ok [OF raw inv laws(1) start]
  note len = length_header_bytes [OF raw inv laws(1) start vlrs]
  have a: "ahead (enc_header raw) c"
    "ahead (concat (map (vlr_bytes False) (h_vlrs h))) (skip (length (enc_header raw)) c)"
    "ahead (h_vlr_padding h)
      (skip (length (enc_header raw) + length (concat (map (vlr_bytes False) (h_vlrs h)))) c)"
    using c by (simp_all add: header_bytes_def ahead_append)
  have "reads raw_header_read_from (enc_header raw) (stored_header raw)"
    using reads_header [OF ok'] by (simp add: enc_stored_header)
  note r1 = reads_step [OF this a(1)]
  have n: "unat (rh_number_of_variable_length_records (stored_header raw)) = length (h_vlrs h)"
    using f(10) [symmetric] by (auto simp: number_of_variable_length_records_def Let_def u32_MAX_def
        unat_of_nat stored_header_def split: if_splits)
  have "reads (io_times (length (h_vlrs h)) (read_vlr False))
     (concat (map (vlr_bytes False) (h_vlrs h))) (h_vlrs h)"
    using vlrs by (intro vlr.reads_many) (simp_all add: vlrs_ok_def)
  note r2 = reads_step [OF this a(2)]
  have hs: "rh_header_size (stored_header raw) = rh_header_size raw"
    "rh_offset_to_point_data (stored_header raw) = rh_offset_to_point_data raw"
    "rh_evlr (stored_header raw) = rh_evlr raw"
    by (simp_all add: stored_header_def)
  have "unat (rh_offset_to_point_data raw) = unat (rh_header_size raw)
     + sum_list (map (\<lambda>v. vlr_len v False) (h_vlrs h)) + length (h_vlr_padding h)"
    using offset_to_point_data_Ok [OF f(9)] header_size_Ok [OF f(8)] by simp
  note r3 = reads_step [OF reads_vlr_padding [OF this] a(3)]
  have skip: "(skip k c)\<lparr>c_pos := p\<rparr> = c\<lparr>c_pos := p\<rparr>" for k p by (simp add: skip_def)
  show ?thesis
    unfolding header_new_def r1 eop io_bind_lift
      builder_new_stored [OF raw inv laws tx bnds m] n hs r2 skip_skip r3
    by (simp add: io_bind_Ok [where m = "seek_start n" for n] seek_start_def skip builder_of_header_def)
qed

text \<open>
  Reading a header back from any place of a stream.  The records in the header block follow one
  another, but the offsets of the header are positions of the stream: \<open>pad\<close> are the bytes between
  the position where the points are taken to end and the start of the extended records.
\<close>

lemma header_read_at:
  assumes raw: "header_into_raw E h = Ok raw" and ok: "header_ok E h"
    and start: "h_start_of_first_evlr h \<noteq> Some 0"
    and n: "n = unat (rh_offset_to_point_data raw)
      + unat (h_number_of_points h) * record_len (h_point_format h)" "n < 2 ^ 64"
    and c: "ahead (header_bytes raw h) c"
    and evlr: "\<And>e v vs. rh_evlr raw = Some e \<Longrightarrow> h_evlrs h = v # vs \<Longrightarrow>
      ahead (vlr_bytes True v) (c\<lparr>c_pos := unat (start_of_first_evlr e)\<rparr>) \<and>
      (\<not> is_compressed (h_point_format h) \<longrightarrow>
        unat (start_of_first_evlr e) = n + length pad \<and> ahead pad (c\<lparr>c_pos := n\<rparr>))"
    and pad: "h_evlrs h = [] \<Longrightarrow> pad = []"
  shows "\<exists>bnds m. adapt (h_bounds h) (h_transforms h) = Ok bnds \<and>
     builder_points_by_return (stored_header raw) = Ok m \<and>
     header_new E c =
       (Ok (h\<lparr>h_bounds := bnds, h_number_of_points_by_return := m,
             h_evlrs := take 1 (h_evlrs h),
             h_point_padding := kept_padding (h_point_format h) pad,
             h_start_of_first_evlr := None\<rparr>),
        c\<lparr>c_pos := length (header_bytes raw h)\<rparr>)"
proof -
  note f = header_into_raw_fields [OF raw]
  have inv: "header_inv h" and vlrs: "vlrs_ok h" and laws: "uuid_laws E"
    using ok by (auto simp: header_ok_def)
  note len = length_header_bytes [OF raw inv laws start vlrs]
  from builder_points_by_return_Ok [OF stored_header_ok [OF raw inv laws start]]
  obtain m where m: "builder_points_by_return (stored_header raw) = Ok m" by blast
  from header_into_raw_transforms(2) [OF raw] obtain bnds
    where bnds: "adapt (h_bounds h) (h_transforms h) = Ok bnds" by blast
  from end_of_points_stored [OF raw] n obtain eop
    where eop: "offset_to_end_of_points (stored_header raw) = Ok eop" "unat eop = n" by auto
  let ?h = "h\<lparr>h_bounds := bnds, h_number_of_points_by_return := m, h_evlrs := take 1 (h_evlrs h),
    h_point_padding := kept_padding (h_point_format h) pad\<rparr>"
  let ?b = "(builder_of_header h)\<lparr>bl_bounds := bnds, bl_number_of_points_by_return := m,
         bl_point_padding := [], bl_evlrs := []\<rparr>"
  have inv': "header_inv ?h" using inv pad by (rule header_inv_update)
  have "\<exists>c'. c_data c' = c_data c \<and>
     read_evlr ?b eop (rh_evlr raw) (c\<lparr>c_pos := unat eop\<rparr>) = (Ok (builder_of_header ?h), c')"
  proof (cases "h_evlrs h")
    case Nil
    then have "rh_evlr raw = None" "pad = []" using header_evlr_None [OF f(15)] pad by auto
    then show ?thesis using Nil
      by (auto simp: read_evlr_def io_return_def builder_of_header_def kept_padding_def)
  next
    case (Cons v vs)
    then obtain e where e: "rh_evlr raw = Some e"
      using header_evlr_None [OF f(15)] by auto
    let ?s = "unat (start_of_first_evlr e)" and ?c = "c\<lparr>c_pos := unat eop\<rparr>"
    have "vlr_ok True v" using vlrs Cons by (simp add: vlrs_ok_def)
    then have "\<exists>c'. c_data c' = c_data ?c \<and>
       read_evlr ?b eop (Some e) ?c =
         (Ok (?b\<lparr>bl_point_padding := kept_padding (bl_point_format ?b) pad,
                 bl_evlrs := bl_evlrs ?b @ [v]\<rparr>), c')"
      using evlr [OF e Cons] eop(2) by (intro read_evlr_first) (auto simp: builder_of_header_def)
    then show ?thesis using Cons e by (simp add: builder_of_header_def)
  qed
  then obtain c' where c': "c_data c' = c_data c"
    "read_evlr ?b eop (rh_evlr raw) (c\<lparr>c_pos := unat eop\<rparr>) = (Ok (builder_of_header ?h), c')" by blast
  have "buildable (builder_of_header ?h)"
    using into_header_of_header [OF inv'] by (auto simp: into_header_Ok)
  then have up: "into_header (upgraded (builder_of_header ?h)) = Ok (?h\<lparr>h_start_of_first_evlr := None\<rparr>)"
    using into_header_of_header [OF inv'] by (simp add: upgraded_buildable)
  have "c'\<lparr>c_pos := p\<rparr> = c\<lparr>c_pos := p\<rparr>" for p using c'(1) by simp
  then have "header_new E c = (Ok (?h\<lparr>h_start_of_first_evlr := None\<rparr>),
      c\<lparr>c_pos := length (header_bytes raw h)\<rparr>)"
    unfolding header_new_prefix [OF raw ok start c bnds m eop(1)]
    by (simp only: io_bind_def [of "read_evlr b e x" for b e x] c'(2) prod.case outcome.case)
      (simp add: io_bind_Ok [where m = "seek_start n" for n] seek_start_def up io_lift_def len(2)
        del: One_nat_def)
  with bnds m show ?thesis by simp
qed

lemma header_read_back:
  assumes raw: "header_into_raw E h = Ok raw" and ok: "header_ok E h"
    and start: "h_start_of_first_evlr h \<noteq> Some 0" and fit: "points_fit raw h pts"
    and c: "c_data c = file_layout raw h pts tail" "c_pos c = 0"
  shows "\<exists>bnds m. adapt (h_bounds h) (h_transforms h) = Ok bnds \<and>
     builder_points_by_return (stored_header raw) = Ok m \<and>
     header_new E c =
       (Ok (h\<lparr>h_bounds := bnds, h_number_of_points_by_return := m,
             h_evlrs := take 1 (h_evlrs h),
             h_point_padding := kept_padding (h_point_format h) (h_point_padding h),
             h_start_of_first_evlr := None\<rparr>),
        c\<lparr>c_pos := length (header_bytes raw h)\<rparr>)"
proof (rule header_read_at [OF raw ok start refl])
  have inv: "header_inv h" "uuid_laws E" "vlrs_ok h" using ok by (auto simp: header_ok_def)
  note len = length_header_bytes(2) [OF raw inv(1,2) start inv(3)]
  show "unat (rh_offset_to_point_data raw)
      + unat (h_number_of_points h) * record_len (h_point_format h) < 2 ^ 64"
    using fit by (simp add: points_fit_def)
  show "ahead (header_bytes raw h) c" using c by (auto simp: ahead_def file_layout_def)
  show "h_point_padding h = []" if "h_evlrs h = []" using inv(1) that by (auto simp: header_inv_def)
  fix e v vs
  assume e: "rh_evlr raw = Some e" "h_evlrs h = v # vs"
  let ?n = "unat (rh_offset_to_point_data raw)
    + unat (h_number_of_points h) * record_len (h_point_format h)"
  have "unat (start_of_first_evlr e)
      = unat (rh_offset_to_point_data raw) + length pts + length (h_point_padding h)"
    using fit e(1) by (simp add: points_fit_def)
  then show "ahead (vlr_bytes True v) (c\<lparr>c_pos := unat (start_of_first_evlr e)\<rparr>) \<and>
      (\<not> is_compressed (h_point_format h) \<longrightarrow>
        unat (start_of_first_evlr e) = ?n + length (h_point_padding h) \<and>
        ahead (h_point_padding h) (c\<lparr>c_pos := ?n\<rparr>))"
    using c(1) len e(2) fit by (auto simp: ahead_def file_layout_def points_fit_def)
qed

end
