(* ===== verification/Laz.thy ===== *)
theory Laz
  imports Las_Header
begin

text \<open>
  The use of the \<^verbatim>\<open>laz\<close> crate (\<^verbatim>\<open>src/laz.rs\<close>): the laszip record of a header.  The crate
  itself is a record \<open>laz\<close> of functions: its record (\<open>'v\<close>), its compressor (\<open>'c\<close>) and its
  decompressor (\<open>'z\<close>), each with the calls that las-rs makes.
\<close>

datatype laz_item_type =
  Point10 | GpsTime | RGB12 | Byte u16 | Point14 | RGB14 | RGBNIR14 | Byte14 u16

record ('v, 'c, 'z) laz =
  laz_USER_ID :: bytes
  laz_RECORD_ID :: u16
  laz_DESCRIPTION :: bytes
  laz_from_laz_items :: "laz_item_type list \<Rightarrow> 'v"
  laz_vlr_write_to :: "'v \<Rightarrow> writer"
  laz_from_buffer :: "bytes \<Rightarrow> 'v outcome"
  laz_compressor_new :: "cursor \<Rightarrow> 'v \<Rightarrow> 'c outcome"
  laz_compress_one :: "bytes \<Rightarrow> ('c, unit) io"
  laz_compressor_done :: "('c, unit) io"
  laz_compressor_get :: "'c \<Rightarrow> cursor"
  laz_compressor_set :: "cursor \<Rightarrow> 'c \<Rightarrow> 'c"
  laz_decompressor_new :: "cursor \<Rightarrow> 'v \<Rightarrow> 'z outcome"
  laz_decompress_one :: "('z \<times> bytes, unit) io"
  laz_decompress_many :: "('z \<times> bytes, unit) io"
  laz_decompressor_seek :: "u64 \<Rightarrow> ('z, unit) io"

definition is_laszip_vlr :: "('v, 'c, 'z) laz \<Rightarrow> vlr \<Rightarrow> bool" where
  "is_laszip_vlr L v \<longleftrightarrow> v_user_id v = laz_USER_ID L \<and> v_record_id v = laz_RECORD_ID L"

definition laz_items :: "format \<Rightarrow> laz_item_type list" where
  "laz_items f =
     (if \<not> is_extended f
      then [Point10]
           @ (if has_gps_time f then [GpsTime] else [])
           @ (if has_color f then [RGB12] else [])
           @ (if 0 < extra_bytes f then [Byte (extra_bytes f)] else [])
      else [Point14]
           @ (if has_color f then (if has_nir f then [RGBNIR14] else [RGB14]) else [])
           @ (if 0 < extra_bytes f then [Byte14 (extra_bytes f)] else []))"

definition add_laz_vlr ::
  "('v, 'c, 'z) laz \<Rightarrow> ('d, 'u) header \<Rightarrow> ('d, 'u) header outcome" where
  "add_laz_vlr L h =
     (case laz_vlr_write_to L (laz_from_laz_items L (laz_items (h_point_format h)))
             \<lparr>c_data = [], c_pos = 0\<rparr> of
        (r, c) \<Rightarrow>
          and_then r (\<lambda>_.
          Ok (h\<lparr>h_vlrs := h_vlrs h @
                  [\<lparr>v_user_id = laz_USER_ID L, v_record_id = laz_RECORD_ID L,
                    v_description = laz_DESCRIPTION L, v_data = c_data c\<rparr>]\<rparr>)))"

definition laz_vlr_of_vlr :: "('v, 'c, 'z) laz \<Rightarrow> vlr \<Rightarrow> 'v outcome" where
  "laz_vlr_of_vlr L v = laz_from_buffer L (v_data v)"

definition laz_vlr :: "('v, 'c, 'z) laz \<Rightarrow> ('d, 'u) header \<Rightarrow> 'v outcome" where
  "laz_vlr L h =
     (case find (is_laszip_vlr L) (h_vlrs h) of
        None \<Rightarrow> Err LasZipVlrNotFound
      | Some v \<Rightarrow> laz_vlr_of_vlr L v)"

text \<open>The sizes of the items in a point record, as the laszip format documents them.\<close>

fun laz_item_size :: "laz_item_type \<Rightarrow> nat" where
  "laz_item_size Point10 = 20"
| "laz_item_size GpsTime = 8"
| "laz_item_size RGB12 = 6"
| "laz_item_size (Byte n) = unat n"
| "laz_item_size Point14 = 30"
| "laz_item_size RGB14 = 6"
| "laz_item_size RGBNIR14 = 8"
| "laz_item_size (Byte14 n) = unat n"

lemma find_append: "find P (xs @ ys) = (case find P xs of Some x \<Rightarrow> Some x | None \<Rightarrow> find P ys)"
  by (induction xs) auto

end
