(* ===== verification/Las_Reader.thy ===== *)
theory Las_Reader
  imports Laz
begin

text \<open>
  Reading points (\<^verbatim>\<open>src/reader/mod.rs\<close>, \<^verbatim>\<open>src/reader/las.rs\<close>, \<^verbatim>\<open>src/reader/laz.rs\<close>).
  A call is a computation on the state of its reader; a call with a vector of points works
  on the pair of the reader and the vector, which keeps what was pushed before an error.
  The locale \<open>point_source\<close> is the contract of the trait \<^verbatim>\<open>ReadPoints\<close>: a reader stands for a
  list of points and an index into it.
\<close>

text \<open>A call that leaves the vector alone.\<close>

definition alone :: "('s, 'a) io \<Rightarrow> ('s \<times> 'x, 'a) io" where
  "alone = io_zoom fst (\<lambda>s (_, x). (s, x))"

text \<open>
  \<^verbatim>\<open>Vec::reserve\<close> and \<^verbatim>\<open>Vec::with_capacity\<close> panic when the capacity in bytes exceeds
  \<^verbatim>\<open>isize::MAX\<close>.
\<close>

definition reserve :: "('d, 'u) env \<Rightarrow> nat \<Rightarrow> ('r \<times> point list, unit) io" where
  "reserve E n = (\<lambda>(r, ps).
     (if (length ps + n) * env_point_size E < 2 ^ 63 then Ok () else Panic, (r, ps)))"

section \<open>Uncompressed points\<close>

record ('d, 'u) las_reader =
  lr_read :: cursor
  lr_header :: "('d, 'u) header"
  lr_index :: u64
  lr_start :: u64

definition las_reader_new ::
  "cursor \<Rightarrow> ('d, 'u) header \<Rightarrow> ('d, 'u) las_reader outcome" where
  "las_reader_new read h =
     (case stream_position read of
        (r, c) \<Rightarrow> and_then r (\<lambda>p.
          Ok \<lparr>lr_read = c, lr_header = h, lr_index = 0, lr_start = word_of_nat p\<rparr>))"

definition on_read :: "'a reader \<Rightarrow> (('d, 'u) las_reader, 'a) io" where
  "on_read = io_zoom lr_read (\<lambda>c r. r\<lparr>lr_read := c\<rparr>)"

definition las_read_point :: "(('d, 'u) las_reader, point option) io" where
  "las_read_point =
     io_bind io_get (\<lambda>r.
     if lr_index r < h_number_of_points (lr_header r)
     then io_bind (io_modify (\<lambda>r. r\<lparr>lr_index := lr_index r + 1\<rparr>)) (\<lambda>_.
          io_bind (on_read (raw_point_read_from (h_point_format (lr_header r)))) (\<lambda>p.
          io_bind (io_lift (point_new p (h_transforms (lr_header r)))) (\<lambda>p.
          io_return (Some p))))
     else io_return None)"

text \<open>The loop of \<^verbatim>\<open>read_points\<close>: at most \<open>n\<close> points, until there is none.\<close>

fun push_points ::
  "('r, point option) io \<Rightarrow> nat \<Rightarrow> u64 \<Rightarrow> ('r \<times> point list, u64) io" where
  "push_points m 0 count = io_return count"
| "push_points m (Suc n) count =
     io_bind (alone m) (\<lambda>p.
     case p of
       Some p \<Rightarrow>
         io_bind (io_modify (\<lambda>(r, ps). (r, ps @ [p]))) (\<lambda>_.
         io_bind (io_lift (checked_add count 1)) (push_points m n))
     | None \<Rightarrow> io_return count)"

definition las_read_points ::
  "('d, 'u) env \<Rightarrow> u64 \<Rightarrow> (('d, 'u) las_reader \<times> point list, u64) io" where
  "las_read_points E n =
     io_bind io_get (\<lambda>(r, _).
     io_bind (io_lift (checked_sub (h_number_of_points (lr_header r)) (lr_index r))) (\<lambda>points_left.
     io_bind (reserve E (unat (min points_left n))) (\<lambda>_.
     push_points las_read_point (unat (min points_left n)) 0)))"

definition las_seek :: "u64 \<Rightarrow> (('d, 'u) las_reader, unit) io" where
  "las_seek index =
     io_bind (io_modify (\<lambda>r. r\<lparr>lr_index := index\<rparr>)) (\<lambda>_.
     io_bind io_get (\<lambda>r.
     io_bind (io_lift
       (and_then (format_len (h_point_format (lr_header r))) (\<lambda>len.
        and_then (checked_mul index (ucast len)) (checked_add (lr_start r))))) (\<lambda>p.
     on_read (seek_start (unat p)))))"

section \<open>Compressed points\<close>

record ('d, 'u, 'z) laz_reader =
  zr_buffer :: cursor
  zr_decompressor :: 'z
  zr_header :: "('d, 'u) header"
  zr_index :: u64

definition laz_reader_new ::
  "('v, 'c, 'z) laz \<Rightarrow> cursor \<Rightarrow> ('d, 'u) header \<Rightarrow> ('d, 'u, 'z) laz_reader outcome" where
  "laz_reader_new L read h =
     and_then (laz_vlr L h) (\<lambda>v.
     and_then (laz_decompressor_new L read v) (\<lambda>z.
     and_then (format_len (h_point_format h)) (\<lambda>len.
     Ok \<lparr>zr_buffer = \<lparr>c_data = replicate (unat len) 0, c_pos = 0\<rparr>, zr_decompressor = z,
         zr_header = h, zr_index = 0\<rparr>)))"

text \<open>A call of the decompressor with the bytes of the buffer.\<close>

definition decompress :: "('z \<times> bytes, unit) io \<Rightarrow> (('d, 'u, 'z) laz_reader, unit) io" where
  "decompress =
     io_zoom (\<lambda>r. (zr_decompressor r, c_data (zr_buffer r)))
       (\<lambda>(z, bs) r. r\<lparr>zr_decompressor := z, zr_buffer := (zr_buffer r)\<lparr>c_data := bs\<rparr>\<rparr>)"

definition set_position :: "nat \<Rightarrow> (('d, 'u, 'z) laz_reader, unit) io" where
  "set_position n = io_modify (\<lambda>r. r\<lparr>zr_buffer := (zr_buffer r)\<lparr>c_pos := n\<rparr>\<rparr>)"

definition on_buffer :: "'a reader \<Rightarrow> (('d, 'u, 'z) laz_reader, 'a) io" where
  "on_buffer = io_zoom zr_buffer (\<lambda>c r. r\<lparr>zr_buffer := c\<rparr>)"

definition buffered_point :: "('d, 'u) header \<Rightarrow> (('d, 'u, 'z) laz_reader, point) io" where
  "buffered_point h =
     io_bind (on_buffer (raw_point_read_from (h_point_format h))) (\<lambda>p.
     io_lift (point_new p (h_transforms h)))"

definition laz_read_point :: "('v, 'c, 'z) laz \<Rightarrow> (('d, 'u, 'z) laz_reader, point option) io" where
  "laz_read_point L =
     io_bind io_get (\<lambda>r.
     if zr_index r < h_number_of_points (zr_header r)
     then io_bind (io_modify (\<lambda>r. r\<lparr>zr_index := zr_index r + 1\<rparr>)) (\<lambda>_.
          io_bind (decompress (laz_decompress_one L)) (\<lambda>_.
          io_bind (set_position 0) (\<lambda>_.
          io_bind (buffered_point (zr_header r)) (\<lambda>p.
          io_return (Some p)))))
     else io_return None)"

definition resize :: "nat \<Rightarrow> bytes \<Rightarrow> bytes" where
  "resize n bs = take n bs @ replicate (n - length bs) 0"

fun push_buffered ::
  "('d, 'u) header \<Rightarrow> nat \<Rightarrow> (('d, 'u, 'z) laz_reader \<times> point list, unit) io" where
  "push_buffered h 0 = io_return ()"
| "push_buffered h (Suc n) =
     io_bind (alone (buffered_point h)) (\<lambda>p.
     io_bind (io_modify (\<lambda>(r, ps). (r\<lparr>zr_index := zr_index r + 1\<rparr>, ps @ [p]))) (\<lambda>_.
     push_buffered h n))"

definition laz_read_points ::
  "('d, 'u) env \<Rightarrow> ('v, 'c, 'z) laz \<Rightarrow> u64 \<Rightarrow>
   (('d, 'u, 'z) laz_reader \<times> point list, u64) io" where
  "laz_read_points E L n =
     io_bind io_get (\<lambda>(r, _).
     io_bind (io_lift (checked_sub (h_number_of_points (zr_header r)) (zr_index r))) (\<lambda>points_left.
     let n = min points_left n in
     io_bind (io_lift (and_then (format_len (h_point_format (zr_header r))) (\<lambda>len.
       checked_mul n (ucast len)))) (\<lambda>resized.
     io_bind (alone (
        io_bind (io_lift (resize_zeroed (unat resized))) (\<lambda>_.
        io_bind (io_modify (\<lambda>r. r\<lparr>zr_buffer := (zr_buffer r)
          \<lparr>c_data := resize (unat resized) (c_data (zr_buffer r))\<rparr>\<rparr>)) (\<lambda>_.
        io_bind (decompress (laz_decompress_many L)) (\<lambda>_.
        set_position 0))))) (\<lambda>_.
     io_bind (reserve E (unat n)) (\<lambda>_.
     io_bind (push_buffered (zr_header r) (unat n)) (\<lambda>_.
     io_return n))))))"

definition laz_seek :: "('v, 'c, 'z) laz \<Rightarrow> u64 \<Rightarrow> (('d, 'u, 'z) laz_reader, unit) io" where
  "laz_seek L index =
     io_bind (io_modify (\<lambda>r. r\<lparr>zr_index := index\<rparr>)) (\<lambda>_.
     io_zoom zr_decompressor (\<lambda>z r. r\<lparr>zr_decompressor := z\<rparr>) (laz_decompressor_seek L index))"

section \<open>Readers\<close>

text \<open>\<^verbatim>\<open>Box<dyn ReadPoints>\<close>: one of the two point readers, and the dispatch of its calls.\<close>

datatype ('d, 'u, 'z) reader_kind =
    LasReader "('d, 'u) las_reader"
  | LazReader "('d, 'u, 'z) laz_reader"

definition dispatch ::
  "(('d, 'u) las_reader \<times> 'x, 'a) io \<Rightarrow> (('d, 'u, 'z) laz_reader \<times> 'x, 'a) io \<Rightarrow>
   (('d, 'u, 'z) reader_kind \<times> 'x, 'a) io" where
  "dispatch ml mz = (\<lambda>(k, x).
     case k of
       LasReader r \<Rightarrow> (case ml (r, x) of (a, r, x) \<Rightarrow> (a, LasReader r, x))
     | LazReader r \<Rightarrow> (case mz (r, x) of (a, r, x) \<Rightarrow> (a, LazReader r, x)))"

definition of_pair :: "('s \<times> unit, 'a) io \<Rightarrow> ('s, 'a) io" where
  "of_pair m s = (case m (s, ()) of (a, s, _) \<Rightarrow> (a, s))"

record ('d, 'u, 'z) las_file_reader =
  fr_point_reader :: "('d, 'u, 'z) reader_kind"

definition on_points ::
  "(('d, 'u, 'z) reader_kind \<times> 'x, 'a) io \<Rightarrow> (('d, 'u, 'z) las_file_reader \<times> 'x, 'a) io" where
  "on_points =
     io_zoom (\<lambda>(r, x). (fr_point_reader r, x)) (\<lambda>(k, x) (r, _). (r\<lparr>fr_point_reader := k\<rparr>, x))"

definition reader_new ::
  "('d, 'u) env \<Rightarrow> ('v, 'c, 'z) laz \<Rightarrow> cursor \<Rightarrow> ('d, 'u, 'z) las_file_reader outcome" where
  "reader_new E L read =
     (case header_new E read of
        (r, c) \<Rightarrow>
          and_then r (\<lambda>h.
          if is_compressed (h_point_format h)
          then (if env_laz E
                then and_then (laz_reader_new L c h) (\<lambda>r. Ok \<lparr>fr_point_reader = LazReader r\<rparr>)
                else Err LaszipNotEnabled)
          else and_then (las_reader_new c h) (\<lambda>r. Ok \<lparr>fr_point_reader = LasReader r\<rparr>)))"

definition reader_header :: "('d, 'u, 'z) las_file_reader \<Rightarrow> ('d, 'u) header" where
  "reader_header r =
     (case fr_point_reader r of LasReader r \<Rightarrow> lr_header r | LazReader r \<Rightarrow> zr_header r)"

definition reader_read_point ::
  "('v, 'c, 'z) laz \<Rightarrow> (('d, 'u, 'z) las_file_reader, point option) io" where
  "reader_read_point L =
     of_pair (on_points (dispatch (alone las_read_point) (alone (laz_read_point L))))"

definition reader_read_points_into ::
  "('d, 'u) env \<Rightarrow> ('v, 'c, 'z) laz \<Rightarrow> u64 \<Rightarrow> (('d, 'u, 'z) las_file_reader \<times> point list, u64) io" where
  "reader_read_points_into E L n =
     on_points (dispatch (las_read_points E n) (laz_read_points E L n))"

definition reader_read_points ::
  "('d, 'u) env \<Rightarrow> ('v, 'c, 'z) laz \<Rightarrow> u64 \<Rightarrow> (('d, 'u, 'z) las_file_reader, point list) io" where
  "reader_read_points E L n r =
     (if \<not> unat n * env_point_size E < 2 ^ 63 then (Panic, r)
      else case reader_read_points_into E L n (r, []) of (a, r, ps) \<Rightarrow> (and_then a (\<lambda>_. Ok ps), r))"

definition reader_read_all_points_into ::
  "('d, 'u) env \<Rightarrow> ('v, 'c, 'z) laz \<Rightarrow> (('d, 'u, 'z) las_file_reader \<times> point list, u64) io" where
  "reader_read_all_points_into E L =
     io_bind io_get (\<lambda>(r, _). reader_read_points_into E L (h_number_of_points (reader_header r)))"

definition reader_seek :: "('v, 'c, 'z) laz \<Rightarrow> u64 \<Rightarrow> (('d, 'u, 'z) las_file_reader, unit) io" where
  "reader_seek L n = of_pair (on_points (dispatch (alone (las_seek n)) (alone (laz_seek L n))))"

text \<open>\<^verbatim>\<open>PointIterator::next\<close>: \<^verbatim>\<open>transpose\<close> turns the result of an option around.\<close>

fun transpose_result :: "'a option outcome \<Rightarrow> 'a outcome option" where
  "transpose_result (Ok None) = None"
| "transpose_result (Ok (Some a)) = Some (Ok a)"
| "transpose_result (Err e) = Some (Err e)"
| "transpose_result Panic = Some Panic"

definition points_next ::
  "('v, 'c, 'z) laz \<Rightarrow> ('d, 'u, 'z) las_file_reader \<Rightarrow>
   point outcome option \<times> ('d, 'u, 'z) las_file_reader" where
  "points_next L r = (case reader_read_point L r of (a, r) \<Rightarrow> (transpose_result a, r))"

text \<open>The deprecated names of these calls.\<close>

definition reader_read ::
  "('v, 'c, 'z) laz \<Rightarrow> ('d, 'u, 'z) las_file_reader \<Rightarrow>
   point outcome option \<times> ('d, 'u, 'z) las_file_reader" where
  "reader_read L r = (case reader_read_point L r of (a, r) \<Rightarrow> (transpose_result a, r))"

definition reader_read_n ::
  "('d, 'u) env \<Rightarrow> ('v, 'c, 'z) laz \<Rightarrow> u64 \<Rightarrow> (('d, 'u, 'z) las_file_reader, point list) io" where
  "reader_read_n = reader_read_points"

definition reader_read_n_into ::
  "('d, 'u) env \<Rightarrow> ('v, 'c, 'z) laz \<Rightarrow> u64 \<Rightarrow> (('d, 'u, 'z) las_file_reader \<times> point list, u64) io" where
  "reader_read_n_into = reader_read_points_into"

definition reader_read_all_points ::
  "('d, 'u) env \<Rightarrow> ('v, 'c, 'z) laz \<Rightarrow> (('d, 'u, 'z) las_file_reader \<times> point list, u64) io" where
  "reader_read_all_points = reader_read_all_points_into"

end
