(* ===== verification/Header_Counts.thy ===== *)
theory Header_Counts
  imports Las_Header "HOL-Library.Multiset"
begin

text \<open>
  The counts of points by return of a header: how they are written into the legacy and the
  large-file arrays, what is read back from them, and the properties of headers and builders.
\<close>

section \<open>Counts by return\<close>

text \<open>The arrays of counts by return, as functions of the map.\<close>

definition legacy_count :: "u64 option \<Rightarrow> u32" where
  "legacy_count n = (case n of Some n \<Rightarrow> if unat n \<le> u32_MAX then ucast n else 0 | None \<Rightarrow> 0)"

lemma index_of_return:
  "0 < (i :: u8) \<Longrightarrow> 0 < r \<Longrightarrow> unat i - 1 = unat r - 1 \<longleftrightarrow> i = r"
  by (auto simp: word_unat_eq_iff word_less_nat_alt)

lemma by_return_loop_nth:
  assumes "by_return_loop v m a = Ok a'" "distinct (map fst m)" "length a = 5" "0 < r" "unat r \<le> 5"
  shows "a' ! (unat r - 1) =
     (case map_of m r of
        Some n \<Rightarrow> if unat n \<le> u32_MAX then ucast n else a ! (unat r - 1)
      | None \<Rightarrow> a ! (unat r - 1))"
  using assms
proof (induction v m a rule: by_return_loop.induct)
  case (1 v a)
  then show ?case by simp
next
  case (2 v i n m a)
  have fresh: "map_of m i = None" and dist: "distinct (map fst m)"
    using "2.prems"(2) by (auto simp: map_of_eq_None_iff)
  have len: "unat r - 1 < length a" using "2.prems"(3-5) by (simp add: word_less_nat_alt)
  show ?case
  proof (cases "0 < i \<and> \<not> 5 < i \<and> unat n \<le> u32_MAX")
    case True
    then have g: "\<not> 5 < i" "0 < i" "\<not> u32_MAX < unat n" by auto
    then have "by_return_loop v m (a[unat i - 1 := ucast n]) = Ok a'"
      using "2.prems"(1) by simp
    note IH = "2.IH"(3) [OF g this dist _ "2.prems"(4,5)]
    show ?thesis
      using IH "2.prems"(3) fresh index_of_return [OF g(2) "2.prems"(4)] len True
      by (cases "i = r") (auto simp: nth_list_update split: option.splits)
  next
    case False
    then have "by_return_loop v m a = Ok a'"
      using "2.prems"(1) by (auto split: if_splits)
    moreover have "i = r \<Longrightarrow> \<not> unat n \<le> u32_MAX"
      using False "2.prems"(4,5) by (auto simp: word_less_nat_alt)
    ultimately have "a' ! (unat r - 1) =
       (case map_of m r of Some n \<Rightarrow> if unat n \<le> u32_MAX then ucast n else a ! (unat r - 1)
        | None \<Rightarrow> a ! (unat r - 1))"
      using "2.IH" "2.prems" dist False by (cases "5 < i"; cases "0 < i") (auto split: if_splits)
    then show ?thesis
      using fresh \<open>i = r \<Longrightarrow> \<not> unat n \<le> u32_MAX\<close> by auto
  qed
qed

lemma large_file_loop_nth:
  assumes "large_file_loop v m a = Ok a'" "distinct (map fst m)" "length a = 15" "0 < r" "unat r \<le> 15"
  shows "a' ! (unat r - 1) = unwrap_or (map_of m r) (a ! (unat r - 1))"
  using assms
proof (induction v m a rule: large_file_loop.induct)
  case (1 v a)
  then show ?case by simp
next
  case (2 v i n m a)
  have fresh: "map_of m i = None" and dist: "distinct (map fst m)" and i: "\<not> 15 < i"
    using "2.prems"(1,2) by (auto simp: map_of_eq_None_iff split: if_splits)
  have len: "unat r - 1 < length a" using "2.prems"(3-5) by (simp add: word_less_nat_alt)
  show ?case
  proof (cases "0 < i")
    case True
    with 2 i dist have "a' ! (unat r - 1) = unwrap_or (map_of m r) (a[unat i - 1 := n] ! (unat r - 1))"
      by simp
    then show ?thesis
      using fresh index_of_return [OF True "2.prems"(4)] len "2.prems"(3)
      by (cases "i = r") (auto simp: nth_list_update)
  next
    case False
    then show ?thesis using 2 i dist by (auto simp: word_gt_0)
  qed
qed

lemma large_file_loop_keys:
  "large_file_loop v m a = Ok a' \<Longrightarrow> map_of m r = Some n \<Longrightarrow> unat r \<le> 15"
  by (induction v m a rule: large_file_loop.induct)
    (auto simp: word_less_nat_alt split: if_splits)

lemma map_of_hash_map_from:
  assumes "i + length ns < 255"
  shows "map_of (hash_map_from i ns) r =
     (if i < unat r \<and> unat r \<le> i + length ns \<and> 0 < ns ! (unat r - i - 1)
      then Some (ns ! (unat r - i - 1)) else None)"
  using assms
proof (induction ns arbitrary: i)
  case Nil
  then show ?case by simp
next
  case (Cons n ns)
  have K: "unat (word_of_nat i + 1 :: u8) = Suc i"
    using Cons.prems unat_of_nat_eq [of "Suc i", where ?'a = 8] by (simp add: add.commute)
  have r: "r = word_of_nat i + 1 \<longleftrightarrow> unat r = Suc i" by (metis K word_unat_eq_iff)
  show ?case
    using Cons.IH [of "Suc i"] Cons.prems
    by (auto simp: r nth_Cons' map_add_def word_gt_0)
qed

lemma by_return_loop_keys:
  "by_return_loop v m a = Ok a' \<Longrightarrow> \<not> supports v LargeFiles \<Longrightarrow> map_of m r = Some n \<Longrightarrow> 0 < r \<Longrightarrow>
   unat r \<le> 5 \<and> unat n \<le> u32_MAX"
  by (induction v m a rule: by_return_loop.induct)
    (auto simp: word_less_nat_alt split: if_splits)

text \<open>A map of counts as points are added to it: distinct returns, none of them zero.\<close>

definition counts_ok :: "(u8 \<times> u64) list \<Rightarrow> bool" where
  "counts_ok m \<longleftrightarrow> distinct (map fst m) \<and> (\<forall>(r, n) \<in> set m. r \<noteq> 0 \<and> n \<noteq> 0)"

definition has_legacy_counts :: "(u8 \<times> u64) list \<Rightarrow> bool" where
  "has_legacy_counts m \<longleftrightarrow> (\<exists>(r, n) \<in> set m. unat r \<le> 5 \<and> unat n \<le> u32_MAX)"

lemma counts_okD: "counts_ok m \<Longrightarrow> map_of m r = Some n \<Longrightarrow> 0 < r \<and> 0 < n"
  by (auto simp: counts_ok_def word_gt_0 dest: map_of_SomeD)

lemma ucast_ucast_count: "unat (n :: u64) \<le> u32_MAX \<Longrightarrow> ucast (ucast n :: u32) = n"
  by (simp add: u32_MAX_def word_unat_eq_iff unsigned_ucast_eq unsigned_take_bit_eq take_bit_nat_eq_self)

lemma legacy_array:
  assumes "by_return_loop v m (replicate 5 0) = Ok a" "counts_ok m"
  shows "length a = 5" "0 < r \<Longrightarrow> unat r \<le> 5 \<Longrightarrow> a ! (unat r - 1) = legacy_count (map_of m r)"
    "list_ex (\<lambda>n. 0 < n) a \<longleftrightarrow> has_legacy_counts m"
proof -
  show len: "length a = 5" using by_return_loop_length [OF assms(1)] by simp
  show nth: "a ! (unat r - 1) = legacy_count (map_of m r)" if "0 < r" "unat r \<le> 5" for r
    using by_return_loop_nth [OF assms(1) _ _ that] assms(2) that
    by (auto simp: counts_ok_def legacy_count_def word_less_nat_alt split: option.splits)
  have pos: "0 < legacy_count (map_of m r) \<longleftrightarrow> (\<exists>n. map_of m r = Some n \<and> unat n \<le> u32_MAX)" for r
    using counts_okD [OF assms(2), of r] ucast_ucast_count
    by (auto simp: legacy_count_def word_gt_0 split: option.splits) (metis ucast_0)
  show "list_ex (\<lambda>n. 0 < n) a \<longleftrightarrow> has_legacy_counts m"
  proof
    assume "list_ex (\<lambda>n. 0 < n) a"
    then obtain k where k: "k < 5" "0 < a ! k" using len by (auto simp: list_ex_length)
    let ?r = "word_of_nat (Suc k) :: u8"
    have "unat ?r = Suc k" using k by (intro unat_of_nat_eq) simp
    then have "0 < legacy_count (map_of m ?r)" "unat ?r \<le> 5"
      using nth [of ?r] k by (auto simp: word_less_nat_alt)
    then show "has_legacy_counts m"
      unfolding pos by (auto simp: has_legacy_counts_def dest: map_of_SomeD)
  next
    assume "has_legacy_counts m"
    then obtain r n where r: "map_of m r = Some n" "unat r \<le> 5" "unat n \<le> u32_MAX"
      using assms(2) by (auto simp: has_legacy_counts_def counts_ok_def map_of_is_SomeI)
    then have "0 < r" using counts_okD [OF assms(2)] by blast
    then have "unat r - 1 < 5" "0 < a ! (unat r - 1)"
      using nth [of r] r pos [of r] by (auto simp: word_less_nat_alt)
    then show "list_ex (\<lambda>n. 0 < n) a" using len by (auto simp: list_ex_length)
  qed
qed

lemma counts_stored:
  assumes raw: "header_into_raw E h = Ok raw" and ok: "counts_ok (h_number_of_points_by_return h)"
    and m: "builder_points_by_return (stored_header raw) = Ok m"
  defines "cs \<equiv> h_number_of_points_by_return h"
  shows "map_of m r =
     (if has_legacy_counts cs
      then (case map_of cs r of
              Some n \<Rightarrow> if unat r \<le> 5 \<and> unat n \<le> u32_MAX then Some n else None | None \<Rightarrow> None)
      else map_of cs r)"
proof -
  note f = header_into_raw_fields [OF raw]
  let ?a = "rh_number_of_points_by_return raw"
  have loop: "by_return_loop (h_version h) cs (replicate 5 0) = Ok ?a"
    using f(14) by (simp add: number_of_points_by_return_raw_def cs_def)
  note a = legacy_array [OF loop ok [folded cs_def]]
  have a': "rh_number_of_points_by_return (stored_header raw) = ?a" by (simp add: stored_header_def)
  show ?thesis
  proof (cases "has_legacy_counts cs")
    case True
    then have "m = hash_map_from 0 (map ucast ?a)"
      using m a by (auto simp: builder_points_by_return_def a' number_of_points_hash_map_def)
    then have "map_of m r = (if 0 < unat r \<and> unat r \<le> 5 \<and> 0 < (ucast (?a ! (unat r - 1)) :: u64)
        then Some (ucast (?a ! (unat r - 1))) else None)"
      using map_of_hash_map_from [of 0 "map ucast ?a" r] a(1) by (auto simp: nth_map)
    then show ?thesis
      using True a(2) [of r] counts_okD [OF ok [folded cs_def], of r]
      by (cases "unat r = 0") (auto simp: legacy_count_def ucast_ucast_count word_less_nat_alt word_gt_0
          split: option.splits)
  next
    case False
    obtain arr where l: "rh_large_file raw =
        Some \<lparr>lf_number_of_point_records = h_number_of_points h, lf_number_of_points_by_return = arr\<rparr>"
      and large: "large_file_loop (h_version h) cs (replicate 15 0) = Ok arr" "length arr = 15"
      using f(16) unfolding cs_def by (rule header_large_file_Ok)
    show ?thesis
    proof (cases "supports (h_version h) LargeFiles")
      case True
      then have "m = hash_map_from 0 arr"
        using m False a(3) l f(5) large(2)
        by (auto simp: builder_points_by_return_def a' number_of_points_hash_map_def stored_header_def)
      then have m': "map_of m r = (if 0 < unat r \<and> unat r \<le> 15 \<and> 0 < arr ! (unat r - 1)
          then Some (arr ! (unat r - 1)) else None)"
        using map_of_hash_map_from [of 0 arr r] large(2) by simp
      show ?thesis
      proof (cases "map_of cs r")
        case None
        with m' False large_file_loop_nth [OF large(1), of r] ok show ?thesis
          by (cases "unat r = 0") (auto simp: counts_ok_def cs_def word_less_nat_alt)
      next
        case (Some n)
        with m' False large_file_loop_nth [OF large(1), of r] ok large_file_loop_keys [OF large(1) Some]
          counts_okD [OF ok [folded cs_def] Some]
        show ?thesis by (auto simp: counts_ok_def cs_def word_less_nat_alt)
      qed
    next
      case no: False
      then have "m = []"
        using m False a(3) f(5) by (auto simp: builder_points_by_return_def a' stored_header_def)
      moreover have "map_of cs r = None"
      proof (rule ccontr)
        assume "map_of cs r \<noteq> None"
        then obtain n where n: "map_of cs r = Some n" by blast
        with by_return_loop_keys [OF loop no n] counts_okD [OF ok [folded cs_def] n] False
        show False by (auto simp: has_legacy_counts_def dest: map_of_SomeD)
      qed
      ultimately show ?thesis using False by simp
    qed
  qed
qed

section \<open>Adding points\<close>

lemma f64_lt_trans: "f64_lt a b \<Longrightarrow> f64_lt b c \<Longrightarrow> f64_lt a c"
  by (auto simp: f64_lt_def)

lemma f64_lt_irrefl: "\<not> f64_lt a a"
  by (simp add: f64_lt_def)

definition inside :: "bounds \<Rightarrow> point \<Rightarrow> bool" where
  "inside b p \<longleftrightarrow>
     \<not> f64_lt (pt_x p) (vx (b_min b)) \<and> \<not> f64_lt (pt_y p) (vy (b_min b)) \<and>
     \<not> f64_lt (pt_z p) (vz (b_min b)) \<and> \<not> f64_lt (vx (b_max b)) (pt_x p) \<and>
     \<not> f64_lt (vy (b_max b)) (pt_y p) \<and> \<not> f64_lt (vz (b_max b)) (pt_z p)"

lemma inside_grow: "inside (grow b p) p"
  by (simp add: inside_def grow_def f64_lt_irrefl)

lemma inside_grow_mono: "inside b q \<Longrightarrow> inside (grow b p) q"
  by (auto simp: inside_def grow_def dest: f64_lt_trans)

fun add_points :: "('d, 'u) header \<Rightarrow> point list \<Rightarrow> ('d, 'u) header outcome" where
  "add_points h [] = Ok h"
| "add_points h (p # ps) = and_then (add_point h p) (\<lambda>h. add_points h ps)"

text \<open>How many points of a list have a return number.\<close>

definition returns :: "u8 \<Rightarrow> point list \<Rightarrow> nat" where
  "returns r ps = length (filter (\<lambda>p. pt_return_number p = r) ps)"

lemma inside_foldl: "list_all (inside (foldl grow bounds_default ps)) ps"
  by (induction ps rule: rev_induct) (auto simp: list_all_iff inside_grow inside_grow_mono)

text \<open>The counts and the bounds of a header agree with a list of points.\<close>

definition counts_points :: "('d, 'u) header \<Rightarrow> point list \<Rightarrow> bool" where
  "counts_points h ps \<longleftrightarrow>
     unat (h_number_of_points h) = length ps \<and> counts_ok (h_number_of_points_by_return h) \<and>
     (\<forall>r. r \<noteq> 0 \<longrightarrow>
        unat (unwrap_or (map_of (h_number_of_points_by_return h) r) 0) = returns r ps) \<and>
     h_bounds h = foldl grow bounds_default ps"

lemma counts_ok_update: "counts_ok m \<Longrightarrow> r \<noteq> 0 \<Longrightarrow> n \<noteq> 0 \<Longrightarrow> counts_ok (AList.update r n m)"
proof -
  assume ok: "counts_ok m" and r: "r \<noteq> 0" and n: "n \<noteq> 0"
  have "set (AList.update r n m) \<subseteq> insert (r, n) (set m)"
    by (induction m) auto
  then have "\<forall>(k, c) \<in> set (AList.update r n m). k \<noteq> 0 \<and> c \<noteq> 0"
    using ok r n by (force simp: counts_ok_def)
  moreover have "distinct (map fst (AList.update r n m))"
    using ok by (simp add: counts_ok_def distinct_update)
  ultimately show ?thesis by (simp add: counts_ok_def)
qed

lemma returns_le: "returns r ps \<le> length ps"
  by (simp add: returns_def)

lemma add_point_counts:
  assumes inv: "counts_points h ps" and fits: "length ps + 1 < 2 ^ 64"
  shows "\<exists>h'. add_point h p = Ok h' \<and> counts_points h' (ps @ [p]) \<and> clear h' = clear h"
proof -
  let ?m = "h_number_of_points_by_return h" and ?r = "pt_return_number p"
  have n: "checked_add (h_number_of_points h) 1 = Ok (h_number_of_points h + 1)"
    "unat (h_number_of_points h + 1) = length ps + 1"
    using inv fits by (simp_all add: checked_add_def counts_points_def unat_word_ariths)
  have inside: "grow (h_bounds h) p = foldl grow bounds_default (ps @ [p])"
    using inv by (simp add: counts_points_def)
  show ?thesis
  proof (cases "0 < ?r")
    case False
    then show ?thesis
      using inv n inside by (auto simp: add_point_def counts_points_def returns_def word_gt_0 clear_def)
  next
    case True
    define k where "k = unwrap_or (map_of ?m ?r) 0"
    have k: "unat k = returns ?r ps" using inv True by (simp add: counts_points_def k_def word_gt_0)
    then have k1: "unat (k + 1) = returns ?r ps + 1" "checked_add k 1 = Ok (k + 1)"
      using fits returns_le [of ?r ps] by (simp_all add: checked_add_def unat_word_ariths)
    then have pos: "k + 1 \<noteq> 0" by (metis add_is_0 unat_0 zero_neq_one)
    have "unat (unwrap_or (map_of (AList.update ?r (k + 1) ?m) r) 0) = returns r (ps @ [p])"
      if "r \<noteq> 0" for r
      using inv that k1 by (auto simp: update_conv counts_points_def returns_def)
    moreover have "counts_ok (AList.update ?r (k + 1) ?m)"
      using inv pos True by (intro counts_ok_update) (auto simp: counts_points_def word_gt_0)
    ultimately show ?thesis
      using True n inside k1(2)
      by (auto simp: add_point_def count_return_def counts_points_def clear_def simp flip: k_def)
  qed
qed

lemma add_points_counts:
  assumes "counts_points h qs" "length qs + length ps < 2 ^ 64"
  shows "\<exists>h'. add_points h ps = Ok h' \<and> counts_points h' (qs @ ps) \<and> clear h' = clear h"
  using assms
proof (induction ps arbitrary: h qs)
  case Nil
  then show ?case by auto
next
  case (Cons p ps)
  obtain h1 where h1: "add_point h p = Ok h1" "counts_points h1 (qs @ [p])" "clear h1 = clear h"
    using add_point_counts [OF Cons.prems(1), of p] Cons.prems(2) by auto
  with Cons.IH [OF h1(2)] Cons.prems(2) show ?case by auto
qed

lemma counts_points_clear: "counts_points (clear h) []"
  by (simp add: counts_points_def clear_def counts_ok_def returns_def)

section \<open>A concrete environment\<close>

text \<open>Dates as a year and a day of the year, identifiers as 128-bit numbers.\<close>

typedef day_of_year = "{1..366 :: nat}"
  by auto

definition demo_env :: "(int \<times> day_of_year, 128 word) env" where
  "demo_env =
     \<lparr>env_from_yo_opt = (\<lambda>y n. if 1 \<le> n \<and> n \<le> 366 then Some (y, Abs_day_of_year n) else None),
      env_ordinal = (\<lambda>d. Rep_day_of_year (snd d)), env_year = fst,
      env_today = (2024, Abs_day_of_year 1),
      env_uuid_as_bytes = to_le 16, env_uuid_from_bytes = from_le, env_uuid_nil = 0,
      env_laz = False, env_pkg_version = [0x30], env_point_size = 160\<rparr>"

lemma demo_env_laws: "chrono_laws demo_env" "uuid_laws demo_env"
proof -
  have "1 \<le> Rep_day_of_year d \<and> Rep_day_of_year d \<le> 366" for d
    using Rep_day_of_year [of d] by simp
  then show "chrono_laws demo_env"
    by (auto simp: chrono_laws_def demo_env_def Rep_day_of_year_inverse)
  have "from_le (to_le 16 u) = (u :: 128 word)" for u by (rule from_le_to_le) simp
  then show "uuid_laws demo_env" by (simp add: uuid_laws_def demo_env_def)
qed

definition demo_header :: "(int \<times> day_of_year, 128 word) header" where
  "demo_header = (header_default demo_env)\<lparr>h_date := None, h_version := Version 1 4,
     h_number_of_points := 2, h_number_of_points_by_return := [(1, 1), (6, 1)]\<rparr>"

lemma demo_header_inv: "header_inv demo_header"
  by (simp add: header_inv_def demo_header_def header_default_def supports_point_format_def
      signed_padding_def requires_point_data_start_signature_def format_default_def)

section \<open>Properties\<close>

lemma mset_split: "mset xs = mset (filter (\<lambda>x. \<not> P x) xs) + mset (filter P xs)"
  by (induction xs) simp_all

text \<open>
  C10. A builder becomes a header exactly when its version supports its features, its point
  format and its extended records, and point padding is only used before extended records.
  The header then keeps the version, satisfies the header invariant, and has all the records
  of the builder, each once; otherwise the result is an error and never a panic.
\<close>

theorem into_header_builds:
  "if buildable b
   then \<exists>h. into_header b = Ok h \<and> header_inv h \<and> h_version h = bl_version b \<and>
          mset (all_vlrs h) = mset (bl_vlrs b) + mset (bl_evlrs b)
   else \<exists>e. into_header b = Err e"
proof (cases "buildable b")
  case True
  have "h_version (built_header b vs es) = bl_version b" for vs es by (simp add: built_header_def)
  moreover have "mset (all_vlrs (built_header b (fst (placed b)) (snd (placed b))))
      = mset (bl_vlrs b) + mset (bl_evlrs b)"
    by (simp only: all_vlrs_def built_header_def header.simps placed_eq fst_conv snd_conv mset_append)
      (simp only: mset_split [where P = has_large_data and xs = "bl_vlrs b"] add_ac
        mset_split [where P = "\<lambda>e. supports (bl_version b) Evlrs \<or> has_large_data e" and xs = "bl_evlrs b"])
  ultimately show ?thesis
    using into_header_cases [of b] built_header_inv [OF True] True by auto
next
  case False
  then show ?thesis using into_header_cases [of b] by simp
qed

text \<open>
  C28. Turning a header into a builder and building it gives the header back, except that the
  recorded start of the extended records is forgotten.
\<close>

theorem builder_of_header_roundtrip:
  assumes "header_inv h"
  shows "into_header (builder_of_header h) = Ok (h\<lparr>h_start_of_first_evlr := None\<rparr>)"
  by (rule into_header_of_header [OF assms])

theorem builder_of_header_roundtrip_witness:
  "into_header (builder_of_header demo_header) = Ok (demo_header\<lparr>h_start_of_first_evlr := None\<rparr>)"
  using builder_of_header_roundtrip [OF demo_header_inv] .

text \<open>
  C29. The minimum supported version of a builder is the version 1.0 to 1.4 with the least
  minor number at which the builder can be built, and there is none exactly when it cannot be
  built at any of them.
\<close>

theorem minimum_supported_version_least:
  "case minimum_supported_version b of
     Some v \<Rightarrow> \<exists>i < 5. v = Version 1 (word_of_nat i) \<and>
       is_ok (into_header (with_minor b (word_of_nat i))) \<and>
       (\<forall>j < i. \<not> is_ok (into_header (with_minor b (word_of_nat j))))
   | None \<Rightarrow> \<forall>i < 5. \<not> is_ok (into_header (with_minor b (word_of_nat i)))"
  by (auto simp: is_ok_into_header minimum_supported_version_Some minimum_supported_version_None
      split: option.split)

theorem minimum_supported_version_least_witness:
  "minimum_supported_version (builder_of_header demo_header) = Some (Version 1 0) \<and>
   is_ok (into_header (with_minor (builder_of_header demo_header) 0))"
proof -
  have "is_ok (into_header (with_minor (builder_of_header demo_header) 0))"
    by (simp add: is_ok_into_header buildable_def with_minor_def builder_of_header_def demo_header_def
        header_default_def supports_point_format_def placed_eq format_default_def)
  moreover from this obtain v where v: "minimum_supported_version (builder_of_header demo_header) = Some v"
    by (auto simp: minimum_supported_version_def)
  moreover from minimum_supported_version_least [of "builder_of_header demo_header"] v calculation(1)
  have "v = Version 1 0" by (cases "0 < (0 :: nat)") (force simp: gr0_conv_Suc)+
  ultimately show ?thesis by simp
qed

text \<open>
  C11. Adding points to a cleared header counts them: the number of points, the number of
  points of every return and the bounds, which are the box grown by every point and which no
  added point lies outside of, are those of the points; nothing else of the header changes, and
  nothing overflows below 2 to the 64 points.
\<close>

theorem add_points_exact:
  assumes "length ps < 2 ^ 64"
  shows "\<exists>h'. add_points (clear h) ps = Ok h' \<and> clear h' = clear h \<and>
     unat (h_number_of_points h') = length ps \<and>
     (\<forall>r. r \<noteq> 0 \<longrightarrow> unat (unwrap_or (number_of_points_by_return h' r) 0) = returns r ps) \<and>
     h_bounds h' = foldl grow bounds_default ps \<and> list_all (inside (h_bounds h')) ps"
  using add_points_counts [OF counts_points_clear [of h], of ps] assms
  by (auto simp: counts_points_def number_of_points_by_return_def inside_foldl) (simp add: clear_def)

theorem add_points_exact_witness:
  "\<exists>h'. add_points (clear demo_header) [survey_point, survey_point] = Ok h' \<and>
     unat (h_number_of_points h') = 2 \<and> unat (unwrap_or (number_of_points_by_return h' 1) 0) = 2"
  using add_points_exact [of "[survey_point, survey_point]" demo_header]
  by (auto simp: returns_def survey_point_def)

lemma demo_raw:
  "\<exists>raw. header_into_raw demo_env demo_header = Ok raw \<and> rh_evlr raw = None \<and>
     rh_offset_to_point_data raw = 375"
proof -
  have "adapt bounds_default ts = Ok bounds_default" for ts
    by (simp add: adapt_def inner_convert_def bounds_default_def fp_eval)
  moreover have "header_size demo_header = Ok 375" "offset_to_point_data demo_header = Ok 375"
    by (simp_all add: offset_to_point_data_def header_size_def demo_header_def header_default_def
        version_header_size_simps u16_MAX_def u32_MAX_def)
  moreover have "to_writable_u8 False format_default = Ok 0" "format_len format_default = Ok 20"
    by (simp_all add: to_writable_u8_def to_u8_def format_default_def format_len_def add_if_def
        checked_add_def)
  moreover have r5: "replicate 5 (0 :: u32) = [0, 0, 0, 0, 0]" by (simp add: numeral_eq_Suc)
  moreover have "number_of_points_by_return_raw demo_header = Ok [1, 0, 0, 0, 0]"
    by (simp add: number_of_points_by_return_raw_def demo_header_def u32_MAX_def r5 supports_simps)
  moreover have "\<exists>l. header_large_file demo_header = Ok (Some l)"
    by (simp add: header_large_file_def demo_header_def)
  ultimately show ?thesis
    by (auto simp: header_into_raw_def demo_header_def header_default_def system_identifier_raw_def
        generating_software_raw_def from_las_str_def demo_env_def number_of_points_raw_def
        number_of_variable_length_records_def u32_MAX_def header_evlr_def)
qed

text \<open>
  C30. The counts by return that are read back from a written header.  When some return up to
  five has a count that fits in 32 bits, only such counts are read back, because the reader
  then uses the legacy array alone: the counts of the returns six to fifteen are written and
  lost on reading.  Otherwise all counts are read back.
\<close>

theorem counts_read_back:
  assumes "header_into_raw E h = Ok raw" "counts_ok (h_number_of_points_by_return h)"
    and "builder_points_by_return (stored_header raw) = Ok m"
  shows "map_of m r =
     (if has_legacy_counts (h_number_of_points_by_return h)
      then (case number_of_points_by_return h r of
              Some n \<Rightarrow> if unat r \<le> 5 \<and> unat n \<le> u32_MAX then Some n else None | None \<Rightarrow> None)
      else number_of_points_by_return h r)"
  using counts_stored [OF assms] by (simp add: number_of_points_by_return_def)

theorem counts_read_back_witness:
  "\<exists>raw m. header_into_raw demo_env demo_header = Ok raw \<and>
     builder_points_by_return (stored_header raw) = Ok m \<and>
     number_of_points_by_return demo_header 6 = Some 1 \<and> map_of m 6 = None \<and> map_of m 1 = Some 1"
proof -
  obtain raw where raw: "header_into_raw demo_env demo_header = Ok raw" using demo_raw by blast
  have "h_start_of_first_evlr demo_header = None" by (simp add: demo_header_def header_default_def)
  with stored_header_ok [OF raw demo_header_inv demo_env_laws(2)]
  obtain m where m: "builder_points_by_return (stored_header raw) = Ok m"
    using builder_points_by_return_Ok [of "stored_header raw"] by auto
  have "counts_ok (h_number_of_points_by_return demo_header)"
    "has_legacy_counts (h_number_of_points_by_return demo_header)"
    by (simp_all add: counts_ok_def has_legacy_counts_def demo_header_def u32_MAX_def)
  with counts_read_back [OF raw _ m, of 6] counts_read_back [OF raw _ m, of 1] raw m show ?thesis
    by (simp add: number_of_points_by_return_def demo_header_def u32_MAX_def)
qed

lemma demo_header_ok: "header_ok demo_env demo_header"
  using demo_header_inv demo_env_laws
  by (simp add: header_ok_def header_text_ok_def vlrs_ok_def demo_header_def header_default_def
      las_text_def utf8_next.simps date_ok_def demo_env_def)

text \<open>
  C9. A header that was written at the start of a file, followed by the points, the point
  padding and the extended records, is read back with everything it had, except that its
  bounds are those of the integer coordinates, its counts by return are those of the arrays,
  padding after compressed points is dropped, and of its extended records only the first is
  there.  The stream is left at the first point.
\<close>

theorem header_file_roundtrip:
  assumes "header_into_raw E h = Ok raw" "header_ok E h" "h_start_of_first_evlr h \<noteq> Some 0"
    and "points_fit raw h pts"
  shows "\<exists>c1 bnds m. header_write_to E h \<lparr>c_data = [], c_pos = 0\<rparr> = (Ok (), c1) \<and>
     adapt (h_bounds h) (h_transforms h) = Ok bnds \<and>
     builder_points_by_return (stored_header raw) = Ok m \<and>
     header_new E
       \<lparr>c_data = c_data c1 @ pts @ h_point_padding h @ concat (map (vlr_bytes True) (h_evlrs h)) @ rest,
        c_pos = 0\<rparr>
     = (Ok (h\<lparr>h_bounds := bnds, h_number_of_points_by_return := m,
              h_evlrs := take 1 (h_evlrs h),
              h_point_padding := kept_padding (h_point_format h) (h_point_padding h),
              h_start_of_first_evlr := None\<rparr>),
        \<lparr>c_data = c_data c1 @ pts @ h_point_padding h @ concat (map (vlr_bytes True) (h_evlrs h)) @ rest,
         c_pos = unat (rh_offset_to_point_data raw)\<rparr>)"
proof -
  let ?c0 = "\<lparr>c_data = [], c_pos = 0\<rparr>"
  have inv: "header_inv h" "uuid_laws E" "vlrs_ok h" using assms(2) by (auto simp: header_ok_def)
  note len = length_header_bytes [OF assms(1) inv(1,2) assms(3) inv(3)]
  have w: "header_write_to E h ?c0 = (Ok (), put (header_bytes raw h) ?c0)"
    using writes_las_header [OF assms(1) inv(3)] by (simp add: writes_def)
  have d: "c_data (put (header_bytes raw h) ?c0) = header_bytes raw h" by (simp add: put_def)
  from header_read_back [OF assms, of "\<lparr>c_data = file_layout raw h pts rest, c_pos = 0\<rparr>" rest] w d
  show ?thesis by (auto simp: file_layout_def len(2) simp del: One_nat_def)
qed

theorem header_file_roundtrip_witness:
  "\<exists>raw c1 h'. header_into_raw demo_env demo_header = Ok raw \<and>
     header_write_to demo_env demo_header \<lparr>c_data = [], c_pos = 0\<rparr> = (Ok (), c1) \<and>
     header_new demo_env \<lparr>c_data = c_data c1 @ replicate 40 0, c_pos = 0\<rparr>
       = (Ok h', \<lparr>c_data = c_data c1 @ replicate 40 0, c_pos = 375\<rparr>) \<and>
     h_number_of_points h' = 2 \<and> h_version h' = Version 1 4"
proof -
  obtain raw where raw: "header_into_raw demo_env demo_header = Ok raw" "rh_evlr raw = None"
    "rh_offset_to_point_data raw = 375" using demo_raw by blast
  have "points_fit raw demo_header (replicate 40 0)"
    using raw by (simp add: points_fit_def demo_header_def header_default_def record_len_def
        format_default_def)
  moreover have "h_start_of_first_evlr demo_header \<noteq> Some 0" "h_evlrs demo_header = []"
    "h_point_padding demo_header = []"
    by (simp_all add: demo_header_def header_default_def)
  ultimately show ?thesis
    using header_file_roundtrip [OF raw(1) demo_header_ok, of "replicate 40 0" "[]"] raw
    by (auto simp: demo_header_def)
qed

lemma builder_point_format_len:
  assumes "builder_point_format raw = Ok f"
  shows "record_len f = unat (rh_point_data_record_length raw)"
proof -
  let ?l = "rh_point_data_record_length raw"
  obtain f0 n where f0: "format_new (rh_point_data_record_format raw) = Ok f0" "format_len f0 = Ok n"
    using assms by (auto simp: builder_point_format_def)
  then have le: "n \<le> ?l" and f: "f = (if ?l = n then f0 else f0\<lparr>extra_bytes := ?l - n\<rparr>)"
    using assms by (auto simp: builder_point_format_def not_less split: if_splits)
  have n: "unat n = record_len f0" using f0(2) by (rule format_len_OkD)
  have "extra_bytes f0 = 0" using f0(1) by (auto simp: format_new_def format_of_id_def split: if_splits)
  then have "record_len (f0\<lparr>extra_bytes := ?l - n\<rparr>) = record_len f0 + unat (?l - n)"
    by (simp add: record_len_def)
  then show ?thesis using f n le by (auto simp: unat_sub word_le_nat_alt)
qed

text \<open>What reading a header takes from the raw header.\<close>

lemma read_evlr_keeps:
  assumes "read_evlr b eop e c = (Ok b', c')"
  shows "bl_number_of_points b' = bl_number_of_points b \<and> bl_point_format b' = bl_point_format b"
  using assms by (auto simp: read_evlr_def io_bind_eq_Ok io_return_def split: option.splits)

lemma header_new_counts:
  assumes "header_new E c = (Ok h, c')" "raw_header_read_from c = (Ok raw, c1)"
  shows "h_number_of_points h = builder_number_of_points raw"
    "record_len (h_point_format h) = unat (rh_point_data_record_length raw)"
    "c_pos c' = unat (rh_offset_to_point_data raw)"
proof -
  obtain b vs pad eop c2 b1 c3 where b: "builder_new E raw = Ok b"
    and ev: "read_evlr (b\<lparr>bl_vlrs := vs, bl_vlr_padding := pad\<rparr>) eop (rh_evlr raw) c2 = (Ok b1, c3)"
    and h: "into_header (upgraded b1) = Ok h" "c_pos c' = unat (rh_offset_to_point_data raw)"
    using assms by (auto simp: header_new_def io_bind_eq_Ok io_lift_def seek_start_def)
  from read_evlr_keeps [OF ev] have b1: "bl_number_of_points b1 = bl_number_of_points b"
    "bl_point_format b1 = bl_point_format b" by simp_all
  have "bl_number_of_points (upgraded b1) = bl_number_of_points b1"
    "bl_point_format (upgraded b1) = bl_point_format b1"
    by (simp_all add: upgraded_def split: option.split)
  with h(1) b1 have "h_number_of_points h = bl_number_of_points b" "h_point_format h = bl_point_format b"
    by (auto simp: into_header_Ok built_header_def)
  moreover have "bl_number_of_points b = builder_number_of_points raw"
    "builder_point_format raw = Ok (bl_point_format b)"
    using b by (auto simp: builder_new_def and_then_eq_Ok)
  ultimately show "h_number_of_points h = builder_number_of_points raw"
    "record_len (h_point_format h) = unat (rh_point_data_record_length raw)"
    "c_pos c' = unat (rh_offset_to_point_data raw)"
    using builder_point_format_len h(2) by simp_all
qed

text \<open>The two places that choose between the legacy and the large number of points agree.\<close>

lemma number_of_points_agree:
  "number_of_point_records raw = builder_number_of_points raw"
  "unat (builder_number_of_points raw) =
     (if rh_number_of_point_records raw \<noteq> 0 then unat (rh_number_of_point_records raw)
      else case rh_large_file raw of Some l \<Rightarrow> unat (lf_number_of_point_records l) | None \<Rightarrow> 0)"
proof -
  have "(ucast n = (0 :: u64)) = (n = 0)" for n :: u32
    by (simp add: word_unat_eq_iff unat_ucast_up)
  then show "number_of_point_records raw = builder_number_of_points raw"
    by (auto simp: number_of_point_records_def builder_number_of_points_def Let_def word_gt_0
        split: option.splits)
  show "unat (builder_number_of_points raw) =
     (if rh_number_of_point_records raw \<noteq> 0 then unat (rh_number_of_point_records raw)
      else case rh_large_file raw of Some l \<Rightarrow> unat (lf_number_of_point_records l) | None \<Rightarrow> 0)"
    by (auto simp: builder_number_of_points_def word_gt_0 unat_ucast_up split: option.splits)
qed

text \<open>
  C33. The extent of the points, for a header read from any bytes.  The number of points is the
  legacy count, or that of a large file when the legacy count is zero.  When the offset to
  the points plus that number of records fits in 64 bits, it is the end of the points, where
  the extended records are looked for; and when a header comes out, it has that number of
  points, its format has records of exactly the declared length, extra bytes included, and the
  stream is left so that reading all points by the format ends at the end of the points.  When
  it does not fit, reading the header panics.
\<close>

theorem points_end_where_declared:
  assumes "raw_header_read_from c = (Ok raw, c1)"
  shows "let n = (if rh_number_of_point_records raw \<noteq> 0 then unat (rh_number_of_point_records raw)
                  else case rh_large_file raw of
                         Some l \<Rightarrow> unat (lf_number_of_point_records l) | None \<Rightarrow> 0);
             len = unat (rh_point_data_record_length raw);
             e = unat (rh_offset_to_point_data raw) + n * len
         in if e < 2 ^ 64
            then offset_to_end_of_points raw = Ok (word_of_nat e) \<and>
              (\<forall>h c'. header_new E c = (Ok h, c') \<longrightarrow>
                 unat (h_number_of_points h) = n \<and> record_len (h_point_format h) = len \<and>
                 c_pos c' + unat (h_number_of_points h) * record_len (h_point_format h) = e)
            else fst (header_new E c) = Panic"
proof -
  let ?n = "if rh_number_of_point_records raw \<noteq> 0 then unat (rh_number_of_point_records raw)
    else case rh_large_file raw of Some l \<Rightarrow> unat (lf_number_of_point_records l) | None \<Rightarrow> 0"
  let ?e = "unat (rh_offset_to_point_data raw) + ?n * unat (rh_point_data_record_length raw)"
  note n = number_of_points_agree
  have e: "offset_to_end_of_points raw = (if ?e < 2 ^ 64 then Ok (word_of_nat ?e) else Panic)"
    unfolding offset_to_end_of_points_val Let_def n ..
  have "fst (header_new E c) = Panic" if "\<not> ?e < 2 ^ 64"
    unfolding header_new_def io_bind_def [of raw_header_read_from] assms
    using e that by (simp add: io_bind_def io_lift_def)
  moreover have "unat (h_number_of_points h) = ?n \<and>
      record_len (h_point_format h) = unat (rh_point_data_record_length raw) \<and>
      c_pos c' + unat (h_number_of_points h) * record_len (h_point_format h) = ?e"
    if "header_new E c = (Ok h, c')" for h c'
    using header_new_counts [OF that assms] n(2) [of raw] by simp
  ultimately show ?thesis using e unfolding Let_def by auto
qed

text \<open>A header of version 1.4 that declares more points than a file can have.\<close>

definition huge_raw :: raw_header where
  "huge_raw = raw_header_default\<lparr>rh_version := Version 1 4, rh_header_size := 375,
     rh_offset_to_point_data := 375,
     rh_large_file := Some \<lparr>lf_number_of_point_records = 0x1000000000000000,
       lf_number_of_points_by_return = replicate 15 0\<rparr>\<rparr>"

lemma huge_raw_ok: "raw_header_ok huge_raw"
  by (simp add: raw_header_ok_def huge_raw_def raw_header_default_def padding_len_def supports_simps
      version_header_size_simps)

theorem points_end_where_declared_witness:
  "(\<exists>raw c c1 h. raw_header_read_from c = (Ok raw, c1) \<and> offset_to_end_of_points raw = Ok 415 \<and>
      fst (header_new demo_env c) = Ok h \<and> h_number_of_points h = 2) \<and>
   (\<exists>c c1. raw_header_read_from c = (Ok huge_raw, c1) \<and> fst (header_new demo_env c) = Panic)"
proof
  obtain raw where raw: "header_into_raw demo_env demo_header = Ok raw" "rh_evlr raw = None"
    "rh_offset_to_point_data raw = 375" using demo_raw by blast
  have fields: "h_point_format demo_header = format_default" "record_len format_default = 20"
    "h_number_of_points demo_header = 2" "h_start_of_first_evlr demo_header \<noteq> Some 0"
    by (simp_all add: demo_header_def header_default_def record_len_def format_default_def)
  then have "points_fit raw demo_header (replicate 40 0)" using raw by (simp add: points_fit_def)
  from header_read_back [OF raw(1) demo_header_ok fields(4) this, of
      "\<lparr>c_data = file_layout raw demo_header (replicate 40 0) [], c_pos = 0\<rparr>" "[]"] obtain h c c' where
    h: "header_new demo_env c = (Ok h, c')" "h_number_of_points h = 2" "h_point_format h = format_default"
    "c_pos c' = length (header_bytes raw demo_header)"
    using fields by (auto simp del: One_nat_def)
  have "header_inv demo_header" "uuid_laws demo_env" "vlrs_ok demo_header"
    using demo_header_ok by (auto simp: header_ok_def)
  with h(4) raw fields(4) have pos: "c_pos c' = 375" by (simp add: length_header_bytes(2))
  obtain r c1 where r: "raw_header_read_from c = (Ok r, c1)"
    using h(1) by (auto simp: header_new_def io_bind_eq_Ok)
  have "offset_to_end_of_points r = Ok 415"
    using points_end_where_declared [OF r, of demo_env] h(1-3) pos fields(2)
    by (auto simp: Let_def simp del: of_nat_add of_nat_mult split: if_splits)
  moreover have "fst (header_new demo_env c) = Ok h" using h(1) by simp
  ultimately show "\<exists>raw c c1 h. raw_header_read_from c = (Ok raw, c1) \<and> offset_to_end_of_points raw = Ok 415 \<and>
      fst (header_new demo_env c) = Ok h \<and> h_number_of_points h = 2"
    using r h(2) by blast
next
  have "reads raw_header_read_from (enc_header huge_raw) huge_raw" using huge_raw_ok by (rule reads_header)
  then have r: "raw_header_read_from \<lparr>c_data = enc_header huge_raw, c_pos = 0\<rparr>
      = (Ok huge_raw, skip (length (enc_header huge_raw)) \<lparr>c_data = enc_header huge_raw, c_pos = 0\<rparr>)"
    by (simp add: reads_def ahead_def)
  from points_end_where_declared [OF r, of demo_env] r
  show "\<exists>c c1. raw_header_read_from c = (Ok huge_raw, c1) \<and> fst (header_new demo_env c) = Panic"
    by (auto simp: huge_raw_def raw_header_default_def)
qed

end
