(* ===== verification/Reader_Contract.thy ===== *)
theory Reader_Contract
  imports Las_Reader Header_Counts
begin

text \<open>
  The contract of the trait \<^verbatim>\<open>ReadPoints\<close> and its two implementations.  A reader \<open>stands\<close> for
  a list of points and an index.  \<open>point_stream\<close> is the contract of \<^verbatim>\<open>read_point\<close> alone, from
  which the loop of \<^verbatim>\<open>read_points\<close> is proved once; \<open>point_source\<close> adds \<^verbatim>\<open>read_points\<close> and
  \<^verbatim>\<open>seek\<close>; \<open>steady_source\<close> adds that reading no points changes nothing, which the uncompressed
  reader keeps and the compressed one does not.
\<close>

section \<open>Contracts\<close>

lemma min_word_of_nat:
  assumes "m < 2 ^ 64"
  shows "word_of_nat (min (unat n) m) = (min n (word_of_nat m) :: u64)"
proof -
  have "unat (word_of_nat m :: u64) = m" using assms by (intro unat_of_nat_eq) simp
  then show ?thesis by (auto simp: min_def word_le_nat_alt)
qed

lemma take_min_drop: "take (min n (length xs - i)) (drop i xs) = take n (drop i xs)"
  by (simp add: min_def)

locale point_stream =
  fixes read_point :: "('r, point option) io"
    and stands :: "'r \<Rightarrow> point list \<Rightarrow> nat \<Rightarrow> bool"
  assumes stands_le: "stands r ps i \<Longrightarrow> i \<le> length ps \<and> length ps < 2 ^ 64"
    and next_some: "stands r ps i \<Longrightarrow> i < length ps \<Longrightarrow>
      \<exists>r'. read_point r = (Ok (Some (ps ! i)), r') \<and> stands r' ps (Suc i)"
    and next_none: "stands r ps i \<Longrightarrow> i = length ps \<Longrightarrow> read_point r = (Ok None, r)"
begin

lemma alone_next:
  assumes "stands r ps i" "i < length ps"
  shows "\<exists>r'. alone read_point (r, x) = (Ok (Some (ps ! i)), r', x) \<and> stands r' ps (Suc i)"
  using next_some [OF assms] by (auto simp: alone_def io_zoom_def)

lemma push_points_stands:
  assumes "stands r ps i" "unat cnt + n < 2 ^ 64" "n \<le> length ps - i"
  shows "\<exists>r'. push_points read_point n cnt (r, acc) =
     (Ok (cnt + word_of_nat n), r', acc @ take n (drop i ps)) \<and> stands r' ps (i + n)"
  using assms
proof (induction n arbitrary: r i cnt acc)
  case 0
  then show ?case by (auto simp: io_return_def)
next
  case (Suc n)
  then have lt: "i < length ps" by simp
  from alone_next [OF Suc.prems(1) lt, of acc] obtain r1 where
    r1: "alone read_point (r, acc) = (Ok (Some (ps ! i)), r1, acc)" "stands r1 ps (Suc i)" by blast
  have cnt: "checked_add cnt 1 = Ok (cnt + 1)" "unat (cnt + 1) = unat cnt + 1"
    using Suc.prems(2) by (simp_all add: checked_add_def unat_word_ariths)
  have d: "drop i ps = ps ! i # drop (Suc i) ps" using lt by (rule Cons_nth_drop_Suc [symmetric])
  have "push_points read_point (Suc n) cnt (r, acc) =
      push_points read_point n (cnt + 1) (r1, acc @ [ps ! i])"
    by (simp add: io_bind_def [of "alone read_point"] r1(1) cnt(1))
  moreover have "n \<le> length ps - Suc i" "unat (cnt + 1) + n < 2 ^ 64"
    using Suc.prems(2,3) cnt(2) by simp_all
  then obtain r2 where "push_points read_point n (cnt + 1) (r1, acc @ [ps ! i]) =
      (Ok (cnt + 1 + word_of_nat n), r2, (acc @ [ps ! i]) @ take n (drop (Suc i) ps))"
    "stands r2 ps (Suc i + n)" using Suc.IH [OF r1(2), of "cnt + 1" "acc @ [ps ! i]"] by blast
  ultimately show ?case using d by (auto simp: add_ac)
qed

lemma io_times_stands:
  assumes "stands r ps i"
  shows "\<exists>r'. io_times n read_point r =
       (Ok (map Some (take n (drop i ps)) @ replicate (n - (length ps - i)) None), r') \<and>
     stands r' ps (min (i + n) (length ps))"
  using assms
proof (induction n arbitrary: r i)
  case 0
  then show ?case using stands_le [OF 0] by (auto simp: io_return_def)
next
  case (Suc n)
  show ?case
  proof (cases "i < length ps")
    case True
    from next_some [OF Suc.prems True] obtain r1
      where r1: "read_point r = (Ok (Some (ps ! i)), r1)" "stands r1 ps (Suc i)" by blast
    have "drop i ps = ps ! i # drop (Suc i) ps" using True by (rule Cons_nth_drop_Suc [symmetric])
    with Suc.IH [OF r1(2)] True r1(1) show ?thesis
      by (auto simp: io_bind_def io_return_def Suc_diff_Suc)
  next
    case False
    then have i: "i = length ps" using stands_le [OF Suc.prems] by simp
    note r1 = next_none [OF Suc.prems i]
    from Suc.IH [OF Suc.prems] i r1 show ?thesis
      by (auto simp: io_bind_def io_return_def)
  qed
qed

end

locale point_source = point_stream +
  fixes read_points :: "u64 \<Rightarrow> ('a \<times> point list, u64) io"
    and seek :: "u64 \<Rightarrow> ('a, unit) io" and point_size :: nat
  assumes many: "stands r ps i \<Longrightarrow> 0 < n \<Longrightarrow> i < length ps \<Longrightarrow>
      (length acc + length ps) * point_size < 2 ^ 63 \<Longrightarrow>
      \<exists>r'. read_points n (r, acc) =
          (Ok (min n (word_of_nat (length ps - i))), r', acc @ take (unat n) (drop i ps)) \<and>
        stands r' ps (min (i + unat n) (length ps))"
    and seek_to: "stands r ps i \<Longrightarrow> j \<le> length ps \<Longrightarrow>
      \<exists>r'. seek (word_of_nat j) r = (Ok (), r') \<and> stands r' ps j"
begin

text \<open>Reading in chunks is reading at once.\<close>

lemma chunks:
  assumes "stands r ps i" "list_all (\<lambda>n. 0 < n) ns" "i + sum_list (map unat (butlast ns)) < length ps"
    and "(length acc + length ps + sum_list (map unat ns)) * point_size < 2 ^ 63"
  shows "\<exists>r'. io_each (\<lambda>n. io_bind (read_points n) (\<lambda>_. io_return ())) ns (r, acc) =
       (Ok (), r', acc @ take (sum_list (map unat ns)) (drop i ps)) \<and>
     stands r' ps (min (i + sum_list (map unat ns)) (length ps))"
  using assms
proof (induction ns arbitrary: r i acc)
  case Nil
  then show ?case using stands_le [OF Nil(1)] by (auto simp: io_return_def)
next
  case (Cons n ns)
  let ?i = "min (i + unat n) (length ps)"
  have lt: "i < length ps" using Cons.prems(3) by linarith
  have fits: "(length acc + length ps) * point_size < 2 ^ 63"
    using Cons.prems(4) by (rule le_less_trans [rotated]) (simp add: mult_le_mono1)
  from many [OF Cons.prems(1) _ lt fits] Cons.prems(2) obtain r1 where
    r1: "read_points n (r, acc) = (Ok (min n (word_of_nat (length ps - i))), r1,
           acc @ take (unat n) (drop i ps))" "stands r1 ps ?i" by auto
  show ?case
  proof (cases "ns = []")
    case True
    then show ?thesis using r1 by (auto simp: io_bind_def io_return_def)
  next
    case False
    then have le: "i + unat n + sum_list (map unat (butlast ns)) < length ps"
      using Cons.prems(3) by simp
    then have i: "?i = i + unat n" by simp
    let ?acc = "acc @ take (unat n) (drop i ps)"
    have "(length ?acc + length ps + sum_list (map unat ns)) * point_size < 2 ^ 63"
      using Cons.prems(4) by (rule le_less_trans [rotated]) (intro mult_le_mono1, simp)
    from Cons.IH [OF r1(2) [unfolded i] _ le this] Cons.prems(2) show ?thesis
      using r1(1) by (auto simp: io_bind_def io_return_def take_add add.assoc add.commute)
  qed
qed

text \<open>Reading everything after seeking to a point.\<close>

lemma seek_read:
  assumes "stands r ps i" "j < length ps" "(length acc + length ps) * point_size < 2 ^ 63"
  shows "\<exists>r1 r2. seek (word_of_nat j) r = (Ok (), r1) \<and>
     read_points (word_of_nat (length ps)) (r1, acc)
       = (Ok (word_of_nat (length ps - j)), r2, acc @ drop j ps) \<and> stands r2 ps (length ps)"
proof -
  from seek_to [OF assms(1), of j] assms(2) obtain r1
    where r1: "seek (word_of_nat j) r = (Ok (), r1)" "stands r1 ps j" by auto
  have len: "length ps < 2 ^ 64" using stands_le [OF assms(1)] by simp
  then have un: "unat (word_of_nat (length ps) :: u64) = length ps"
    "unat (word_of_nat (length ps - j) :: u64) = length ps - j"
    by (intro unat_of_nat_eq; simp)+
  then have "0 < (word_of_nat (length ps) :: u64)"
    "min (word_of_nat (length ps)) (word_of_nat (length ps - j) :: u64) = word_of_nat (length ps - j)"
    using assms(2) by (auto simp: word_less_nat_alt word_le_nat_alt intro!: min_absorb2
        simp del: of_nat_diff)
  from many [OF r1(2) this(1) assms(2,3)] this(2) un(1) r1(1) show ?thesis by auto
qed

end

locale steady_source = point_source +
  assumes none: "stands r ps i \<Longrightarrow> n = 0 \<or> i = length ps \<Longrightarrow>
    length acc * point_size < 2 ^ 63 \<Longrightarrow> read_points n (r, acc) = (Ok 0, r, acc)"
begin

lemma any:
  assumes "stands r ps i" "(length acc + length ps) * point_size < 2 ^ 63"
  shows "\<exists>k r'. read_points n (r, acc) = (Ok k, r', acc @ take (unat n) (drop i ps)) \<and>
     unat k = min (unat n) (length ps - i) \<and> stands r' ps (min (i + unat n) (length ps))"
proof (cases "0 < n \<and> i < length ps")
  case True
  have "length ps - i < 2 ^ 64" using stands_le [OF assms(1)] by linarith
  then have "unat (word_of_nat (length ps - i) :: u64) = length ps - i"
    by (intro unat_of_nat_eq) simp
  then have "unat (min n (word_of_nat (length ps - i))) = min (unat n) (length ps - i)"
    by (simp add: min_def word_le_nat_alt)
  with many [OF assms(1) _ _ assms(2), of n] True show ?thesis by auto
next
  case False
  have "length acc * point_size < 2 ^ 63"
    using assms(2) by (rule le_less_trans [rotated]) (simp add: mult_le_mono1)
  with none [OF assms(1), of n acc] False stands_le [OF assms(1)] assms(1) show ?thesis
    by (auto simp: word_gt_0 not_less min_absorb1)
qed

end

section \<open>The uncompressed reader\<close>

text \<open>A point record at a position of a stream, and in a run of bytes.\<close>

definition record_at :: "format \<Rightarrow> transform vector \<Rightarrow> bytes \<Rightarrow> nat \<Rightarrow> point \<Rightarrow> bool" where
  "record_at f ts bs n p \<longleftrightarrow>
     (\<exists>raw. raw_point_read_from f \<lparr>c_data = bs, c_pos = n\<rparr>
         = (Ok raw, \<lparr>c_data = bs, c_pos = n + record_len f\<rparr>) \<and> point_new raw ts = Ok p)"

definition record_of :: "format \<Rightarrow> transform vector \<Rightarrow> bytes \<Rightarrow> point \<Rightarrow> bool" where
  "record_of f ts bs p \<longleftrightarrow>
     length bs = record_len f \<and>
     (\<exists>raw. reads (raw_point_read_from f) bs raw \<and> point_new raw ts = Ok p)"

lemma record_of_at:
  "record_of f ts bs p \<Longrightarrow> ahead bs \<lparr>c_data = d, c_pos = n\<rparr> \<Longrightarrow> record_at f ts d n p"
  by (auto simp: record_of_def record_at_def reads_def skip_def)

definition las_stands :: "('d, 'u) las_reader \<Rightarrow> point list \<Rightarrow> nat \<Rightarrow> bool" where
  "las_stands r ps i \<longleftrightarrow>
     (let h = lr_header r; len = record_len (h_point_format h); start = unat (lr_start r) in
      i \<le> length ps \<and> unat (h_number_of_points h) = length ps \<and> unat (lr_index r) = i \<and>
      len < 65536 \<and> start + length ps * len < 2 ^ 64 \<and> c_pos (lr_read r) = start + i * len \<and>
      (\<forall>k < length ps. record_at (h_point_format h) (h_transforms h) (c_data (lr_read r))
         (start + k * len) (ps ! k)))"

lemma las_next:
  assumes "las_stands r ps i" "i < length ps"
  shows "\<exists>r'. las_read_point r = (Ok (Some (ps ! i)), r') \<and> las_stands r' ps (Suc i)"
proof -
  let ?h = "lr_header r"
  let ?len = "record_len (h_point_format ?h)"
  have idx: "unat (lr_index r) = i" "unat (h_number_of_points ?h) = length ps"
    and pos: "c_pos (lr_read r) = unat (lr_start r) + i * ?len"
    using assms(1) by (auto simp: las_stands_def Let_def)
  then have lt: "lr_index r < h_number_of_points ?h" using assms(2) by (simp add: word_less_nat_alt)
  have "record_at (h_point_format ?h) (h_transforms ?h) (c_data (lr_read r)) (c_pos (lr_read r)) (ps ! i)"
    using assms pos by (auto simp: las_stands_def Let_def)
  then obtain raw where
    raw: "raw_point_read_from (h_point_format ?h) (lr_read r)
            = (Ok raw, (lr_read r)\<lparr>c_pos := c_pos (lr_read r) + ?len\<rparr>)"
      "point_new raw (h_transforms ?h) = Ok (ps ! i)"
    by (cases "lr_read r") (auto simp: record_at_def)
  let ?r = "r\<lparr>lr_index := lr_index r + 1, lr_read := (lr_read r)\<lparr>c_pos := c_pos (lr_read r) + ?len\<rparr>\<rparr>"
  have "las_read_point r = (Ok (Some (ps ! i)), ?r)"
    using lt raw by (simp add: las_read_point_def on_read_def io_defs)
  moreover have "unat (lr_index r + 1) = Suc i"
    using idx assms(2) unat_u64_less [of "h_number_of_points ?h"] by (simp add: unat_word_ariths)
  then have "las_stands ?r ps (Suc i)"
    using assms by (simp add: las_stands_def Let_def)
  ultimately show ?thesis by blast
qed

interpretation las_stream: point_stream las_read_point las_stands
proof
  show "i \<le> length ps \<and> length ps < 2 ^ 64" if "las_stands r ps i" for r :: "('a, 'b) las_reader" and ps i
    using that unat_u64_less [of "h_number_of_points (lr_header r)"] by (auto simp: las_stands_def Let_def)
  show "\<exists>r'. las_read_point r = (Ok (Some (ps ! i)), r') \<and> las_stands r' ps (Suc i)"
    if "las_stands r ps i" "i < length ps" for r :: "('a, 'b) las_reader" and ps i
    using that by (rule las_next)
  show "las_read_point r = (Ok None, r)" if "las_stands r ps i" "i = length ps"
    for r :: "('a, 'b) las_reader" and ps i
    using that by (simp add: las_stands_def Let_def las_read_point_def io_return_def word_less_nat_alt)
qed

lemma las_read_points_stands:
  fixes n :: u64
  assumes "las_stands r ps i" "(length acc + length ps) * env_point_size E < 2 ^ 63"
  defines "k \<equiv> min (unat n) (length ps - i)"
  shows "\<exists>r'. las_read_points E n (r, acc) = (Ok (word_of_nat k), r', acc @ take k (drop i ps)) \<and>
     las_stands r' ps (i + k)"
proof -
  have idx: "unat (lr_index r) = i" "unat (h_number_of_points (lr_header r)) = length ps" "i \<le> length ps"
    using assms(1) by (auto simp: las_stands_def Let_def)
  let ?left = "h_number_of_points (lr_header r) - lr_index r"
  have le: "lr_index r \<le> h_number_of_points (lr_header r)" using idx by (simp add: word_le_nat_alt)
  then have "unat ?left = length ps - i" using idx by (simp add: unat_sub)
  then have k: "unat (min ?left n) = k" by (auto simp: k_def min_def word_le_nat_alt)
  have "(length acc + k) * env_point_size E < 2 ^ 63"
    using assms(2) by (rule le_less_trans [rotated]) (auto simp: k_def min_def intro!: mult_le_mono1)
  then have "las_read_points E n (r, acc) = push_points las_read_point k 0 (r, acc)"
    using le k by (simp add: las_read_points_def checked_sub_def reserve_def io_defs)
  moreover have "unat (0 :: u64) + k < 2 ^ 64" "k \<le> length ps - i"
    using las_stream.stands_le [OF assms(1)] by (simp_all add: k_def min_less_iff_disj less_imp_diff_less)
  then obtain r' where "push_points las_read_point k 0 (r, acc)
      = (Ok (0 + word_of_nat k), r', acc @ take k (drop i ps))" "las_stands r' ps (i + k)"
    using las_stream.push_points_stands [OF assms(1)] by blast
  ultimately show ?thesis by simp
qed

lemma las_seek_stands:
  assumes "las_stands r ps i" "j \<le> length ps"
  shows "\<exists>r'. las_seek (word_of_nat j) r = (Ok (), r') \<and> las_stands r' ps j"
proof -
  let ?len = "record_len (h_point_format (lr_header r))"
  have j: "unat (word_of_nat j :: u64) = j"
    using assms(2) las_stream.stands_le [OF assms(1)] by (intro unat_of_nat_eq) simp
  have len: "?len < 65536" and top: "unat (lr_start r) + length ps * ?len < 2 ^ 64"
    using assms(1) by (auto simp: las_stands_def Let_def)
  have "j * ?len \<le> length ps * ?len" using assms(2) by simp
  with top have fit: "unat (lr_start r) + j * ?len < 2 ^ 64" "j * ?len < 2 ^ 64" by linarith+
  define w :: u64 where "w = ucast (word_of_nat ?len :: u16)"
  have "unat (word_of_nat ?len :: u16) = ?len" using len by (intro unat_of_nat_eq) simp
  then have w: "unat w = ?len" by (simp add: w_def unat_ucast_up)
  have f: "format_len (h_point_format (lr_header r)) = Ok (word_of_nat ?len)"
    using len by (simp add: format_len_Ok_iff)
  have m: "checked_mul (word_of_nat j) w = Ok (word_of_nat j * w)" "unat (word_of_nat j * w) = j * ?len"
    using fit j w by (simp_all add: checked_mul_def unat_word_ariths)
  have p: "checked_add (lr_start r) (word_of_nat j * w) = Ok (lr_start r + word_of_nat j * w)"
    "unat (lr_start r + word_of_nat j * w) = unat (lr_start r) + j * ?len"
    using fit m(2) by (simp_all add: checked_add_def unat_word_ariths)
  let ?r = "r\<lparr>lr_index := word_of_nat j, lr_read := (lr_read r)\<lparr>c_pos := unat (lr_start r) + j * ?len\<rparr>\<rparr>"
  have "las_seek (word_of_nat j) r = (Ok (), ?r)"
    using m(1) p f by (simp add: las_seek_def on_read_def io_defs seek_start_def flip: w_def)
  moreover have "las_stands ?r ps j" using assms j by (simp add: las_stands_def Let_def)
  ultimately show ?thesis by blast
qed

interpretation las: steady_source las_read_point las_stands "las_read_points E" las_seek
  "env_point_size E" for E
proof
  fix r :: "('a, 'b) las_reader" and ps i and n :: u64 and acc :: "point list"
  assume s: "las_stands r ps i" and fits: "(length acc + length ps) * env_point_size E < 2 ^ 63"
  have le: "i \<le> length ps" "length ps - i < 2 ^ 64" using las_stream.stands_le [OF s] by auto
  then have "i + min (unat n) (length ps - i) = min (i + unat n) (length ps)" by simp
  then show "\<exists>r'. las_read_points E n (r, acc) =
          (Ok (min n (word_of_nat (length ps - i))), r', acc @ take (unat n) (drop i ps)) \<and>
        las_stands r' ps (min (i + unat n) (length ps))"
    using las_read_points_stands [OF s fits, of n] by (simp only: min_word_of_nat [OF le(2)] take_min_drop)
next
  show "\<exists>r'. las_seek (word_of_nat j) r = (Ok (), r') \<and> las_stands r' ps j"
    if "las_stands r ps i" "j \<le> length ps" for r :: "('a, 'b) las_reader" and ps i j
    using that by (rule las_seek_stands)
next
  show "las_read_points E n (r, acc) = (Ok 0, r, acc)"
    if "las_stands r ps i" "n = 0 \<or> i = length ps" "length acc * env_point_size E < 2 ^ 63"
    for r :: "('a, 'b) las_reader" and ps i n acc
  proof -
    have idx: "lr_index r \<le> h_number_of_points (lr_header r)"
      "i = length ps \<longrightarrow> h_number_of_points (lr_header r) - lr_index r = 0"
      using that(1) by (auto simp: las_stands_def Let_def word_le_nat_alt word_unat_eq_iff unat_sub)
    then have "min (h_number_of_points (lr_header r) - lr_index r) n = 0" using that(2) by auto
    with idx(1) that(3) show ?thesis
      by (simp add: las_read_points_def checked_sub_def reserve_def io_defs)
  qed
qed

section \<open>The compressed reader\<close>

text \<open>
  What the documentation of \<^verbatim>\<open>laz\<close> promises of a decompressor: it stands for a list of point
  records and an index, where \<open>holds\<close> says so; a call with a buffer that has room for the next
  record fills it, a call with a buffer for several records fills them all, and seeking works
  up to the end.
\<close>

definition decompresses ::
  "('v, 'c, 'z) laz \<Rightarrow> ('z \<Rightarrow> bytes list \<Rightarrow> nat \<Rightarrow> bool) \<Rightarrow> bool" where
  "decompresses L holds \<longleftrightarrow>
     (\<forall>z recs i buf. holds z recs i \<longrightarrow> i < length recs \<longrightarrow> length (recs ! i) \<le> length buf \<longrightarrow>
        (\<exists>z'. laz_decompress_one L (z, buf) =
            (Ok (), z', recs ! i @ drop (length (recs ! i)) buf) \<and> holds z' recs (Suc i))) \<and>
     (\<forall>z recs i n buf. holds z recs i \<longrightarrow> 0 < n \<longrightarrow> i + n \<le> length recs \<longrightarrow>
        length buf = length (concat (take n (drop i recs))) \<longrightarrow>
        (\<exists>z'. laz_decompress_many L (z, buf) =
            (Ok (), z', concat (take n (drop i recs))) \<and> holds z' recs (i + n))) \<and>
     (\<forall>z recs i j. holds z recs i \<longrightarrow> j \<le> length recs \<longrightarrow>
        (\<exists>z'. laz_decompressor_seek L (word_of_nat j) z = (Ok (), z') \<and> holds z' recs j))"

definition laz_stands ::
  "('v, 'c, 'z) laz \<Rightarrow> ('z \<Rightarrow> bytes list \<Rightarrow> nat \<Rightarrow> bool) \<Rightarrow>
   ('d, 'u, 'z) laz_reader \<Rightarrow> point list \<Rightarrow> nat \<Rightarrow> bool" where
  "laz_stands L holds r ps i \<longleftrightarrow>
     (let h = zr_header r; f = h_point_format h in
      decompresses L holds \<and> i \<le> length ps \<and> unat (h_number_of_points h) = length ps \<and>
      unat (zr_index r) = i \<and> record_len f < 65536 \<and> length ps * record_len f < 2 ^ 63 \<and>
      record_len f \<le> length (c_data (zr_buffer r)) \<and>
      (\<exists>recs. holds (zr_decompressor r) recs i \<and>
         list_all2 (record_of f (h_transforms h)) recs ps))"

lemma record_of_buffered:
  assumes "record_of (h_point_format h) (h_transforms h) bs p" "ahead bs (zr_buffer r)"
  shows "buffered_point h r = (Ok p, r\<lparr>zr_buffer := skip (record_len (h_point_format h)) (zr_buffer r)\<rparr>)"
  using assms by (auto simp: buffered_point_def on_buffer_def io_defs record_of_def reads_def)

lemma laz_next:
  assumes s: "laz_stands L holds r ps i" and lt: "i < length ps"
  shows "\<exists>r'. laz_read_point L r = (Ok (Some (ps ! i)), r') \<and> laz_stands L holds r' ps (Suc i)"
proof -
  let ?h = "zr_header r" and ?buf = "c_data (zr_buffer r)"
  let ?f = "h_point_format ?h"
  obtain recs where laws: "decompresses L holds" and idx: "unat (zr_index r) = i"
    "unat (h_number_of_points ?h) = length ps" and room: "record_len ?f \<le> length ?buf"
    and recs: "holds (zr_decompressor r) recs i" "list_all2 (record_of ?f (h_transforms ?h)) recs ps"
    using s by (auto simp: laz_stands_def Let_def)
  have lt': "zr_index r < h_number_of_points ?h" using idx lt by (simp add: word_less_nat_alt)
  have ri: "i < length recs" "record_of ?f (h_transforms ?h) (recs ! i) (ps ! i)"
    using recs(2) lt by (auto simp: list_all2_conv_all_nth)
  then have len: "length (recs ! i) = record_len ?f" by (simp add: record_of_def)
  with laws recs(1) ri(1) room obtain z' where
    z': "laz_decompress_one L (zr_decompressor r, ?buf) =
          (Ok (), z', recs ! i @ drop (record_len ?f) ?buf)" "holds z' recs (Suc i)"
    unfolding decompresses_def by metis
  let ?b = "(zr_buffer r)\<lparr>c_data := recs ! i @ drop (record_len ?f) ?buf, c_pos := 0\<rparr>"
  let ?r1 = "r\<lparr>zr_index := zr_index r + 1, zr_decompressor := z', zr_buffer := ?b\<rparr>"
  let ?r2 = "?r1\<lparr>zr_buffer := skip (record_len ?f) ?b\<rparr>"
  have "laz_read_point L r = io_bind (buffered_point ?h) (\<lambda>p. io_return (Some p)) ?r1"
    using lt' z'(1) by (simp add: laz_read_point_def decompress_def set_position_def io_defs)
  moreover have "buffered_point ?h ?r1 = (Ok (ps ! i), ?r2)"
    using record_of_buffered [OF ri(2), of ?r1] by (simp add: ahead_def)
  moreover have "unat (zr_index r + 1) = Suc i"
    using idx lt unat_u64_less [of "h_number_of_points ?h"] by (simp add: unat_word_ariths)
  then have "laz_stands L holds ?r2 ps (Suc i)"
    using s lt room len recs(2) z'(2) by (auto simp: laz_stands_def Let_def skip_def)
  ultimately show ?thesis by (auto simp: io_bind_def io_return_def)
qed

interpretation laz_stream: point_stream "laz_read_point L" "laz_stands L holds"
  for L :: "('v, 'c, 'z) laz" and holds
proof
  fix r :: "('d, 'u, 'z) laz_reader" and ps i
  assume s: "laz_stands L holds r ps i"
  then show "i \<le> length ps \<and> length ps < 2 ^ 64"
    using unat_u64_less [of "h_number_of_points (zr_header r)"] by (auto simp: laz_stands_def Let_def)
  show "\<exists>r'. laz_read_point L r = (Ok (Some (ps ! i)), r') \<and> laz_stands L holds r' ps (Suc i)"
    if "i < length ps" using s that by (rule laz_next)
  show "laz_read_point L r = (Ok None, r)" if "i = length ps"
    using s that by (simp add: laz_stands_def Let_def laz_read_point_def io_return_def word_less_nat_alt)
qed

text \<open>Taking points out of the buffer.\<close>

lemma push_buffered_records:
  assumes "list_all2 (record_of (h_point_format h) (h_transforms h)) recs ps"
    and "ahead (concat recs) (zr_buffer r)"
  shows "push_buffered h (length ps) (r, acc) =
     (Ok (), r\<lparr>zr_index := zr_index r + word_of_nat (length ps),
               zr_buffer := skip (length (concat recs)) (zr_buffer r)\<rparr>, acc @ ps)"
  using assms
proof (induction recs ps arbitrary: r acc rule: list_all2_induct)
  case Nil
  then show ?case by (simp add: io_return_def)
next
  case (Cons bs recs p ps)
  then have a: "ahead bs (zr_buffer r)" "ahead (concat recs) (skip (length bs) (zr_buffer r))"
    by (simp_all add: ahead_append)
  have len: "length bs = record_len (h_point_format h)" using Cons.hyps(1) by (simp add: record_of_def)
  let ?r = "r\<lparr>zr_buffer := skip (length bs) (zr_buffer r), zr_index := zr_index r + 1\<rparr>"
  have "push_buffered h (length (p # ps)) (r, acc) = push_buffered h (length ps) (?r, acc @ [p])"
    using record_of_buffered [OF Cons.hyps(1) a(1)] len by (simp add: alone_def io_defs)
  with Cons.IH [of ?r "acc @ [p]"] a(2) show ?case by (simp add: add_ac)
qed

lemma list_all2_take_drop:
  "list_all2 P xs ys \<Longrightarrow> list_all2 P (take n (drop i xs)) (take n (drop i ys))"
  by (intro list_all2_takeI list_all2_dropI)

lemma length_records:
  "list_all2 (record_of f ts) recs ps \<Longrightarrow> length (concat recs) = length ps * record_len f"
  by (induction rule: list_all2_induct) (simp_all add: record_of_def)

lemma laz_read_points_stands:
  fixes n :: u64
  assumes s: "laz_stands L holds r ps i" and n: "0 < n" "i < length ps"
    and fits: "(length acc + length ps) * env_point_size E < 2 ^ 63"
  defines "k \<equiv> min (unat n) (length ps - i)"
  shows "\<exists>r'. laz_read_points E L n (r, acc) = (Ok (word_of_nat k), r', acc @ take k (drop i ps)) \<and>
     laz_stands L holds r' ps (i + k)"
proof -
  let ?h = "zr_header r"
  let ?f = "h_point_format ?h"
  let ?len = "record_len ?f" and ?left = "h_number_of_points ?h - zr_index r"
  obtain recs where laws: "decompresses L holds" and idx: "unat (zr_index r) = i"
    "unat (h_number_of_points ?h) = length ps" and len: "?len < 65536" "length ps * ?len < 2 ^ 63"
    and recs: "holds (zr_decompressor r) recs i" "list_all2 (record_of ?f (h_transforms ?h)) recs ps"
    using s by (auto simp: laz_stands_def Let_def)
  have le: "zr_index r \<le> h_number_of_points ?h" using idx n by (simp add: word_le_nat_alt)
  then have "unat ?left = length ps - i" using idx by (simp add: unat_sub)
  then have k: "unat (min ?left n) = k" by (auto simp: k_def min_def word_le_nat_alt)
  have pos: "0 < k" "k \<le> length ps - i" using n by (auto simp: k_def word_less_nat_alt)
  define w :: u64 where "w = ucast (word_of_nat ?len :: u16)"
  have "unat (word_of_nat ?len :: u16) = ?len" using len by (intro unat_of_nat_eq) simp
  then have w: "unat w = ?len" by (simp add: w_def unat_ucast_up)
  have f: "format_len ?f = Ok (word_of_nat ?len)" using len by (simp add: format_len_Ok_iff)
  have "k * ?len \<le> length ps * ?len" using pos by (intro mult_le_mono1) simp
  with len(2) have small: "k * ?len < 2 ^ 63" by linarith
  then have m: "checked_mul (min ?left n) w = Ok (min ?left n * w)" "unat (min ?left n * w) = k * ?len"
    using k w by (simp_all add: checked_mul_def unat_word_ariths)
  let ?recs = "take k (drop i recs)" and ?ps = "take k (drop i ps)"
  have two: "list_all2 (record_of ?f (h_transforms ?h)) ?recs ?ps"
    using recs(2) by (rule list_all2_take_drop)
  have lps: "length ?ps = k" using pos by simp
  have lrecs: "length (concat ?recs) = k * ?len" using length_records [OF two] lps by simp
  have "i + k \<le> length recs" using pos recs(2) n(2) by (auto dest: list_all2_lengthD)
  moreover have "length (resize (k * ?len) (c_data (zr_buffer r))) = length (concat ?recs)"
    by (simp add: resize_def lrecs)
  ultimately obtain z' where z': "laz_decompress_many L
      (zr_decompressor r, resize (k * ?len) (c_data (zr_buffer r))) = (Ok (), z', concat ?recs)"
      "holds z' recs (i + k)"
    using laws recs(1) pos(1) unfolding decompresses_def by metis
  let ?b = "(zr_buffer r)\<lparr>c_data := concat ?recs, c_pos := 0\<rparr>"
  let ?r1 = "r\<lparr>zr_decompressor := z', zr_buffer := ?b\<rparr>"
  let ?r2 = "?r1\<lparr>zr_index := zr_index r + word_of_nat k, zr_buffer := skip (k * ?len) ?b\<rparr>"
  have cap: "(length acc + k) * env_point_size E < 2 ^ 63"
    using fits by (rule le_less_trans [rotated]) (use pos in \<open>intro mult_le_mono1, simp\<close>)
  have "laz_read_points E L n (r, acc) =
      io_bind (push_buffered ?h k) (\<lambda>_. io_return (min ?left n)) (?r1, acc)"
    using le m f z'(1) cap k small
    by (simp add: laz_read_points_def checked_sub_def Let_def alone_def decompress_def set_position_def
        reserve_def resize_zeroed_def io_defs flip: w_def)
  moreover have "push_buffered ?h k (?r1, acc) = (Ok (), ?r2, acc @ ?ps)"
    using push_buffered_records [OF two, of ?r1 acc] lps lrecs by (simp add: ahead_def)
  moreover have "min ?left n = word_of_nat k" using k by (simp add: word_unat_eq_iff unat_of_nat flip: k)
  moreover have "unat (zr_index r + word_of_nat k) = i + k"
  proof -
    have "i + k < 2 ^ 64" using pos unat_u64_less [of "h_number_of_points ?h"] idx by linarith
    moreover from this have "unat (word_of_nat k :: u64) = k" by (intro unat_of_nat_eq) simp
    ultimately show ?thesis using idx by (simp add: unat_word_ariths)
  qed
  then have "laz_stands L holds ?r2 ps (i + k)"
    using s pos lrecs recs(2) z'(2) by (auto simp: laz_stands_def Let_def skip_def)
  ultimately show ?thesis by (auto simp: io_bind_def io_return_def)
qed

lemma laz_seek_stands:
  assumes "laz_stands L holds r ps i" "j \<le> length ps"
  shows "\<exists>r'. laz_seek L (word_of_nat j) r = (Ok (), r') \<and> laz_stands L holds r' ps j"
proof -
  obtain recs where laws: "decompresses L holds"
    and recs: "holds (zr_decompressor r) recs i"
      "list_all2 (record_of (h_point_format (zr_header r)) (h_transforms (zr_header r))) recs ps"
    using assms(1) by (auto simp: laz_stands_def Let_def)
  have j: "unat (word_of_nat j :: u64) = j"
    using assms(2) laz_stream.stands_le [OF assms(1)] by (intro unat_of_nat_eq) simp
  have "j \<le> length recs" using recs(2) assms(2) by (auto dest: list_all2_lengthD)
  with laws recs(1) obtain z' where
    z': "laz_decompressor_seek L (word_of_nat j) (zr_decompressor r) = (Ok (), z')" "holds z' recs j"
    unfolding decompresses_def by metis
  let ?r = "r\<lparr>zr_index := word_of_nat j, zr_decompressor := z'\<rparr>"
  have "laz_seek L (word_of_nat j) r = (Ok (), ?r)" using z'(1) by (simp add: laz_seek_def io_defs)
  moreover have "laz_stands L holds ?r ps j"
    using assms recs(2) z'(2) j by (auto simp: laz_stands_def Let_def)
  ultimately show ?thesis by blast
qed

interpretation laz: point_source "laz_read_point L" "laz_stands L holds" "laz_read_points E L"
  "laz_seek L" "env_point_size E" for E :: "('d, 'u) env" and L :: "('v, 'c, 'z) laz" and holds
proof
  fix r :: "('d, 'u, 'z) laz_reader" and ps i and n :: u64 and acc :: "point list"
  assume s: "laz_stands L holds r ps i" and n: "0 < n" "i < length ps"
    and fits: "(length acc + length ps) * env_point_size E < 2 ^ 63"
  have le: "i \<le> length ps" "length ps - i < 2 ^ 64" using laz_stream.stands_le [OF s] by auto
  then have "i + min (unat n) (length ps - i) = min (i + unat n) (length ps)" by simp
  then show "\<exists>r'. laz_read_points E L n (r, acc) =
          (Ok (min n (word_of_nat (length ps - i))), r', acc @ take (unat n) (drop i ps)) \<and>
        laz_stands L holds r' ps (min (i + unat n) (length ps))"
    using laz_read_points_stands [OF s n fits] by (simp only: min_word_of_nat [OF le(2)] take_min_drop)
next
  show "\<exists>r'. laz_seek L (word_of_nat j) r = (Ok (), r') \<and> laz_stands L holds r' ps j"
    if "laz_stands L holds r ps i" "j \<le> length ps" for r :: "('d, 'u, 'z) laz_reader" and ps i j
    using that by (rule laz_seek_stands)
qed

section \<open>Readers\<close>

definition reader_stands ::
  "('v, 'c, 'z) laz \<Rightarrow> ('z \<Rightarrow> bytes list \<Rightarrow> nat \<Rightarrow> bool) \<Rightarrow>
   ('d, 'u, 'z) las_file_reader \<Rightarrow> point list \<Rightarrow> nat \<Rightarrow> bool" where
  "reader_stands L holds r ps i =
     (case fr_point_reader r of
        LasReader r \<Rightarrow> las_stands r ps i
      | LazReader r \<Rightarrow> laz_stands L holds r ps i)"

lemma reader_read_point_cases:
  "reader_read_point L r =
     (case fr_point_reader r of
        LasReader k \<Rightarrow> map_prod id (\<lambda>k. r\<lparr>fr_point_reader := LasReader k\<rparr>) (las_read_point k)
      | LazReader k \<Rightarrow> map_prod id (\<lambda>k. r\<lparr>fr_point_reader := LazReader k\<rparr>) (laz_read_point L k))"
  by (auto simp: reader_read_point_def of_pair_def on_points_def dispatch_def alone_def io_zoom_def
      split: reader_kind.splits prod.splits)

lemma reader_read_points_into_cases:
  "reader_read_points_into E L n (r, acc) =
     (case fr_point_reader r of
        LasReader k \<Rightarrow>
          map_prod id (map_prod (\<lambda>k. r\<lparr>fr_point_reader := LasReader k\<rparr>) id) (las_read_points E n (k, acc))
      | LazReader k \<Rightarrow>
          map_prod id (map_prod (\<lambda>k. r\<lparr>fr_point_reader := LazReader k\<rparr>) id) (laz_read_points E L n (k, acc)))"
  by (auto simp: reader_read_points_into_def on_points_def dispatch_def io_zoom_def
      split: reader_kind.splits prod.splits)

lemma reader_seek_cases:
  "reader_seek L n r =
     (case fr_point_reader r of
        LasReader k \<Rightarrow> map_prod id (\<lambda>k. r\<lparr>fr_point_reader := LasReader k\<rparr>) (las_seek n k)
      | LazReader k \<Rightarrow> map_prod id (\<lambda>k. r\<lparr>fr_point_reader := LazReader k\<rparr>) (laz_seek L n k))"
  by (auto simp: reader_seek_def of_pair_def on_points_def dispatch_def alone_def io_zoom_def
      split: reader_kind.splits prod.splits)

interpretation reader: point_source "reader_read_point L" "reader_stands L holds"
  "reader_read_points_into E L" "reader_seek L" "env_point_size E" for E :: "('d, 'u) env" and L :: "('v, 'c, 'z) laz" and holds
proof
  fix r :: "('d, 'u, 'z) las_file_reader" and ps i
  assume s: "reader_stands L holds r ps i"
  show "i \<le> length ps \<and> length ps < 2 ^ 64"
    using s by (cases "fr_point_reader r") (simp_all only: reader_stands_def reader_kind.case
        las_stream.stands_le laz_stream.stands_le)
  show "\<exists>r'. reader_read_point L r = (Ok (Some (ps ! i)), r') \<and> reader_stands L holds r' ps (Suc i)"
    if "i < length ps"
    using s las_stream.next_some [OF _ that] laz_stream.next_some [OF _ that]
    by (fastforce simp: reader_stands_def reader_read_point_cases split: reader_kind.splits)
  show "reader_read_point L r = (Ok None, r)" if "i = length ps"
    using s las_stream.next_none [OF _ that] laz_stream.next_none [OF _ that]
    by (cases r) (fastforce simp: reader_stands_def reader_read_point_cases split: reader_kind.splits)
  show "\<exists>r'. reader_read_points_into E L n (r, acc) =
          (Ok (min n (word_of_nat (length ps - i))), r', acc @ take (unat n) (drop i ps)) \<and>
        reader_stands L holds r' ps (min (i + unat n) (length ps))"
    if "0 < n" "i < length ps" "(length acc + length ps) * env_point_size E < 2 ^ 63" for n acc
    using s las.many [OF _ that] laz.many [OF _ that]
    by (fastforce simp: reader_stands_def reader_read_points_into_cases split: reader_kind.splits)
  show "\<exists>r'. reader_seek L (word_of_nat j) r = (Ok (), r') \<and> reader_stands L holds r' ps j"
    if "j \<le> length ps" for j
    using s las.seek_to [OF _ that] laz.seek_to [OF _ that]
    by (fastforce simp: reader_stands_def reader_seek_cases split: reader_kind.splits)
qed

end
