(* ===== verification/Reader_Properties.thy ===== *)
theory Reader_Properties
  imports Reader_Contract
begin

text \<open>
  Iterating over the points of a reader, and the properties of readers: over every sequence of
  calls they refine a list of points with an index, iteration ends on every stream, and a truncated file yields its whole
  records and then errors.
\<close>

section \<open>Iteration\<close>

fun kind_left :: "('d, 'u, 'z) reader_kind \<Rightarrow> nat" where
  "kind_left (LasReader r) = unat (h_number_of_points (lr_header r)) - unat (lr_index r)"
| "kind_left (LazReader r) = unat (h_number_of_points (zr_header r)) - unat (zr_index r)"

definition points_left :: "('d, 'u, 'z) las_file_reader \<Rightarrow> nat" where
  "points_left r = kind_left (fr_point_reader r)"

lemma index_step: "(i :: u64) < n \<Longrightarrow> unat n - unat (i + 1) < unat n - unat i"
proof -
  assume lt: "i < n"
  then have "unat (i + 1) = unat i + 1"
    using unat_u64_less [of n] by (simp add: unat_word_ariths word_less_nat_alt)
  with lt show ?thesis by (simp add: word_less_nat_alt)
qed

lemma las_read_point_step:
  assumes "las_read_point r = (a, r')" "a \<noteq> Ok None"
  shows "lr_index r < h_number_of_points (lr_header r) \<and> lr_header r' = lr_header r \<and>
    lr_index r' = lr_index r + 1"
  using assms by (auto simp: las_read_point_def on_read_def io_defs
      split: prod.splits outcome.splits if_splits)

lemma laz_read_point_step:
  assumes "laz_read_point L r = (a, r')" "a \<noteq> Ok None"
  shows "zr_index r < h_number_of_points (zr_header r) \<and> zr_header r' = zr_header r \<and>
    zr_index r' = zr_index r + 1"
  using assms by (auto simp: laz_read_point_def decompress_def set_position_def buffered_point_def
      on_buffer_def io_defs split: prod.splits outcome.splits if_splits)

lemma points_next_progress:
  assumes "points_next L r = (Some x, r')"
  shows "points_left r' < points_left r"
proof -
  obtain a where a: "reader_read_point L r = (a, r')" "a \<noteq> Ok None"
    using assms by (fastforce simp: points_next_def split: prod.splits)
  show ?thesis
  proof (cases "fr_point_reader r")
    case (LasReader k)
    then obtain k' where k': "las_read_point k = (a, k')" "r' = r\<lparr>fr_point_reader := LasReader k'\<rparr>"
      using a(1) by (auto simp: reader_read_point_cases map_prod_def split: prod.splits)
    with las_read_point_step [OF k'(1) a(2)] LasReader show ?thesis
      by (simp add: points_left_def index_step)
  next
    case (LazReader k)
    then obtain k' where k': "laz_read_point L k = (a, k')" "r' = r\<lparr>fr_point_reader := LazReader k'\<rparr>"
      using a(1) by (auto simp: reader_read_point_cases map_prod_def split: prod.splits)
    with laz_read_point_step [OF k'(1) a(2)] LazReader show ?thesis
      by (simp add: points_left_def index_step)
  qed
qed

lemma points_next_none:
  assumes "points_next L r = (None, r')"
  shows "r' = r"
proof -
  have "a = Ok None" if "transpose_result a = None" for a :: "point option outcome"
    using that by (cases a rule: transpose_result.cases) simp_all
  then have a: "reader_read_point L r = (Ok None, r')"
    using assms by (auto simp: points_next_def split: prod.splits)
  show ?thesis
  proof (cases "fr_point_reader r")
    case (LasReader k)
    with a show ?thesis
      by (cases r) (auto simp: reader_read_point_cases las_read_point_def on_read_def io_defs map_prod_def
          split: prod.splits outcome.splits if_splits)
  next
    case (LazReader k)
    with a show ?thesis
      by (cases r) (auto simp: reader_read_point_cases laz_read_point_def decompress_def set_position_def
          buffered_point_def on_buffer_def io_defs map_prod_def
          split: prod.splits outcome.splits if_splits)
  qed
qed

text \<open>A loop over \<^verbatim>\<open>reader.points()\<close>: the items until there is none; a panic ends the loop.\<close>

function points_collect ::
  "('v, 'c, 'z) laz \<Rightarrow> ('d, 'u, 'z) las_file_reader \<Rightarrow> point outcome list" where
  "points_collect L r =
     (case points_next L r of
        (None, _) \<Rightarrow> []
      | (Some x, r') \<Rightarrow> x # (if x = Panic then [] else points_collect L r'))"
  by auto
termination
  by (relation "measure (\<lambda>(L, r). points_left r)") (auto intro: points_next_progress [OF sym])

declare points_collect.simps [simp del]

lemma points_collect_Ok:
  "reader_read_point L r = (Ok (Some p), r') \<Longrightarrow> points_collect L r = Ok p # points_collect L r'"
  by (subst points_collect.simps) (simp add: points_next_def)

lemma points_collect_Err:
  "reader_read_point L r = (Err e, r') \<Longrightarrow> points_collect L r = Err e # points_collect L r'"
  by (subst points_collect.simps) (simp add: points_next_def)

lemma points_collect_None: "reader_read_point L r = (Ok None, r') \<Longrightarrow> points_collect L r = []"
  by (subst points_collect.simps) (simp add: points_next_def)

lemma points_collect_stands:
  "reader_stands L holds r ps i \<Longrightarrow> points_collect L r = map Ok (drop i ps)"
proof (induction "length ps - i" arbitrary: r i)
  case 0
  then have i: "i = length ps" using reader.stands_le [OF 0(2)] by simp
  then show ?case using points_collect_None [OF reader.next_none [OF 0(2) i]] by simp
next
  case (Suc n)
  then have lt: "i < length ps" by simp
  from reader.next_some [OF Suc.prems lt] obtain r' where
    r': "reader_read_point L r = (Ok (Some (ps ! i)), r')" "reader_stands L holds r' ps (Suc i)" by blast
  have "drop i ps = ps ! i # drop (Suc i) ps" using lt by (rule Cons_nth_drop_Suc [symmetric])
  moreover have "n = length ps - Suc i" using Suc.hyps(2) by simp
  ultimately show ?case using points_collect_Ok [OF r'(1)] Suc.hyps(1) [OF _ r'(2)] by simp
qed

section \<open>Truncated files\<close>

text \<open>A reader leaves the bytes of its stream alone and does not go back.\<close>

definition forward :: "'a reader \<Rightarrow> bool" where
  "forward m \<longleftrightarrow> (\<forall>c. c_data (snd (m c)) = c_data c \<and> c_pos c \<le> c_pos (snd (m c)))"

named_theorems forward_rules \<open>rules of forward\<close>

lemma forward_return [forward_rules]: "forward (io_return a)"
  by (simp add: forward_def io_return_def)

lemma forward_bind [forward_rules]:
  assumes "forward m" "\<And>a. forward (f a)"
  shows "forward (io_bind m f)"
  unfolding forward_def
proof
  fix c
  obtain a t where m: "m c = (a, t)" by fastforce
  have t: "c_data t = c_data c" "c_pos c \<le> c_pos t" using assms(1) m by (auto simp: forward_def) (metis snd_conv)+
  show "c_data (snd (io_bind m f c)) = c_data c \<and> c_pos c \<le> c_pos (snd (io_bind m f c))"
  proof (cases a)
    case (Ok x)
    have "c_data (snd (f x t)) = c_data t \<and> c_pos t \<le> c_pos (snd (f x t))"
      using assms(2) by (simp add: forward_def)
    with Ok m t show ?thesis by (simp add: io_bind_def)
  qed (use m t in \<open>simp_all add: io_bind_def\<close>)
qed

lemma forward_exact [forward_rules]: "forward (read_exact n)"
  by (simp add: forward_def read_exact_def)

lemma forward_le [forward_rules]: "forward (read_le k)" "forward read_u8"
  by (auto simp: read_u8_def read_le_def intro: forward_rules)

lemma forward_if [forward_rules]: "forward m \<Longrightarrow> forward (read_if b m)"
  by (auto simp: read_if_def intro: forward_rules)

lemma forward_case_prod [forward_rules]:
  "(\<And>a b. forward (f a b)) \<Longrightarrow> forward (case x of (a, b) \<Rightarrow> f a b)"
  by (cases x) simp

lemma forward_point: "forward (raw_point_read_from f)"
proof -
  have "forward (flags_read_from f)" "forward (angle_read_from f)"
    by (auto simp: flags_read_from_def angle_read_from_def intro!: forward_rules)
  moreover have "forward color_read_from" "forward waveform_read_from"
    by (auto simp: color_read_from_def waveform_read_from_def intro!: forward_rules)
  ultimately show ?thesis
    unfolding raw_point_read_from_def by (intro forward_rules)
qed

lemma las_read_point_enough:
  assumes "lr_index r < h_number_of_points (lr_header r)"
    and "record_len (h_point_format (lr_header r)) \<le> remaining (lr_read r)"
  shows "\<exists>p. las_read_point r = (Ok (Some p), r\<lparr>lr_index := lr_index r + 1,
     lr_read := skip (record_len (h_point_format (lr_header r))) (lr_read r)\<rparr>)"
proof -
  obtain raw where "raw_point_read_from (h_point_format (lr_header r)) (lr_read r)
      = (Ok raw, skip (record_len (h_point_format (lr_header r))) (lr_read r))"
    using consumes_raw_point assms(2) unfolding consumes_def by blast
  moreover obtain p where "point_new raw (h_transforms (lr_header r)) = Ok p"
    using to_classification_cleared [of "rp_flags raw"] by (auto simp: point_new_def Let_def)
  ultimately show ?thesis
    using assms(1) by (auto simp: las_read_point_def on_read_def io_defs)
qed

lemma las_read_point_short:
  assumes "lr_index r < h_number_of_points (lr_header r)"
    and "remaining (lr_read r) < record_len (h_point_format (lr_header r))"
  shows "\<exists>c. las_read_point r = (Err (Io UnexpectedEof), r\<lparr>lr_index := lr_index r + 1, lr_read := c\<rparr>) \<and>
     remaining c \<le> remaining (lr_read r)"
proof -
  obtain c where c: "raw_point_read_from (h_point_format (lr_header r)) (lr_read r)
      = (Err (Io UnexpectedEof), c)"
    using consumes_raw_point assms(2) unfolding consumes_def by blast
  have "c_data c = c_data (lr_read r) \<and> c_pos (lr_read r) \<le> c_pos c"
    using forward_point [unfolded forward_def, rule_format,
        of "h_point_format (lr_header r)" "lr_read r"] c by simp
  then have "remaining c \<le> remaining (lr_read r)" by (simp add: remaining_def diff_le_mono2)
  with c assms(1) show ?thesis
    by (auto simp: las_read_point_def on_read_def io_defs)
qed

lemma points_collect_las:
  defines "left \<equiv> \<lambda>r :: ('d, 'u) las_reader. unat (h_number_of_points (lr_header r)) - unat (lr_index r)"
    and "whole \<equiv> \<lambda>r :: ('d, 'u) las_reader.
      remaining (lr_read r) div record_len (h_point_format (lr_header r))"
  shows "\<exists>ps. length ps = min (left r) (whole r) \<and>
     points_collect L \<lparr>fr_point_reader = LasReader r\<rparr> =
       map Ok ps @ replicate (left r - whole r) (Err (Io UnexpectedEof))"
proof (induction "left r" arbitrary: r)
  case 0
  then have "\<not> lr_index r < h_number_of_points (lr_header r)" by (simp add: left_def word_less_nat_alt)
  then have "reader_read_point L \<lparr>fr_point_reader = LasReader r\<rparr>
      = (Ok None, \<lparr>fr_point_reader = LasReader r\<rparr>)"
    by (simp add: reader_read_point_cases las_read_point_def io_return_def)
  from points_collect_None [OF this] 0 show ?case by simp
next
  case (Suc n)
  let ?len = "record_len (h_point_format (lr_header r))"
  have lt: "lr_index r < h_number_of_points (lr_header r)"
    using Suc.hyps(2) by (simp add: left_def word_less_nat_alt)
  have step: "left (r\<lparr>lr_index := lr_index r + 1, lr_read := c\<rparr>) = n" for c
  proof -
    have "unat (lr_index r + 1) = unat (lr_index r) + 1"
      using lt unat_u64_less [of "h_number_of_points (lr_header r)"]
      by (simp add: unat_word_ariths word_less_nat_alt)
    with Suc.hyps(2) show ?thesis by (simp add: left_def)
  qed
  show ?case
  proof (cases "?len \<le> remaining (lr_read r)")
    case True
    let ?r = "r\<lparr>lr_index := lr_index r + 1, lr_read := skip ?len (lr_read r)\<rparr>"
    obtain p where p: "las_read_point r = (Ok (Some p), ?r)"
      using las_read_point_enough [OF lt True] by blast
    have w: "whole r = Suc (whole ?r)"
      using True record_len_pos [of "h_point_format (lr_header r)"] by (simp add: whole_def le_div_geq)
    have "reader_read_point L \<lparr>fr_point_reader = LasReader r\<rparr>
        = (Ok (Some p), \<lparr>fr_point_reader = LasReader ?r\<rparr>)"
      by (simp add: reader_read_point_cases p)
    note collect = points_collect_Ok [OF this]
    from Suc.hyps(1) [of ?r] step obtain ps where
      "length ps = min n (whole ?r)"
      "points_collect L \<lparr>fr_point_reader = LasReader ?r\<rparr> =
         map Ok ps @ replicate (n - whole ?r) (Err (Io UnexpectedEof))" by auto
    with collect w Suc.hyps(2) [symmetric] show ?thesis by (intro exI [of _ "p # ps"]) simp
  next
    case False
    then have short: "remaining (lr_read r) < ?len" by simp
    obtain c where c: "las_read_point r =
        (Err (Io UnexpectedEof), r\<lparr>lr_index := lr_index r + 1, lr_read := c\<rparr>)"
      "remaining c \<le> remaining (lr_read r)"
      using las_read_point_short [OF lt short] by blast
    let ?r = "r\<lparr>lr_index := lr_index r + 1, lr_read := c\<rparr>"
    have w: "whole r = 0" "whole ?r = 0" using short c(2) by (simp_all add: whole_def)
    have "reader_read_point L \<lparr>fr_point_reader = LasReader r\<rparr>
        = (Err (Io UnexpectedEof), \<lparr>fr_point_reader = LasReader ?r\<rparr>)"
      by (simp add: reader_read_point_cases c(1))
    note collect = points_collect_Err [OF this]
    from Suc.hyps(1) [of ?r] step w have
      "points_collect L \<lparr>fr_point_reader = LasReader ?r\<rparr> = replicate n (Err (Io UnexpectedEof))" by auto
    with collect w Suc.hyps(2) [symmetric] show ?thesis by auto
  qed
qed

section \<open>Sequences of calls\<close>

text \<open>The calls of a \<^verbatim>\<open>Reader\<close>, and what they do on a list of points with an index.\<close>

datatype reader_call = NextPoint | ReadPoints u64 | ReadAllPoints | SeekTo u64

datatype reader_answer =
    Item "point outcome option"
  | Points "point list outcome"
  | Sought "unit outcome"

definition reader_answers ::
  "('d, 'u) env \<Rightarrow> ('v, 'c, 'z) laz \<Rightarrow> reader_call \<Rightarrow> ('d, 'u, 'z) las_file_reader \<Rightarrow>
   reader_answer \<times> ('d, 'u, 'z) las_file_reader" where
  "reader_answers E L call r =
     (case call of
        NextPoint \<Rightarrow> map_prod Item id (points_next L r)
      | ReadPoints n \<Rightarrow> map_prod Points id (reader_read_points E L n r)
      | ReadAllPoints \<Rightarrow>
          (case reader_read_all_points_into E L (r, []) of (a, r, ps) \<Rightarrow>
             (Points (and_then a (\<lambda>_. Ok ps)), r))
      | SeekTo j \<Rightarrow> map_prod Sought id (reader_seek L j r))"

fun list_answers :: "point list \<Rightarrow> reader_call \<Rightarrow> nat \<Rightarrow> reader_answer \<times> nat" where
  "list_answers ps NextPoint i =
     (if i < length ps then (Item (Some (Ok (ps ! i))), Suc i) else (Item None, i))"
| "list_answers ps (ReadPoints n) i =
     (Points (Ok (take (unat n) (drop i ps))), min (i + unat n) (length ps))"
| "list_answers ps ReadAllPoints i = (Points (Ok (drop i ps)), length ps)"
| "list_answers ps (SeekTo j) i = (Sought (Ok ()), unat j)"

fun run_calls :: "('call \<Rightarrow> 's \<Rightarrow> 'a \<times> 's) \<Rightarrow> 'call list \<Rightarrow> 's \<Rightarrow> 'a list \<times> 's" where
  "run_calls f [] s = ([], s)"
| "run_calls f (x # xs) s =
     (case f x s of (a, s) \<Rightarrow> case run_calls f xs s of (as, s) \<Rightarrow> (a # as, s))"

text \<open>
  The calls that are allowed at an index: a seek stays within the points, the vector for the
  points that are asked for can be allocated, and a compressed reader is only asked for several
  points when that reads at least one.
\<close>

fun call_allowed :: "bool \<Rightarrow> nat \<Rightarrow> point list \<Rightarrow> reader_call \<Rightarrow> nat \<Rightarrow> bool" where
  "call_allowed compressed width ps NextPoint i = True"
| "call_allowed compressed width ps (ReadPoints n) i =
     (unat n * width < 2 ^ 63 \<and> (compressed \<longrightarrow> 0 < n \<and> i < length ps))"
| "call_allowed compressed width ps ReadAllPoints i = (compressed \<longrightarrow> i < length ps)"
| "call_allowed compressed width ps (SeekTo j) i = (unat j \<le> length ps)"

fun calls_allowed :: "bool \<Rightarrow> nat \<Rightarrow> point list \<Rightarrow> reader_call list \<Rightarrow> nat \<Rightarrow> bool" where
  "calls_allowed compressed width ps [] i = True"
| "calls_allowed compressed width ps (x # xs) i =
     (call_allowed compressed width ps x i \<and>
      calls_allowed compressed width ps xs (snd (list_answers ps x i)))"

definition is_laz_reader :: "('d, 'u, 'z) las_file_reader \<Rightarrow> bool" where
  "is_laz_reader r = (case fr_point_reader r of LasReader _ \<Rightarrow> False | LazReader _ \<Rightarrow> True)"

lemma reader_kind_kept:
  "is_laz_reader (snd (reader_read_point L r)) = is_laz_reader r"
  "is_laz_reader (fst (snd (reader_read_points_into E L n (r, acc)))) = is_laz_reader r"
  "is_laz_reader (snd (reader_seek L j r)) = is_laz_reader r"
  by (simp_all add: is_laz_reader_def reader_read_point_cases reader_read_points_into_cases
      reader_seek_cases split: reader_kind.split)

lemma reader_answers_kind: "is_laz_reader (snd (reader_answers E L x r)) = is_laz_reader r"
proof (cases x)
  case NextPoint
  then show ?thesis using reader_kind_kept(1) [of L r]
    by (auto simp: reader_answers_def points_next_def split: prod.splits)
next
  case (ReadPoints n)
  then show ?thesis using reader_kind_kept(2) [of E L n r "[]"]
    by (auto simp: reader_answers_def reader_read_points_def split: prod.splits)
next
  case ReadAllPoints
  then show ?thesis using reader_kind_kept(2) [of E L "h_number_of_points (reader_header r)" r "[]"]
    by (auto simp: reader_answers_def reader_read_all_points_into_def io_bind_get split: prod.splits)
next
  case (SeekTo j)
  then show ?thesis using reader_kind_kept(3) [of L j r] by (simp add: reader_answers_def)
qed

lemma reader_number_of_points:
  "reader_stands L holds r ps i \<Longrightarrow> unat (h_number_of_points (reader_header r)) = length ps"
  by (auto simp: reader_stands_def reader_header_def las_stands_def laz_stands_def Let_def
      split: reader_kind.splits)

lemma reader_read_points_stands:
  assumes s: "reader_stands L holds r ps i"
    and n: "is_laz_reader r \<Longrightarrow> 0 < n \<and> i < length ps" and fits: "length ps * env_point_size E < 2 ^ 63"
  shows "\<exists>k r'. reader_read_points_into E L n (r, []) = (Ok k, r', take (unat n) (drop i ps)) \<and>
     reader_stands L holds r' ps (min (i + unat n) (length ps))"
proof (cases "fr_point_reader r")
  case (LasReader k)
  then have "las_stands k ps i" using s by (simp add: reader_stands_def)
  from las.any [OF this, of "[]" E n] fits LasReader show ?thesis
    by (auto simp: reader_stands_def reader_read_points_into_cases)
next
  case (LazReader k)
  then have "0 < n" "i < length ps" using n by (auto simp: is_laz_reader_def)
  from reader.many [OF s this, where acc = "[]" and E = E] fits show ?thesis by auto
qed

lemma reader_answers_step:
  assumes s: "reader_stands L holds r ps i" and fits: "length ps * env_point_size E < 2 ^ 63"
    and ok: "call_allowed (is_laz_reader r) (env_point_size E) ps x i"
  shows "\<exists>r'. reader_answers E L x r = (fst (list_answers ps x i), r') \<and>
     reader_stands L holds r' ps (snd (list_answers ps x i))"
proof (cases x)
  case NextPoint
  show ?thesis
  proof (cases "i < length ps")
    case True
    from reader.next_some [OF s True] NextPoint True show ?thesis
      by (auto simp: reader_answers_def points_next_def)
  next
    case False
    then have "i = length ps" using reader.stands_le [OF s] by simp
    from reader.next_none [OF s this] NextPoint False s show ?thesis
      by (simp add: reader_answers_def points_next_def)
  qed
next
  case (ReadPoints n)
  then have "is_laz_reader r \<Longrightarrow> 0 < n \<and> i < length ps" "unat n * env_point_size E < 2 ^ 63"
    using ok by auto
  from reader_read_points_stands [OF s this(1) fits] this(2) ReadPoints show ?thesis
    by (auto simp: reader_answers_def reader_read_points_def)
next
  case ReadAllPoints
  let ?n = "h_number_of_points (reader_header r)"
  have n: "unat ?n = length ps" using s by (rule reader_number_of_points)
  then have "is_laz_reader r \<Longrightarrow> 0 < ?n \<and> i < length ps"
    using ok ReadAllPoints by (auto simp: word_less_nat_alt)
  from reader_read_points_stands [OF s this fits] n ReadAllPoints show ?thesis
    by (auto simp: reader_answers_def reader_read_all_points_into_def io_bind_get)
next
  case (SeekTo j)
  then have "unat j \<le> length ps" using ok by simp
  from reader.seek_to [OF s this] SeekTo show ?thesis by (auto simp: reader_answers_def)
qed

lemma reader_answers_run:
  assumes "reader_stands L holds r ps i" "length ps * env_point_size E < 2 ^ 63"
    and "calls_allowed (is_laz_reader r) (env_point_size E) ps xs i"
  shows "\<exists>r'. run_calls (reader_answers E L) xs r = (fst (run_calls (list_answers ps) xs i), r') \<and>
     reader_stands L holds r' ps (snd (run_calls (list_answers ps) xs i))"
  using assms
proof (induction xs arbitrary: r i)
  case (Cons x xs)
  from reader_answers_step [OF Cons.prems(1,2)] Cons.prems(3) obtain r1 where
    r1: "reader_answers E L x r = (fst (list_answers ps x i), r1)"
      "reader_stands L holds r1 ps (snd (list_answers ps x i))" by auto
  have "is_laz_reader r1 = is_laz_reader r" using reader_answers_kind [of E L x r] r1(1) by simp
  from Cons.IH [OF r1(2) Cons.prems(2)] Cons.prems(3) this r1(1) show ?case
    by (auto split: prod.splits)
qed simp

section \<open>A concrete compression\<close>

text \<open>
  An instance of the functions of \<^verbatim>\<open>laz\<close> for the witnesses: it stores the records as they are,
  after their number, and its laszip record holds their size.
\<close>

definition stored_one :: "((bytes list \<times> nat) \<times> bytes, unit) io" where
  "stored_one = (\<lambda>((recs, i), buf).
     if i < length recs \<and> length (recs ! i) \<le> length buf
     then (Ok (), (recs, Suc i), recs ! i @ drop (length (recs ! i)) buf)
     else (Err LasZipError, (recs, i), buf))"

definition stored_many :: "((bytes list \<times> nat) \<times> bytes, unit) io" where
  "stored_many = (\<lambda>((recs, i), buf).
     if buf = [] then (Ok (), (recs, i), buf)
     else let n = length buf div length (recs ! i) in
       if i + n \<le> length recs \<and> length (concat (take n (drop i recs))) = length buf
       then (Ok (), (recs, i + n), concat (take n (drop i recs)))
       else (Err LasZipError, (recs, i), buf))"

definition stored_laz :: "(nat, cursor \<times> bytes list, bytes list \<times> nat) laz" where
  "stored_laz =
     \<lparr>laz_USER_ID = [0x6C, 0x61, 0x73, 0x7A, 0x69, 0x70, 0x20, 0x65, 0x6E, 0x63, 0x6F, 0x64, 0x65, 0x64],
      laz_RECORD_ID = 22204, laz_DESCRIPTION = [],
      laz_from_laz_items = (\<lambda>is. sum_list (map laz_item_size is)),
      laz_vlr_write_to = (\<lambda>n. write_u32 (word_of_nat n)),
      laz_from_buffer = (\<lambda>bs. and_then (fst (read_u32 \<lparr>c_data = bs, c_pos = 0\<rparr>)) (\<lambda>n. Ok (unat n))),
      laz_compressor_new = (\<lambda>c n. Ok (c, [])),
      laz_compress_one = (\<lambda>bs (c, recs). (Ok (), (c, recs @ [bs]))),
      laz_compressor_done = (\<lambda>(c, recs).
        (Ok (), (put (to_le 8 (word_of_nat (length recs) :: u64) @ concat recs) c, []))),
      laz_compressor_get = fst, laz_compressor_set = (\<lambda>c (_, recs). (c, recs)),
      laz_decompressor_new = (\<lambda>c n.
        and_then (fst (io_bind read_u64 (\<lambda>k. io_times (unat k) (read_exact n)) c)) (\<lambda>recs. Ok (recs, 0))),
      laz_decompress_one = stored_one, laz_decompress_many = stored_many,
      laz_decompressor_seek = (\<lambda>j (recs, i).
        if unat j \<le> length recs then (Ok (), (recs, unat j)) else (Err LasZipError, (recs, i)))\<rparr>"

definition stored_holds :: "bytes list \<times> nat \<Rightarrow> bytes list \<Rightarrow> nat \<Rightarrow> bool" where
  "stored_holds z recs i \<longleftrightarrow>
     z = (recs, i) \<and> i \<le> length recs \<and> length recs < 2 ^ 64 \<and>
     (\<exists>k > 0. \<forall>bs \<in> set recs. length bs = k)"

lemma length_concat_same:
  "\<forall>bs \<in> set xs. length bs = k \<Longrightarrow> length (concat xs) = length xs * k"
  by (induction xs) simp_all

lemma stored_decompresses: "decompresses stored_laz stored_holds"
proof -
  have "\<exists>z'. stored_many (z, buf) = (Ok (), z', concat (take n (drop i recs))) \<and> stored_holds z' recs (i + n)"
    if st: "stored_holds z recs i" and n: "0 < n" "i + n \<le> length recs"
      "length buf = length (concat (take n (drop i recs)))" for z recs i n buf
  proof -
    obtain k where k: "0 < k" "\<forall>bs \<in> set recs. length bs = k" using st by (auto simp: stored_holds_def)
    then have "\<forall>bs \<in> set (take n (drop i recs)). length bs = k" by (meson in_set_dropD in_set_takeD)
    from length_concat_same [OF this] n(2,3) have len: "length buf = n * k"
      "length (concat (take n (drop i recs))) = length buf" by simp_all
    have "buf \<noteq> []" using len(1) k n(1) by auto
    moreover have "length (recs ! i) = k" using k n by simp
    ultimately show ?thesis using st n(2) len k by (auto simp: stored_many_def stored_holds_def)
  qed
  moreover have "\<exists>z'. stored_one (z, buf) = (Ok (), z', recs ! i @ drop (length (recs ! i)) buf) \<and>
      stored_holds z' recs (Suc i)"
    if "stored_holds z recs i" "i < length recs" "length (recs ! i) \<le> length buf" for z recs i buf
    using that by (auto simp: stored_one_def stored_holds_def)
  moreover have "unat (word_of_nat j :: u64) = j" if "j \<le> length recs" "length recs < 2 ^ 64"
    for j and recs :: "bytes list"
    using that by (intro unat_of_nat_eq) simp
  then have "\<exists>z'. laz_decompressor_seek stored_laz (word_of_nat j) z = (Ok (), z') \<and> stored_holds z' recs j"
    if "stored_holds z recs i" "j \<le> length recs" for z recs i j
    using that by (auto simp: stored_laz_def stored_holds_def)
  ultimately show ?thesis
    unfolding decompresses_def by (simp add: stored_laz_def)
qed

text \<open>A reader of two compressed points.\<close>

definition zero_record :: bytes where "zero_record = replicate 20 0"

definition demo_laz_reader ::
  "(int \<times> day_of_year, 128 word, bytes list \<times> nat) las_file_reader" where
  "demo_laz_reader =
     \<lparr>fr_point_reader = LazReader
        \<lparr>zr_buffer = \<lparr>c_data = replicate 20 0, c_pos = 0\<rparr>,
         zr_decompressor = ([zero_record, zero_record], 0), zr_header = demo_header, zr_index = 0\<rparr>\<rparr>"

lemma zero_record_of: "\<exists>p. record_of format_default ts zero_record p"
proof -
  let ?raw = "\<lparr>rp_x = 0, rp_y = 0, rp_z = 0, rp_intensity = 0, rp_flags = TwoByte 0 0,
    rp_scan_angle = Rank 0, rp_user_data = 0, rp_point_source_id = 0, rp_gps_time = None,
    rp_color = None, rp_waveform = None, rp_nir = None, rp_extra_bytes = []\<rparr>"
  have "enc_point format_default ?raw (TwoByte 0 0) = zero_record"
    by (simp add: enc_point_def enc_head_def stored_angle_def keep_if_def format_default_def
        zero_record_def numeral_eq_Suc)
  moreover have "reads (raw_point_read_from format_default) (enc_point format_default ?raw (TwoByte 0 0)) ?raw"
    using raw_point.reads_ok [of format_default ?raw] by (simp add: conforms_def format_default_def)
  moreover obtain p where "point_new ?raw ts = Ok p"
    using to_classification_cleared [of "TwoByte 0 0"] by (auto simp: point_new_def Let_def)
  ultimately show ?thesis
    by (auto simp: record_of_def zero_record_def record_len_def format_default_def)
qed

lemma demo_laz_stands: "\<exists>p. reader_stands stored_laz stored_holds demo_laz_reader [p, p] 0"
proof -
  obtain p where "record_of format_default (h_transforms demo_header) zero_record p"
    using zero_record_of by blast
  then have "list_all2 (record_of format_default (h_transforms demo_header))
      [zero_record, zero_record] [p, p]" by simp
  moreover have "stored_holds ([zero_record, zero_record], 0) [zero_record, zero_record] 0"
    by (simp add: stored_holds_def zero_record_def)
  moreover have "h_point_format demo_header = format_default" "h_number_of_points demo_header = 2"
    by (simp_all add: demo_header_def header_default_def)
  moreover have "record_len format_default = 20" by (simp add: record_len_def format_default_def)
  ultimately have "reader_stands stored_laz stored_holds demo_laz_reader [p, p] 0"
    using stored_decompresses
    by (auto simp: reader_stands_def demo_laz_reader_def laz_stands_def simp del: list_all2_Cons)
  then show ?thesis by blast
qed

section \<open>Properties\<close>

text \<open>
  C2. A reader refines a list of points with an index.  For every sequence of calls, iterating,
  reading some points, reading all that are left and seeking in any order, a reader that stands
  for a list and an index gives the answers that the list gives, call by call, and stands for
  the list and the index that the list ends with, from where iterating yields the rest.  The
  reader may be compressed or not.  A seek stays within the points, and a compressed reader is
  asked for several points only when there is at least one to read.
\<close>

theorem points_refine_list:
  assumes "reader_stands L holds r ps i" "length ps * env_point_size E < 2 ^ 63"
    and "calls_allowed (is_laz_reader r) (env_point_size E) ps calls i"
  shows "\<exists>r'. run_calls (reader_answers E L) calls r = (fst (run_calls (list_answers ps) calls i), r') \<and>
     reader_stands L holds r' ps (snd (run_calls (list_answers ps) calls i)) \<and>
     points_collect L r' = map Ok (drop (snd (run_calls (list_answers ps) calls i)) ps)"
  using reader_answers_run [OF assms] points_collect_stands by blast

theorem points_refine_list_witness:
  "\<exists>p r'. run_calls (reader_answers demo_env stored_laz)
       [NextPoint, SeekTo 0, ReadPoints 5, NextPoint, SeekTo 1, ReadAllPoints, SeekTo 1] demo_laz_reader
     = ([Item (Some (Ok p)), Sought (Ok ()), Points (Ok [p, p]), Item None, Sought (Ok ()),
         Points (Ok [p]), Sought (Ok ())], r') \<and>
     points_collect stored_laz r' = [Ok p]"
proof -
  obtain p where "reader_stands stored_laz stored_holds demo_laz_reader [p, p] 0"
    using demo_laz_stands by blast
  from points_refine_list [OF this, of demo_env
      "[NextPoint, SeekTo 0, ReadPoints 5, NextPoint, SeekTo 1, ReadAllPoints, SeekTo 1]"]
  show ?thesis by (auto simp: demo_env_def)
qed

text \<open>
  C17. Iterating over the points of a reader ends on every stream, whatever its bytes and
  whatever the decompressor does: there are at most as many items as the header has points
  from the index on, every item leaves fewer of them, and at the end the reader stays as it is.
\<close>

theorem points_iteration_ends:
  "length (points_collect L r) \<le> points_left r \<and>
   (case points_next L r of
      (None, r') \<Rightarrow> r' = r
    | (Some _, r') \<Rightarrow> points_left r' < points_left r)"
proof -
  have "length (points_collect L r) \<le> points_left r"
  proof (induction "points_left r" arbitrary: r rule: less_induct)
    case less
    obtain x r' where n: "points_next L r = (x, r')" by fastforce
    show ?case
    proof (cases x)
      case None
      with n show ?thesis by (subst points_collect.simps) simp
    next
      case (Some y)
      then have "points_left r' < points_left r" using points_next_progress n by blast
      with less [of r'] n Some show ?thesis by (subst points_collect.simps) (auto split: if_splits)
    qed
  qed
  then show ?thesis
    using points_next_none [of L r] points_next_progress [of L r] by (auto split: prod.split option.split)
qed

text \<open>
  C18. Reading the points of an uncompressed file that may be cut off: as many points as the
  header declares or as there are whole records in the rest of the stream, whichever is
  less, are read, and each declared point that is missing gives an unexpected end of file.
  No byte sequence makes the iteration panic.
\<close>

theorem truncated_points:
  "\<exists>r ps. las_reader_new c h = Ok r \<and>
     length ps = min (unat (h_number_of_points h)) (remaining c div record_len (h_point_format h)) \<and>
     points_collect L \<lparr>fr_point_reader = LasReader r\<rparr> =
       map Ok ps @ replicate
         (unat (h_number_of_points h) - remaining c div record_len (h_point_format h))
         (Err (Io UnexpectedEof))"
  using points_collect_las [of "\<lparr>lr_read = c, lr_header = h, lr_index = 0, lr_start = word_of_nat (c_pos c)\<rparr>" L]
  by (simp add: las_reader_new_def stream_position_def)

text \<open>
  C19. Reading points in chunks of any positive sizes gives the same points in the same order
  as reading them one at a time, and leaves a reader that stands at the same point; the last
  chunk may reach past the end.
\<close>

theorem chunks_equal_single_reads:
  assumes "reader_stands L holds r ps i" "list_all (\<lambda>n. 0 < n) ns"
    and "i + sum_list (map unat (butlast ns)) < length ps"
    and "(length ps + sum_list (map unat ns)) * env_point_size E < 2 ^ 63"
  shows "\<exists>r1 r2 qs.
     io_each (\<lambda>n. io_bind (reader_read_points_into E L n) (\<lambda>_. io_return ())) ns (r, []) = (Ok (), r1, qs) \<and>
     io_times (length qs) (reader_read_point L) r = (Ok (map Some qs), r2) \<and>
     reader_stands L holds r1 ps (i + length qs) \<and> reader_stands L holds r2 ps (i + length qs)"
proof -
  let ?n = "sum_list (map unat ns)"
  let ?qs = "take ?n (drop i ps)"
  have le: "i \<le> length ps" using reader.stands_le [OF assms(1)] by simp
  have len: "min (i + ?n) (length ps) = i + length ?qs" using le by simp
  have "i + length ?qs \<le> length ps" using le by simp
  then have "min (i + length ?qs) (length ps) = i + length ?qs" by (rule min_absorb1)
  moreover have "length ?qs - (length ps - i) = 0" by simp
  moreover have "take (length ?qs) (drop i ps) = ?qs" by (simp add: min_def)
  ultimately obtain r2 where r2: "io_times (length ?qs) (reader_read_point L) r = (Ok (map Some ?qs), r2)"
    "reader_stands L holds r2 ps (i + length ?qs)"
    using reader.io_times_stands [OF assms(1), of "length ?qs"] by (simp only: replicate_0 append_Nil2) blast
  from reader.chunks [OF assms(1-3), where acc = "[]" and E = E] assms(4) len
  obtain r1 where "io_each (\<lambda>n. io_bind (reader_read_points_into E L n) (\<lambda>_. io_return ())) ns (r, [])
      = (Ok (), r1, ?qs)" "reader_stands L holds r1 ps (i + length ?qs)" by auto
  with r2 show ?thesis by blast
qed

theorem chunks_equal_single_reads_witness:
  "\<exists>p r1 r2 qs. io_each (\<lambda>n. io_bind (reader_read_points_into demo_env stored_laz n) (\<lambda>_. io_return ()))
       [1, 5] (demo_laz_reader, []) = (Ok (), r1, qs) \<and>
     io_times (length qs) (reader_read_point stored_laz) demo_laz_reader = (Ok (map Some qs), r2) \<and>
     reader_stands stored_laz stored_holds r1 [p, p] (length qs)"
proof -
  obtain p where "reader_stands stored_laz stored_holds demo_laz_reader [p, p] 0"
    using demo_laz_stands by blast
  from chunks_equal_single_reads [OF this, of "[1, 5]" demo_env] show ?thesis
    by (auto simp: demo_env_def)
qed

text \<open>A function that is handed a slice cannot change its length.\<close>

definition keeps_slices :: "('v, 'c, 'z) laz \<Rightarrow> bool" where
  "keeps_slices L \<longleftrightarrow>
     (\<forall>z bs. length (snd (snd (laz_decompress_one L (z, bs)))) = length bs) \<and>
     (\<forall>z bs. length (snd (snd (laz_decompress_many L (z, bs)))) = length bs)"

lemma empty_buffer_fails:
  assumes "c_data (zr_buffer r) = []"
  shows "\<not> is_ok (fst (buffered_point h r))"
proof -
  have "remaining (zr_buffer r) < record_len (h_point_format h)"
    using assms record_len_pos [of "h_point_format h"] by (simp add: remaining_def)
  then obtain c' where "raw_point_read_from (h_point_format h) (zr_buffer r) = (Err (Io UnexpectedEof), c')"
    using consumes_raw_point unfolding consumes_def by blast
  then show ?thesis by (simp add: buffered_point_def on_buffer_def io_bind_def io_zoom_def)
qed

lemma laz_read_point_no_room:
  assumes "keeps_slices L" "c_data (zr_buffer r) = []" "zr_index r < h_number_of_points (zr_header r)"
  shows "\<not> is_ok (fst (laz_read_point L r))"
proof -
  obtain a z bs where d: "laz_decompress_one L (zr_decompressor r, []) = (a, z, bs)" by (metis prod_cases3)
  have "length (snd (snd (laz_decompress_one L (zr_decompressor r, [])))) = length ([] :: bytes)"
    using assms(1) unfolding keeps_slices_def by blast
  then have bs: "bs = []" using d by simp
  let ?r = "r\<lparr>zr_index := zr_index r + 1, zr_decompressor := z,
    zr_buffer := (zr_buffer r)\<lparr>c_data := [], c_pos := 0\<rparr>\<rparr>"
  have "\<not> is_ok (fst (buffered_point (zr_header r) ?r))" by (rule empty_buffer_fails) simp
  then show ?thesis
    using assms(2,3) d bs
    by (auto simp: laz_read_point_def decompress_def set_position_def io_defs split: outcome.splits prod.splits)
qed

lemma laz_read_points_nothing:
  assumes "laz_stands L holds r ps i" "keeps_slices L" "n = 0 \<or> i = length ps"
  shows "\<exists>a r'. laz_read_points E L n (r, acc) = (a, r', acc) \<and> c_data (zr_buffer r') = [] \<and>
     zr_index r' = zr_index r \<and> zr_header r' = zr_header r"
proof -
  let ?h = "zr_header r"
  have idx: "zr_index r \<le> h_number_of_points ?h" "i = length ps \<Longrightarrow> h_number_of_points ?h - zr_index r = 0"
    and len: "record_len (h_point_format ?h) < 65536"
    using assms(1) by (auto simp: laz_stands_def Let_def word_le_nat_alt word_unat_eq_iff unat_sub)
  then have m: "min (h_number_of_points ?h - zr_index r) n = 0" using assms(3) by auto
  have f: "format_len (h_point_format ?h) = Ok (word_of_nat (record_len (h_point_format ?h)))"
    using len by (simp add: format_len_Ok_iff)
  obtain a z bs where d: "laz_decompress_many L (zr_decompressor r, []) = (a, z, bs)" by (metis prod_cases3)
  have "length (snd (snd (laz_decompress_many L (zr_decompressor r, [])))) = length ([] :: bytes)"
    using assms(2) unfolding keeps_slices_def by blast
  then have bs: "bs = []" using d by simp
  show ?thesis
    using idx(1) m f d bs
    by (cases a) (auto simp: laz_read_points_def checked_sub_def Let_def alone_def decompress_def set_position_def
        reserve_def resize_zeroed_def resize_def checked_mul_def io_defs)
qed

text \<open>
  C38. Reading no points spoils a compressed reader.  A call of \<^verbatim>\<open>read_points\<close> that reads nothing,
  because it is asked for nothing or because the reader is at the end, shrinks the buffer that
  \<^verbatim>\<open>read_point\<close> uses to nothing.  Every point can be read before the call, and none after
  it, neither at the index nor after a seek, whatever the decompressor does: it
  is handed a slice, whose length it cannot change, and a record does not fit into the empty one.
\<close>

theorem empty_read_spoils_compressed_reader:
  assumes "laz_stands L holds r ps i" "keeps_slices L" "n = 0 \<or> i = length ps"
  shows "\<exists>a r'. laz_read_points E L n (r, acc) = (a, r', acc) \<and>
     (i < length ps \<longrightarrow> fst (laz_read_point L r) = Ok (Some (ps ! i)) \<and>
        \<not> is_ok (fst (laz_read_point L r'))) \<and>
     (\<forall>j < length ps.
        fst (io_bind (laz_seek L (word_of_nat j)) (\<lambda>_. laz_read_point L) r) = Ok (Some (ps ! j)) \<and>
        \<not> is_ok (fst (io_bind (laz_seek L (word_of_nat j)) (\<lambda>_. laz_read_point L) r')))"
proof -
  obtain a r' where r': "laz_read_points E L n (r, acc) = (a, r', acc)" "c_data (zr_buffer r') = []"
    "zr_index r' = zr_index r" "zr_header r' = zr_header r"
    using laz_read_points_nothing [OF assms] by blast
  have num: "unat (h_number_of_points (zr_header r)) = length ps" "unat (zr_index r) = i"
    using assms(1) by (auto simp: laz_stands_def Let_def)
  have "\<not> is_ok (fst (laz_read_point L r'))" if "i < length ps"
    using laz_read_point_no_room [OF assms(2) r'(2)] r'(3,4) num that by (simp add: word_less_nat_alt)
  moreover have "fst (laz_read_point L r) = Ok (Some (ps ! i))" if "i < length ps"
    using laz_stream.next_some [OF assms(1) that] by auto
  moreover have "fst (io_bind (laz_seek L (word_of_nat j)) (\<lambda>_. laz_read_point L) r) = Ok (Some (ps ! j))"
    if "j < length ps" for j
  proof -
    from that have "j \<le> length ps" by simp
    from laz.seek_to [OF assms(1) this] laz_stream.next_some [OF _ that] show ?thesis
      by (fastforce simp: io_bind_def)
  qed
  moreover have "\<not> is_ok (fst (io_bind (laz_seek L (word_of_nat j)) (\<lambda>_. laz_read_point L) r'))"
    if "j < length ps" for j
  proof -
    have "unat (word_of_nat j :: u64) = j"
      using that laz_stream.stands_le [OF assms(1)] by (intro unat_of_nat_eq) simp
    then have "\<not> is_ok (fst (laz_read_point L (r'\<lparr>zr_index := word_of_nat j, zr_decompressor := z\<rparr>)))" for z
      using r' num that by (intro laz_read_point_no_room [OF assms(2)]) (simp_all add: word_less_nat_alt)
    then show ?thesis
      by (auto simp: laz_seek_def io_defs split: prod.splits outcome.splits)
  qed
  ultimately show ?thesis using r'(1) by blast
qed

lemma stored_keeps_slices: "keeps_slices stored_laz"
  by (auto simp: keeps_slices_def stored_laz_def stored_one_def stored_many_def Let_def split: if_splits)

theorem empty_read_spoils_compressed_reader_witness:
  "\<exists>r p a r'. fr_point_reader demo_laz_reader = LazReader r \<and>
     fst (laz_read_point stored_laz r) = Ok (Some p) \<and>
     laz_read_points demo_env stored_laz 0 (r, []) = (a, r', []) \<and>
     \<not> is_ok (fst (laz_read_point stored_laz r')) \<and>
     \<not> is_ok (fst (io_bind (laz_seek stored_laz 1) (\<lambda>_. laz_read_point stored_laz) r'))"
proof -
  obtain p where p: "reader_stands stored_laz stored_holds demo_laz_reader [p, p] 0"
    using demo_laz_stands by blast
  obtain r where r: "fr_point_reader demo_laz_reader = LazReader r" by (simp add: demo_laz_reader_def)
  with p have "laz_stands stored_laz stored_holds r [p, p] 0" by (simp add: reader_stands_def)
  from empty_read_spoils_compressed_reader [OF this stored_keeps_slices, of 0 demo_env "[]"] r show ?thesis
    by (fastforce dest: spec [of _ 1])
qed

text \<open>
  C39. Seeking past the last point of an uncompressed file succeeds, a single read then returns
  no point, but reading several points subtracts the index from the number of points and
  panics on the underflow, whatever the number asked for.
\<close>

theorem seek_past_end:
  assumes "h_number_of_points (lr_header r) < j" "format_len (h_point_format (lr_header r)) = Ok len"
    and "unat (lr_start r) + unat j * unat len < 2 ^ 64"
  shows "\<exists>r'. las_seek j r = (Ok (), r') \<and> las_read_point r' = (Ok None, r') \<and>
     las_read_points E n (r', acc) = (Panic, r', acc)"
proof -
  define w :: u64 where "w = ucast len"
  have w: "unat w = unat len" by (simp add: w_def unat_ucast_up)
  have m: "checked_mul j w = Ok (j * w)" "unat (j * w) = unat j * unat len"
    using assms(3) w by (simp_all add: checked_mul_def unat_word_ariths)
  have p: "checked_add (lr_start r) (j * w) = Ok (lr_start r + j * w)"
    using assms(3) m(2) by (simp add: checked_add_def)
  let ?r = "r\<lparr>lr_index := j, lr_read := (lr_read r)\<lparr>c_pos := unat (lr_start r + j * w)\<rparr>\<rparr>"
  have "las_seek j r = (Ok (), ?r)"
    using m(1) p assms(2) by (simp add: las_seek_def on_read_def io_defs seek_start_def flip: w_def)
  moreover have "\<not> j < h_number_of_points (lr_header r)" "\<not> j \<le> h_number_of_points (lr_header r)"
    using assms(1) by auto
  then have "las_read_point ?r = (Ok None, ?r)" "las_read_points E n (?r, acc) = (Panic, ?r, acc)"
    by (simp_all add: las_read_point_def las_read_points_def checked_sub_def io_defs)
  ultimately show ?thesis by blast
qed

theorem seek_past_end_witness:
  "\<exists>r'. las_seek 3 \<lparr>lr_read = \<lparr>c_data = replicate 40 0, c_pos = 0\<rparr>, lr_header = demo_header,
       lr_index = 0, lr_start = 0\<rparr> = (Ok (), r') \<and>
     las_read_points demo_env 1 (r', []) = (Panic, r', [])"
proof -
  have "format_len (h_point_format demo_header) = Ok 20" "h_number_of_points demo_header < 3"
    by (simp_all add: demo_header_def header_default_def format_default_def format_len_def add_if_def
        checked_add_def)
  with seek_past_end [of "\<lparr>lr_read = \<lparr>c_data = replicate 40 0, c_pos = 0\<rparr>, lr_header = demo_header,
       lr_index = 0, lr_start = 0\<rparr>" 3 20 demo_env 1 "[]"] show ?thesis by auto
qed

end
