(* ===== verification/Las_Writer.thy ===== *)
theory Las_Writer
  imports Laz
begin

text \<open>
  Writing points (\<^verbatim>\<open>src/writer/mod.rs\<close>, \<^verbatim>\<open>src/writer/las.rs\<close>, \<^verbatim>\<open>src/writer/laz.rs\<close>).  The
  calls are computations on the state of the writer, so that what a failed call has already
  counted or written is visible.  A value that goes out of scope is dropped, and dropping a
  writer that is not closed closes it.
\<close>

section \<open>Uncompressed points\<close>

record ('d, 'u) las_writer =
  lw_write :: cursor
  lw_header :: "('d, 'u) header"

definition las_writer_new :: "cursor \<Rightarrow> ('d, 'u) header \<Rightarrow> ('d, 'u) las_writer" where
  "las_writer_new write h = \<lparr>lw_write = write, lw_header = h\<rparr>"

definition las_write_point :: "point \<Rightarrow> (('d, 'u) las_writer, unit) io" where
  "las_write_point p =
     io_bind io_get (\<lambda>w.
     io_bind (io_lift (add_point (lw_header w) p)) (\<lambda>h.
     io_bind (io_modify (\<lambda>w. w\<lparr>lw_header := h\<rparr>)) (\<lambda>_.
     io_bind (io_lift (into_raw p (h_transforms h))) (\<lambda>raw.
     io_zoom lw_write (\<lambda>c w. w\<lparr>lw_write := c\<rparr>) (raw_point_write_to (h_point_format h) raw)))))"

section \<open>Compressed points\<close>

record ('d, 'u, 'c) laz_writer =
  zw_compressor :: 'c
  zw_buffer :: cursor
  zw_header :: "('d, 'u) header"

definition laz_writer_new ::
  "('v, 'c, 'z) laz \<Rightarrow> cursor \<Rightarrow> ('d, 'u) header \<Rightarrow> ('d, 'u, 'c) laz_writer outcome" where
  "laz_writer_new L write h =
     and_then (format_len (h_point_format h)) (\<lambda>len.
     and_then (laz_vlr L h) (\<lambda>v.
     and_then (laz_compressor_new L write v) (\<lambda>c.
     Ok \<lparr>zw_compressor = c, zw_buffer = \<lparr>c_data = replicate (unat len) 0, c_pos = 0\<rparr>,
         zw_header = h\<rparr>)))"

definition laz_write_point ::
  "('v, 'c, 'z) laz \<Rightarrow> point \<Rightarrow> (('d, 'u, 'c) laz_writer, unit) io" where
  "laz_write_point L p =
     io_bind io_get (\<lambda>w.
     io_bind (io_lift (add_point (zw_header w) p)) (\<lambda>h.
     io_bind (io_modify (\<lambda>w. w\<lparr>zw_header := h, zw_buffer := (zw_buffer w)\<lparr>c_pos := 0\<rparr>\<rparr>)) (\<lambda>_.
     io_bind (io_lift (into_raw p (h_transforms h))) (\<lambda>raw.
     io_bind (io_zoom zw_buffer (\<lambda>c w. w\<lparr>zw_buffer := c\<rparr>)
       (raw_point_write_to (h_point_format h) raw)) (\<lambda>_.
     io_bind io_get (\<lambda>w.
     io_zoom zw_compressor (\<lambda>c w. w\<lparr>zw_compressor := c\<rparr>)
       (laz_compress_one L (c_data (zw_buffer w)))))))))"

section \<open>The trait of point writers\<close>

text \<open>
  \<^verbatim>\<open>Box<dyn WritePoint<W>>\<close>: one of the two point writers, or \<^verbatim>\<open>ClosedPointWriter\<close>, all of whose
  methods are unreachable and panic.
\<close>

datatype ('d, 'u, 'c) writer_kind =
    LasWriter "('d, 'u) las_writer"
  | LazWriter "('d, 'u, 'c) laz_writer"
  | ClosedPointWriter

definition unreachable :: "('s, 'a) io" where
  "unreachable = io_lift Panic"

definition kind_write_point ::
  "('v, 'c, 'z) laz \<Rightarrow> point \<Rightarrow> (('d, 'u, 'c) writer_kind, unit) io" where
  "kind_write_point L p k =
     (case k of
        LasWriter w \<Rightarrow> (case las_write_point p w of (r, w) \<Rightarrow> (r, LasWriter w))
      | LazWriter w \<Rightarrow> (case laz_write_point L p w of (r, w) \<Rightarrow> (r, LazWriter w))
      | ClosedPointWriter \<Rightarrow> unreachable k)"

text \<open>A call on \<^verbatim>\<open>get_mut()\<close>, the stream behind the point writer.\<close>

definition get_mut ::
  "('v, 'c, 'z) laz \<Rightarrow> 'a reader \<Rightarrow> (('d, 'u, 'c) writer_kind, 'a) io" where
  "get_mut L m k =
     (case k of
        LasWriter w \<Rightarrow> (case m (lw_write w) of (r, c) \<Rightarrow> (r, LasWriter (w\<lparr>lw_write := c\<rparr>)))
      | LazWriter w \<Rightarrow>
          (case m (laz_compressor_get L (zw_compressor w)) of
             (r, c) \<Rightarrow> (r, LazWriter (w\<lparr>zw_compressor := laz_compressor_set L c (zw_compressor w)\<rparr>)))
      | ClosedPointWriter \<Rightarrow> unreachable k)"

definition kind_header :: "('d, 'u, 'c) writer_kind \<Rightarrow> ('d, 'u) header outcome" where
  "kind_header k =
     (case k of
        LasWriter w \<Rightarrow> Ok (lw_header w)
      | LazWriter w \<Rightarrow> Ok (zw_header w)
      | ClosedPointWriter \<Rightarrow> Panic)"

definition kind_header_mut ::
  "(('d, 'u) header \<Rightarrow> ('d, 'u) header) \<Rightarrow> (('d, 'u, 'c) writer_kind, unit) io" where
  "kind_header_mut f k =
     (case k of
        LasWriter w \<Rightarrow> (Ok (), LasWriter (w\<lparr>lw_header := f (lw_header w)\<rparr>))
      | LazWriter w \<Rightarrow> (Ok (), LazWriter (w\<lparr>zw_header := f (zw_header w)\<rparr>))
      | ClosedPointWriter \<Rightarrow> unreachable k)"

definition kind_done :: "('v, 'c, 'z) laz \<Rightarrow> (('d, 'u, 'c) writer_kind, unit) io" where
  "kind_done L k =
     (case k of
        LasWriter w \<Rightarrow> (Ok (), k)
      | LazWriter w \<Rightarrow>
          (case laz_compressor_done L (zw_compressor w) of
             (r, c) \<Rightarrow> (r, LazWriter (w\<lparr>zw_compressor := c\<rparr>)))
      | ClosedPointWriter \<Rightarrow> unreachable k)"

definition kind_into_inner :: "('v, 'c, 'z) laz \<Rightarrow> ('d, 'u, 'c) writer_kind \<Rightarrow> cursor outcome" where
  "kind_into_inner L k =
     (case k of
        LasWriter w \<Rightarrow> Ok (lw_write w)
      | LazWriter w \<Rightarrow> Ok (laz_compressor_get L (zw_compressor w))
      | ClosedPointWriter \<Rightarrow> Panic)"

section \<open>Writers\<close>

record ('d, 'u, 'c) file_writer =
  fw_closed :: bool
  fw_start :: u64
  fw_point_writer :: "('d, 'u, 'c) writer_kind"

definition on_kind :: "(('d, 'u, 'c) writer_kind, 'a) io \<Rightarrow> (('d, 'u, 'c) file_writer, 'a) io" where
  "on_kind = io_zoom fw_point_writer (\<lambda>k w. w\<lparr>fw_point_writer := k\<rparr>)"

definition writer_header :: "(('d, 'u, 'c) file_writer, ('d, 'u) header) io" where
  "writer_header w = (kind_header (fw_point_writer w), w)"

definition writer_new ::
  "('d, 'u) env \<Rightarrow> ('v, 'c, 'z) laz \<Rightarrow> cursor \<Rightarrow> ('d, 'u) header \<Rightarrow>
   ('d, 'u, 'c) file_writer outcome" where
  "writer_new E L write h =
     (case stream_position write of
        (r, write) \<Rightarrow>
          and_then r (\<lambda>start.
          let h = clear h in
          if is_compressed (h_point_format h)
          then (if env_laz E
                then and_then (add_laz_vlr L h) (\<lambda>h.
                     case header_write_to E h write of (r, write) \<Rightarrow>
                     and_then r (\<lambda>_.
                     and_then (laz_writer_new L write h) (\<lambda>w.
                     Ok \<lparr>fw_closed = False, fw_start = word_of_nat start,
                         fw_point_writer = LazWriter w\<rparr>)))
                else Err LaszipNotEnabled)
          else case header_write_to E h write of (r, write) \<Rightarrow>
               and_then r (\<lambda>_.
               Ok \<lparr>fw_closed = False, fw_start = word_of_nat start,
                   fw_point_writer = LasWriter (las_writer_new write h)\<rparr>)))"

definition write_evlrs ::
  "('v, 'c, 'z) laz \<Rightarrow> raw_vlr outcome list \<Rightarrow> (('d, 'u, 'c) file_writer, unit) io" where
  "write_evlrs L =
     io_each (\<lambda>raw. io_bind (io_lift raw) (\<lambda>raw. on_kind (get_mut L (raw_vlr_write_to raw))))"

definition writer_close ::
  "('d, 'u) env \<Rightarrow> ('v, 'c, 'z) laz \<Rightarrow> (('d, 'u, 'c) file_writer, unit) io" where
  "writer_close E L =
     io_bind io_get (\<lambda>w.
     if fw_closed w then io_lift (Err ClosedWriter)
     else
     io_bind (on_kind (kind_done L)) (\<lambda>_.
     io_bind writer_header (\<lambda>h.
     io_bind (on_kind (get_mut L (write_all (h_point_padding h)))) (\<lambda>_.
     io_bind (on_kind (get_mut L stream_position)) (\<lambda>p.
     io_bind (on_kind (kind_header_mut (\<lambda>h. set_start_of_first_evlr h (word_of_nat p)))) (\<lambda>_.
     io_bind writer_header (\<lambda>h.
     io_bind (write_evlrs L (map (\<lambda>v. vlr_into_raw v True) (h_evlrs h))) (\<lambda>_.
     io_bind (on_kind (get_mut L (seek_start (unat (fw_start w))))) (\<lambda>_.
     io_bind writer_header (\<lambda>h.
     io_bind (io_lift (header_into_raw E h)) (\<lambda>raw.
     io_bind (on_kind (get_mut L (raw_header_write_to raw))) (\<lambda>_.
     io_bind (on_kind (get_mut L (seek_start (unat (fw_start w))))) (\<lambda>_.
     io_modify (\<lambda>w. w\<lparr>fw_closed := True\<rparr>))))))))))))))"

definition writer_write_point ::
  "('v, 'c, 'z) laz \<Rightarrow> point \<Rightarrow> (('d, 'u, 'c) file_writer, unit) io" where
  "writer_write_point L p =
     io_bind io_get (\<lambda>w.
     if fw_closed w then io_lift (Err ClosedWriter)
     else
     io_bind writer_header (\<lambda>h.
     if \<not> point_matches p (h_point_format h)
     then io_lift (Err (PointAttributesDoNotMatch (h_point_format h)))
     else on_kind (kind_write_point L p)))"

text \<open>The deprecated name of this call.\<close>

definition writer_write :: "('v, 'c, 'z) laz \<Rightarrow> point \<Rightarrow> (('d, 'u, 'c) file_writer, unit) io" where
  "writer_write = writer_write_point"

text \<open>\<^verbatim>\<open>Drop for Writer\<close>.\<close>

definition writer_drop ::
  "('d, 'u) env \<Rightarrow> ('v, 'c, 'z) laz \<Rightarrow> ('d, 'u, 'c) file_writer \<Rightarrow> unit outcome" where
  "writer_drop E L w = (if fw_closed w then Ok () else expect (fst (writer_close E L w)))"

text \<open>
  \<^verbatim>\<open>Writer::into_inner\<close> takes the writer by value: when closing fails, returning the error
  drops the writer.
\<close>

definition writer_into_inner ::
  "('d, 'u) env \<Rightarrow> ('v, 'c, 'z) laz \<Rightarrow> ('d, 'u, 'c) file_writer \<Rightarrow> cursor outcome" where
  "writer_into_inner E L w =
     (case (if fw_closed w then (Ok (), w) else writer_close E L w) of
        (Ok _, w) \<Rightarrow>
          and_then (kind_into_inner L (fw_point_writer w)) (\<lambda>inner.
          case seek_start (unat (fw_start w)) inner of (r, inner) \<Rightarrow> and_then r (\<lambda>_. Ok inner))
      | (Err e, w) \<Rightarrow> and_then (writer_drop E L w) (\<lambda>_. Err e)
      | (Panic, _) \<Rightarrow> Panic)"

definition writer_default ::
  "('d, 'u) env \<Rightarrow> ('v, 'c, 'z) laz \<Rightarrow> ('d, 'u, 'c) file_writer outcome" where
  "writer_default E L = expect (writer_new E L \<lparr>c_data = [], c_pos = 0\<rparr> (header_default E))"

text \<open>
  \<^verbatim>\<open>Writer::from_path\<close> up to the opening of the file: the extension of the path, when it is
  valid UTF-8, decides whether the points are compressed.  A lower-case character that is
  equal to one of \<^verbatim>\<open>l\<close>, \<^verbatim>\<open>a\<close>, \<^verbatim>\<open>z\<close> comes from that letter only.
\<close>

definition extension_is_laz :: "bool \<Rightarrow> bytes option \<Rightarrow> bool" where
  "extension_is_laz laz ext =
     (laz \<and> (case ext of Some e \<Rightarrow> map ascii_lower e = [0x6C, 0x61, 0x7A] | None \<Rightarrow> False))"

definition from_path_header ::
  "('d, 'u) env \<Rightarrow> bytes option \<Rightarrow> ('d, 'u) header \<Rightarrow> ('d, 'u) header" where
  "from_path_header E ext h =
     h\<lparr>h_point_format := (h_point_format h)\<lparr>is_compressed := extension_is_laz (env_laz E) ext\<rparr>\<rparr>"

end
