(* ===== verification/Writer_Contract.thy ===== *)
theory Writer_Contract
  imports Las_Writer Header_Counts
begin

text \<open>
  The contract of the trait \<^verbatim>\<open>WritePoint\<close> and its implementations: a point writer \<open>wrote\<close> a list
  of points, which its header counts and its stream (or compressor) holds as records after the
  bytes it found there.
\<close>

section \<open>Contracts\<close>

locale point_sink =
  fixes write_point :: "point \<Rightarrow> ('w, unit) io"
    and wrote :: "'w \<Rightarrow> point list \<Rightarrow> bool" and accepts :: "point \<Rightarrow> bool"
  assumes write_next: "wrote w ps \<Longrightarrow> accepts p \<Longrightarrow> length ps + 1 < 2 ^ 64 \<Longrightarrow>
    \<exists>w'. write_point p w = (Ok (), w') \<and> wrote w' (ps @ [p])"
begin

lemma write_many:
  assumes "wrote w ps" "list_all accepts qs" "length ps + length qs < 2 ^ 64"
  shows "\<exists>w'. io_each write_point qs w = (Ok (), w') \<and> wrote w' (ps @ qs)"
  using assms
proof (induction qs arbitrary: w ps)
  case Nil
  then show ?case by (auto simp: io_return_def)
next
  case (Cons q qs)
  from write_next [OF Cons.prems(1), of q] Cons.prems(2,3) obtain w1
    where w1: "write_point q w = (Ok (), w1)" "wrote w1 (ps @ [q])" by auto
  with Cons.IH [OF w1(2)] Cons.prems(2,3) show ?case by (auto simp: io_bind_def)
qed

end

text \<open>A point that a format can represent, and its record.\<close>

definition writable :: "format \<Rightarrow> transform vector \<Rightarrow> point \<Rightarrow> bool" where
  "writable f ts p \<longleftrightarrow>
     point_matches p f \<and>
     (\<exists>raw g. into_raw p ts = Ok raw \<and> stored_flags f (rp_flags raw) = Ok g)"

definition record_bytes :: "format \<Rightarrow> transform vector \<Rightarrow> point \<Rightarrow> bytes" where
  "record_bytes f ts p =
     (case into_raw p ts of
        Ok raw \<Rightarrow> (case stored_flags f (rp_flags raw) of Ok g \<Rightarrow> enc_point f raw g | _ \<Rightarrow> [])
      | _ \<Rightarrow> [])"

lemma writable_record:
  assumes "writable f ts p"
  obtains raw g where "into_raw p ts = Ok raw" "stored_flags f (rp_flags raw) = Ok g"
    "length (rp_extra_bytes raw) = unat (extra_bytes f)" "record_bytes f ts p = enc_point f raw g"
proof -
  from assms obtain raw g where r: "into_raw p ts = Ok raw" "stored_flags f (rp_flags raw) = Ok g"
    by (auto simp: writable_def)
  moreover have "length (rp_extra_bytes raw) = unat (extra_bytes f)"
    using into_raw_fields(13) [OF r(1)] assms by (simp add: writable_def point_matches_def)
  ultimately show thesis using that by (simp add: record_bytes_def)
qed

lemma writes_record:
  assumes "writable f ts p"
  shows "\<exists>raw. into_raw p ts = Ok raw \<and> writes (raw_point_write_to f raw) (record_bytes f ts p)"
    and "length (record_bytes f ts p) = record_len f"
proof -
  obtain raw g where r: "into_raw p ts = Ok raw" "stored_flags f (rp_flags raw) = Ok g"
    "length (rp_extra_bytes raw) = unat (extra_bytes f)" "record_bytes f ts p = enc_point f raw g"
    using writable_record [OF assms] .
  then show "\<exists>raw. into_raw p ts = Ok raw \<and> writes (raw_point_write_to f raw) (record_bytes f ts p)"
    using writes_raw_point by auto
  show "length (record_bytes f ts p) = record_len f"
    using r by (simp add: length_enc_point)
qed

lemma length_record_bytes:
  "list_all (writable f ts) ps \<Longrightarrow>
   length (concat (map (record_bytes f ts) ps)) = length ps * record_len f"
  by (induction ps) (simp_all add: writes_record(2))

lemma clear_fields:
  assumes "clear h = clear h0"
  shows "h_point_format h = h_point_format h0" "h_transforms h = h_transforms h0"
    "h_version h = h_version h0" "h_evlrs h = h_evlrs h0" "h_vlrs h = h_vlrs h0"
    "h_point_padding h = h_point_padding h0" "h_padding h = h_padding h0"
    "h_vlr_padding h = h_vlr_padding h0" "h_start_of_first_evlr h = h_start_of_first_evlr h0"
  using assms by (cases h; cases h0; simp add: clear_def)+

lemma add_points_append:
  "add_points h (ps @ qs) = and_then (add_points h ps) (\<lambda>h. add_points h qs)"
proof (induction ps arbitrary: h)
  case (Cons p ps)
  then show ?case by (cases "add_point h p") simp_all
qed simp

lemma clear_clear: "clear (clear h) = clear h"
  by (simp add: clear_def)

lemma add_points_clear:
  assumes "add_points (clear h0) ps = Ok h" "length ps < 2 ^ 64"
  shows "counts_points h ps" "clear h = clear h0"
  using add_points_counts [OF counts_points_clear [of h0], of ps] assms by (auto simp: clear_clear)

lemma add_point_next:
  assumes "add_points (clear h0) ps = Ok h" "length ps + 1 < 2 ^ 64"
  shows "\<exists>h'. add_point h p = Ok h' \<and> add_points (clear h0) (ps @ [p]) = Ok h' \<and> clear h' = clear h0"
proof -
  have "length ps < 2 ^ 64" using assms(2) by simp
  note h = add_points_clear [OF assms(1) this]
  from add_point_counts [OF h(1) assms(2), of p] h(2) assms(1) show ?thesis
    by (auto simp: add_points_append)
qed

lemma put_at_end:
  "n = length d \<Longrightarrow> put bs \<lparr>c_data = d, c_pos = n\<rparr> = \<lparr>c_data = d @ bs, c_pos = n + length bs\<rparr>"
  by (simp add: put_def)

section \<open>The uncompressed writer\<close>

definition las_wrote ::
  "('d, 'u) header \<Rightarrow> bytes \<Rightarrow> ('d, 'u) las_writer \<Rightarrow> point list \<Rightarrow> bool" where
  "las_wrote h0 base w ps \<longleftrightarrow>
     (let bs = base @ concat (map (record_bytes (h_point_format h0) (h_transforms h0)) ps) in
      add_points (clear h0) ps = Ok (lw_header w) \<and>
      lw_write w = \<lparr>c_data = bs, c_pos = length bs\<rparr>)"

interpretation las_sink: point_sink las_write_point "las_wrote h0 base"
  "writable (h_point_format h0) (h_transforms h0)" for h0 base
proof
  fix w :: "('a, 'b) las_writer" and ps p
  assume w: "las_wrote h0 base w ps" and p: "writable (h_point_format h0) (h_transforms h0) p"
    and n: "length ps + 1 < 2 ^ 64"
  from w n obtain h where h: "add_point (lw_header w) p = Ok h"
    "add_points (clear h0) (ps @ [p]) = Ok h" "clear h = clear h0"
    using add_point_next [of h0 ps "lw_header w" p] by (auto simp: las_wrote_def Let_def)
  note f = clear_fields [OF h(3)]
  obtain raw where raw: "into_raw p (h_transforms h0) = Ok raw"
    "writes (raw_point_write_to (h_point_format h0) raw)
       (record_bytes (h_point_format h0) (h_transforms h0) p)"
    using writes_record(1) [OF p] by blast
  then have "las_write_point p w = (Ok (), w\<lparr>lw_header := h,
      lw_write := put (record_bytes (h_point_format h0) (h_transforms h0) p) (lw_write w)\<rparr>)"
    using h(1) f(1,2) by (simp add: las_write_point_def io_defs writes_def)
  moreover have "las_wrote h0 base (w\<lparr>lw_header := h,
      lw_write := put (record_bytes (h_point_format h0) (h_transforms h0) p) (lw_write w)\<rparr>) (ps @ [p])"
    using w h(2,3) by (simp add: las_wrote_def Let_def put_at_end)
  ultimately show "\<exists>w'. las_write_point p w = (Ok (), w') \<and> las_wrote h0 base w' (ps @ [p])" by blast
qed

section \<open>The compressed writer\<close>

text \<open>
  What the documentation of \<^verbatim>\<open>laz\<close> promises of a compressor, for a predicate \<open>packs\<close> that says
  which records it has taken after which bytes of the stream: a new one has taken none, it
  takes any record of the size that its laszip record describes, and when it is done, the
  stream ends after the compressed records, from which a decompressor gets them back whatever
  follows.  \<open>sz\<close> is the size of the records that a laszip record describes, zero for one
  that the library does not support.
\<close>

definition compresses ::
  "('v, 'c, 'z) laz \<Rightarrow> ('z \<Rightarrow> bytes list \<Rightarrow> nat \<Rightarrow> bool) \<Rightarrow>
   ('c \<Rightarrow> 'v \<Rightarrow> bytes \<Rightarrow> bytes list \<Rightarrow> bool) \<Rightarrow> ('v \<Rightarrow> nat) \<Rightarrow> bool" where
  "compresses L holds packs sz \<longleftrightarrow>
     (\<forall>d v. 0 < sz v \<longrightarrow>
        (\<exists>c. laz_compressor_new L \<lparr>c_data = d, c_pos = length d\<rparr> v = Ok c \<and> packs c v d [])) \<and>
     (\<forall>c v d recs bs. packs c v d recs \<longrightarrow> length bs = sz v \<longrightarrow> 0 < sz v \<longrightarrow>
        length recs + 1 < 2 ^ 64 \<longrightarrow>
        (\<exists>c'. laz_compress_one L bs c = (Ok (), c') \<and> packs c' v d (recs @ [bs]))) \<and>
     (\<forall>c v d recs. packs c v d recs \<longrightarrow>
        (\<exists>c' body. laz_compressor_done L c = (Ok (), c') \<and>
           laz_compressor_get L c' = \<lparr>c_data = d @ body, c_pos = length (d @ body)\<rparr> \<and>
           (\<forall>pre rest. length pre = length d \<longrightarrow>
              (\<exists>z. laz_decompressor_new L \<lparr>c_data = pre @ body @ rest, c_pos = length pre\<rparr> v = Ok z \<and>
                 holds z recs 0)))) \<and>
     (\<forall>c s. laz_compressor_get L (laz_compressor_set L s c) = s)"

lemma compresses_new:
  assumes "compresses L holds packs sz" "0 < sz v"
  shows "\<exists>c. laz_compressor_new L \<lparr>c_data = d, c_pos = length d\<rparr> v = Ok c \<and> packs c v d []"
  using assms(1) [unfolded compresses_def, THEN conjunct1] assms(2) by blast

lemma compresses_one:
  assumes "compresses L holds packs sz" "packs c v d recs" "length bs = sz v" "0 < sz v"
    and "length recs + 1 < 2 ^ 64"
  shows "\<exists>c'. laz_compress_one L bs c = (Ok (), c') \<and> packs c' v d (recs @ [bs])"
  using assms(1) [unfolded compresses_def, THEN conjunct2, THEN conjunct1] assms(2-5) by blast

lemma compresses_done:
  assumes "compresses L holds packs sz" "packs c v d recs"
  shows "\<exists>c' body. laz_compressor_done L c = (Ok (), c') \<and>
     laz_compressor_get L c' = \<lparr>c_data = d @ body, c_pos = length (d @ body)\<rparr> \<and>
     (\<forall>pre rest. length pre = length d \<longrightarrow>
        (\<exists>z. laz_decompressor_new L \<lparr>c_data = pre @ body @ rest, c_pos = length pre\<rparr> v = Ok z \<and>
           holds z recs 0))"
  using assms(1) [unfolded compresses_def, THEN conjunct2, THEN conjunct2, THEN conjunct1] assms(2) by blast

lemma compresses_set:
  "compresses L holds packs sz \<Longrightarrow> laz_compressor_get L (laz_compressor_set L s c) = s"
  by (simp add: compresses_def)

definition laz_wrote ::
  "('c \<Rightarrow> 'v \<Rightarrow> bytes \<Rightarrow> bytes list \<Rightarrow> bool) \<Rightarrow> 'v \<Rightarrow> ('d, 'u) header \<Rightarrow> bytes \<Rightarrow>
   ('d, 'u, 'c) laz_writer \<Rightarrow> point list \<Rightarrow> bool" where
  "laz_wrote packs v h0 base w ps \<longleftrightarrow>
     add_points (clear h0) ps = Ok (zw_header w) \<and>
     length (c_data (zw_buffer w)) = record_len (h_point_format h0) \<and>
     packs (zw_compressor w) v base (map (record_bytes (h_point_format h0) (h_transforms h0)) ps)"

lemma laz_write_next:
  assumes laws: "compresses L holds packs sz" and sz: "sz v = record_len (h_point_format h0)"
    and w: "laz_wrote packs v h0 base w ps" and p: "writable (h_point_format h0) (h_transforms h0) p"
    and n: "length ps + 1 < 2 ^ 64"
  shows "\<exists>w'. laz_write_point L p w = (Ok (), w') \<and> laz_wrote packs v h0 base w' (ps @ [p])"
proof -
  let ?bs = "record_bytes (h_point_format h0) (h_transforms h0) p"
  from w n obtain h where h: "add_point (zw_header w) p = Ok h"
    "add_points (clear h0) (ps @ [p]) = Ok h" "clear h = clear h0"
    using add_point_next [of h0 ps "zw_header w" p] by (auto simp: laz_wrote_def)
  note f = clear_fields [OF h(3)]
  obtain raw where raw: "into_raw p (h_transforms h0) = Ok raw"
    "writes (raw_point_write_to (h_point_format h0) raw) ?bs"
    using writes_record(1) [OF p] by blast
  have len: "length ?bs = record_len (h_point_format h0)" using writes_record(2) [OF p] .
  let ?b = "put ?bs ((zw_buffer w)\<lparr>c_pos := 0\<rparr>)"
  have "?bs \<noteq> []" using len by (auto simp: record_len_def split: if_splits)
  then have b: "c_data ?b = ?bs" using w len by (simp add: put_def laz_wrote_def)
  obtain c' where c': "laz_compress_one L ?bs (zw_compressor w) = (Ok (), c')"
    "packs c' v base (map (record_bytes (h_point_format h0) (h_transforms h0)) ps @ [?bs])"
    using compresses_one [OF laws, of "zw_compressor w" v base
        "map (record_bytes (h_point_format h0) (h_transforms h0)) ps" ?bs] w len sz n record_len_pos
    by (auto simp: laz_wrote_def)
  have "laz_write_point L p w = (Ok (), w\<lparr>zw_header := h, zw_buffer := ?b, zw_compressor := c'\<rparr>)"
    using h(1) f(1,2) raw c'(1) b by (simp add: laz_write_point_def io_defs writes_def)
  moreover have "laz_wrote packs v h0 base
      (w\<lparr>zw_header := h, zw_buffer := ?b, zw_compressor := c'\<rparr>) (ps @ [p])"
    using h(2,3) c'(2) b len by (simp add: laz_wrote_def)
  ultimately show ?thesis by blast
qed

section \<open>Point writers behind the trait\<close>

definition kind_wrote ::
  "('v, 'c, 'z) laz \<Rightarrow> ('z \<Rightarrow> bytes list \<Rightarrow> nat \<Rightarrow> bool) \<Rightarrow> ('c \<Rightarrow> 'v \<Rightarrow> bytes \<Rightarrow> bytes list \<Rightarrow> bool) \<Rightarrow>
   ('v \<Rightarrow> nat) \<Rightarrow> 'v \<Rightarrow> ('d, 'u) header \<Rightarrow> bytes \<Rightarrow> ('d, 'u, 'c) writer_kind \<Rightarrow> point list \<Rightarrow> bool" where
  "kind_wrote L holds packs sz v h0 base k ps =
     (case k of
        LasWriter w \<Rightarrow> \<not> is_compressed (h_point_format h0) \<and> las_wrote h0 base w ps
      | LazWriter w \<Rightarrow> is_compressed (h_point_format h0) \<and> compresses L holds packs sz \<and> sz v = record_len (h_point_format h0) \<and>
          laz_wrote packs v h0 base w ps
      | ClosedPointWriter \<Rightarrow> False)"

definition writer_wrote ::
  "('v, 'c, 'z) laz \<Rightarrow> ('z \<Rightarrow> bytes list \<Rightarrow> nat \<Rightarrow> bool) \<Rightarrow> ('c \<Rightarrow> 'v \<Rightarrow> bytes \<Rightarrow> bytes list \<Rightarrow> bool) \<Rightarrow>
   ('v \<Rightarrow> nat) \<Rightarrow> 'v \<Rightarrow> u64 \<Rightarrow> ('d, 'u) header \<Rightarrow> bytes \<Rightarrow> ('d, 'u, 'c) file_writer \<Rightarrow> point list \<Rightarrow> bool" where
  "writer_wrote L holds packs sz v start h0 base w ps \<longleftrightarrow>
     \<not> fw_closed w \<and> fw_start w = start \<and>
     kind_wrote L holds packs sz v h0 base (fw_point_writer w) ps"

interpretation kind_sink: point_sink "kind_write_point L" "kind_wrote L holds packs sz v h0 base"
  "writable (h_point_format h0) (h_transforms h0)"
  for L :: "('v, 'c, 'z) laz" and holds packs sz v and h0 :: "('d, 'u) header" and base
proof
  fix k :: "('d, 'u, 'c) writer_kind" and ps p
  assume k: "kind_wrote L holds packs sz v h0 base k ps"
    and p: "writable (h_point_format h0) (h_transforms h0) p" and n: "length ps + 1 < 2 ^ 64"
  show "\<exists>k'. kind_write_point L p k = (Ok (), k') \<and> kind_wrote L holds packs sz v h0 base k' (ps @ [p])"
  proof (cases k)
    case (LasWriter w)
    with k las_sink.write_next [OF _ p n, of base w] show ?thesis
      by (auto simp: kind_wrote_def kind_write_point_def)
  next
    case (LazWriter w)
    with k laz_write_next [OF _ _ _ p n, of L holds packs sz v base w] show ?thesis
      by (auto simp: kind_wrote_def kind_write_point_def)
  qed (use k in \<open>simp add: kind_wrote_def\<close>)
qed

lemma kind_wrote_header:
  "kind_wrote L holds packs sz v h0 base k ps \<Longrightarrow>
   \<exists>h. kind_header k = Ok h \<and> add_points (clear h0) ps = Ok h"
  by (auto simp: kind_wrote_def las_wrote_def laz_wrote_def kind_header_def Let_def
      split: writer_kind.splits)

interpretation writer_sink: point_sink "writer_write_point L"
  "writer_wrote L holds packs sz v start h0 base" "writable (h_point_format h0) (h_transforms h0)"
  for L :: "('v, 'c, 'z) laz" and holds packs sz v start and h0 :: "('d, 'u) header" and base
proof
  fix w :: "('d, 'u, 'c) file_writer" and ps p
  assume w: "writer_wrote L holds packs sz v start h0 base w ps"
    and p: "writable (h_point_format h0) (h_transforms h0) p" and n: "length ps + 1 < 2 ^ 64"
  let ?k = "fw_point_writer w"
  have k: "kind_wrote L holds packs sz v h0 base ?k ps" using w by (simp add: writer_wrote_def)
  obtain h where h: "kind_header ?k = Ok h" "add_points (clear h0) ps = Ok h"
    using kind_wrote_header [OF k] by blast
  have "length ps < 2 ^ 64" using n by simp
  note h' = add_points_clear [OF h(2) this]
  obtain k' where k': "kind_write_point L p ?k = (Ok (), k')"
    "kind_wrote L holds packs sz v h0 base k' (ps @ [p])"
    using kind_sink.write_next [OF k p n] by blast
  have "point_matches p (h_point_format h)"
    using p clear_fields(1) [OF h'(2)] by (simp add: writable_def)
  then have "writer_write_point L p w = (Ok (), w\<lparr>fw_point_writer := k'\<rparr>)"
    using w h(1) k'(1)
    by (simp add: writer_write_point_def writer_wrote_def writer_header_def on_kind_def io_defs)
  with k'(2) w show "\<exists>w'. writer_write_point L p w = (Ok (), w') \<and>
      writer_wrote L holds packs sz v start h0 base w' (ps @ [p])"
    by (auto simp: writer_wrote_def)
qed

section \<open>Closing a writer\<close>

text \<open>The stream behind a point writer and its header.\<close>

definition kind_at ::
  "('v, 'c, 'z) laz \<Rightarrow> ('d, 'u, 'c) writer_kind \<Rightarrow> cursor \<Rightarrow> ('d, 'u) header \<Rightarrow> bool" where
  "kind_at L k c h =
     (case k of
        LasWriter w \<Rightarrow> lw_write w = c \<and> lw_header w = h
      | LazWriter w \<Rightarrow> laz_compressor_get L (zw_compressor w) = c \<and> zw_header w = h \<and>
          (\<forall>z s. laz_compressor_get L (laz_compressor_set L s z) = s)
      | ClosedPointWriter \<Rightarrow> False)"

definition writer_at ::
  "('v, 'c, 'z) laz \<Rightarrow> bool \<Rightarrow> u64 \<Rightarrow> ('d, 'u, 'c) file_writer \<Rightarrow> cursor \<Rightarrow> ('d, 'u) header \<Rightarrow> bool" where
  "writer_at L b s w c h \<longleftrightarrow> fw_closed w = b \<and> fw_start w = s \<and> kind_at L (fw_point_writer w) c h"

lemma step_stream:
  assumes at: "writer_at L b s w c h" and m: "m c = (Ok a, c')"
  obtains w' where "writer_at L b s w' c' h" "on_kind (get_mut L m) w = (Ok a, w')"
proof -
  define w' where "w' = snd (on_kind (get_mut L m) w)"
  have "on_kind (get_mut L m) w = (Ok a, w') \<and> writer_at L b s w' c' h"
    using at m by (cases "fw_point_writer w")
      (auto simp: writer_at_def kind_at_def on_kind_def get_mut_def io_defs w'_def)
  then show thesis using that [of w'] by blast
qed

lemma on_kind_step: "on_kind g w = (Ok a, w') \<Longrightarrow> io_bind (on_kind g) f w = f a w'"
  by (simp add: io_bind_def)

lemma write_evlrs_step: "write_evlrs L rs w = (Ok a, w') \<Longrightarrow> io_bind (write_evlrs L rs) f w = f a w'"
  by (simp add: io_bind_def)

lemma step_header: "writer_at L b s w c h \<Longrightarrow> io_bind writer_header f w = f h w"
  by (cases "fw_point_writer w")
    (auto simp: writer_at_def kind_at_def writer_header_def kind_header_def io_bind_def)

lemma step_header_mut:
  assumes at: "writer_at L b s w c h"
  obtains w' where "writer_at L b s w' c (g h)" "on_kind (kind_header_mut g) w = (Ok (), w')"
proof -
  define w' where "w' = snd (on_kind (kind_header_mut g) w)"
  have "on_kind (kind_header_mut g) w = (Ok (), w') \<and> writer_at L b s w' c (g h)"
    using at by (cases "fw_point_writer w")
      (auto simp: writer_at_def kind_at_def on_kind_def kind_header_mut_def io_defs w'_def)
  then show thesis using that [of w'] by blast
qed

lemma step_evlrs:
  assumes "writer_at L b s w c h" "list_all (vlr_ok True) vs"
  obtains w' where "writer_at L b s w' (put (concat (map (vlr_bytes True) vs)) c) h"
    "write_evlrs L (map (\<lambda>v. vlr_into_raw v True) vs) w = (Ok (), w')"
  using assms
proof (induction vs arbitrary: w c thesis)
  case Nil
  from Nil(1) [of w] Nil(2) show ?case by (simp add: write_evlrs_def io_return_def)
next
  case (Cons v vs)
  obtain raw where raw: "vlr_into_raw v True = Ok raw" using vlr_ok_into_raw Cons.prems(3) by auto
  have "raw_vlr_write_to raw c = (Ok (), put (vlr_bytes True v) c)"
    using writes_vlr [of raw] by (simp add: writes_def vlr_bytes_def raw)
  from step_stream [where m = "raw_vlr_write_to raw", OF Cons.prems(2) this] obtain w1 where
    w1: "writer_at L b s w1 (put (vlr_bytes True v) c) h"
      "on_kind (get_mut L (raw_vlr_write_to raw)) w = (Ok (), w1)" .
  have "list_all (vlr_ok True) vs" using Cons.prems(3) by simp
  from Cons.IH [OF _ w1(1) this] obtain w2 where
    w2: "writer_at L b s w2 (put (concat (map (vlr_bytes True) vs)) (put (vlr_bytes True v) c)) h"
      "write_evlrs L (map (\<lambda>v. vlr_into_raw v True) vs) w1 = (Ok (), w2)" by blast
  have "write_evlrs L (map (\<lambda>v. vlr_into_raw v True) (v # vs)) w = (Ok (), w2)"
    using w2(2) by (simp add: write_evlrs_def raw on_kind_step [OF w1(2)])
  with Cons.prems(1) [of w2] w2(1) show ?case by (simp add: put_put)
qed

text \<open>The end of \<^verbatim>\<open>Writer::close\<close>, from the conversion of the header on.\<close>

definition rewrite_header ::
  "('v, 'c, 'z) laz \<Rightarrow> u64 \<Rightarrow> raw_header outcome \<Rightarrow> (('d, 'u, 'c) file_writer, unit) io" where
  "rewrite_header L s r =
     io_bind (io_lift r) (\<lambda>raw.
     io_bind (on_kind (get_mut L (raw_header_write_to raw))) (\<lambda>_.
     io_bind (on_kind (get_mut L (seek_start (unat s)))) (\<lambda>_.
     io_modify (\<lambda>w. w\<lparr>fw_closed := True\<rparr>))))"

lemma writer_close_steps:
  assumes at: "writer_at L False s w c h"
    and fin: "on_kind (kind_done L) w0 = (Ok (), w)" "fw_closed w0 = False" "fw_start w0 = s"
    and evlrs: "list_all (vlr_ok True) (h_evlrs h)"
  defines "h1 \<equiv> set_start_of_first_evlr h (word_of_nat (c_pos c + length (h_point_padding h)))"
  shows "\<exists>w'. writer_close E L w0 = rewrite_header L s (header_into_raw E h1) w' \<and>
     writer_at L False s w'
       ((put (h_point_padding h @ concat (map (vlr_bytes True) (h_evlrs h))) c)\<lparr>c_pos := unat s\<rparr>) h1"
proof -
  let ?p = "put (h_point_padding h) c"
  have "write_all (h_point_padding h) c = (Ok (), ?p)" by (simp add: write_all_def)
  from step_stream [where m = "write_all (h_point_padding h)", OF at this] obtain w1
    where w1: "writer_at L False s w1 ?p h"
      "on_kind (get_mut L (write_all (h_point_padding h))) w = (Ok (), w1)" .
  have "stream_position ?p = (Ok (c_pos c + length (h_point_padding h)), ?p)"
    by (simp add: stream_position_def c_pos_put)
  from step_stream [where m = "stream_position", OF w1(1) this] obtain w2
    where w2: "writer_at L False s w2 ?p h"
      "on_kind (get_mut L stream_position) w1 = (Ok (c_pos c + length (h_point_padding h)), w2)" .
  from step_header_mut [OF w2(1), of "\<lambda>g. set_start_of_first_evlr g
      (word_of_nat (c_pos c + length (h_point_padding h)))"] obtain w3
    where w3: "writer_at L False s w3 ?p h1"
      "on_kind (kind_header_mut (\<lambda>g. set_start_of_first_evlr g
        (word_of_nat (c_pos c + length (h_point_padding h))))) w2 = (Ok (), w3)"
    unfolding h1_def by blast
  have ev: "h_evlrs h1 = h_evlrs h" by (simp add: h1_def set_start_of_first_evlr_def)
  from step_evlrs [OF w3(1), of "h_evlrs h"] evlrs obtain w4 where
    w4: "writer_at L False s w4 (put (concat (map (vlr_bytes True) (h_evlrs h))) ?p) h1"
      "write_evlrs L (map (\<lambda>v. vlr_into_raw v True) (h_evlrs h)) w3 = (Ok (), w4)" by blast
  let ?q = "put (h_point_padding h @ concat (map (vlr_bytes True) (h_evlrs h))) c"
  have "seek_start (unat s) (put (concat (map (vlr_bytes True) (h_evlrs h))) ?p) = (Ok (), ?q\<lparr>c_pos := unat s\<rparr>)"
    by (simp add: seek_start_def put_put)
  from step_stream [where m = "seek_start (unat s)", OF w4(1) this] obtain w5
    where w5: "writer_at L False s w5 (?q\<lparr>c_pos := unat s\<rparr>) h1"
      "on_kind (get_mut L (seek_start (unat s))) w4 = (Ok (), w5)" .
  have "writer_close E L w0 = rewrite_header L s (header_into_raw E h1) w5"
    unfolding writer_close_def io_bind_get fin(2,3) if_False on_kind_step [OF fin(1)]
      step_header [OF at] on_kind_step [OF w1(2)] on_kind_step [OF w2(2)] on_kind_step [OF w3(2)]
      step_header [OF w3(1)] ev write_evlrs_step [OF w4(2)] on_kind_step [OF w5(2)]
      step_header [OF w5(1)] rewrite_header_def ..
  with w5(1) show ?thesis by blast
qed

lemma rewrite_header_Ok:
  assumes at: "writer_at L False s w c h"
  shows "\<exists>w'. rewrite_header L s (Ok raw) w = (Ok (), w') \<and>
     writer_at L True s w' ((put (enc_header raw) c)\<lparr>c_pos := unat s\<rparr>) h"
proof -
  let ?e = "put (enc_header raw) c"
  have "raw_header_write_to raw c = (Ok (), ?e)" using writes_header [of raw] by (simp add: writes_def)
  from step_stream [where m = "raw_header_write_to raw", OF at this] obtain w6
    where w6: "writer_at L False s w6 ?e h"
      "on_kind (get_mut L (raw_header_write_to raw)) w = (Ok (), w6)" .
  have "seek_start (unat s) ?e = (Ok (), ?e\<lparr>c_pos := unat s\<rparr>)" by (simp add: seek_start_def)
  from step_stream [where m = "seek_start (unat s)", OF w6(1) this] obtain w7
    where w7: "writer_at L False s w7 (?e\<lparr>c_pos := unat s\<rparr>) h"
      "on_kind (get_mut L (seek_start (unat s))) w6 = (Ok (), w7)" .
  have "rewrite_header L s (Ok raw) w = (Ok (), w7\<lparr>fw_closed := True\<rparr>)"
    unfolding rewrite_header_def io_bind_lift on_kind_step [OF w6(2)] on_kind_step [OF w7(2)]
    by (simp add: io_modify_def)
  moreover have "writer_at L True s (w7\<lparr>fw_closed := True\<rparr>) (?e\<lparr>c_pos := unat s\<rparr>) h"
    using w7(1) by (simp add: writer_at_def)
  ultimately show ?thesis by blast
qed

lemma rewrite_header_Err: "rewrite_header L s (Err e) w = (Err e, w)"
  by (simp add: rewrite_header_def io_bind_def io_lift_def)

lemma writer_close_at:
  assumes at: "writer_at L False s w c h"
    and fin: "on_kind (kind_done L) w0 = (Ok (), w)" "fw_closed w0 = False" "fw_start w0 = s"
    and evlrs: "list_all (vlr_ok True) (h_evlrs h)"
    and raw: "header_into_raw E
      (set_start_of_first_evlr h (word_of_nat (c_pos c + length (h_point_padding h)))) = Ok raw"
  shows "\<exists>w'. writer_close E L w0 = (Ok (), w') \<and>
     writer_at L True s w' ((put (enc_header raw)
        ((put (h_point_padding h @ concat (map (vlr_bytes True) (h_evlrs h))) c)\<lparr>c_pos := unat s\<rparr>))
        \<lparr>c_pos := unat s\<rparr>) (set_start_of_first_evlr h (word_of_nat (c_pos c + length (h_point_padding h))))"
  using writer_close_steps [OF at fin evlrs, of E] rewrite_header_Ok [of L s _ _ _ raw] raw by fastforce

text \<open>The bytes that the point writer leaves between the header and the padding.\<close>

definition packed ::
  "('v, 'c, 'z) laz \<Rightarrow> ('z \<Rightarrow> bytes list \<Rightarrow> nat \<Rightarrow> bool) \<Rightarrow> 'v \<Rightarrow> ('d, 'u) header \<Rightarrow> nat \<Rightarrow> bytes \<Rightarrow>
   point list \<Rightarrow> bool" where
  "packed L holds v h n body ps \<longleftrightarrow>
     (let recs = map (record_bytes (h_point_format h) (h_transforms h)) ps in
      if is_compressed (h_point_format h)
      then \<forall>pre rest. length pre = n \<longrightarrow>
        (\<exists>z. laz_decompressor_new L \<lparr>c_data = pre @ body @ rest, c_pos = length pre\<rparr> v = Ok z \<and>
           holds z recs 0)
      else body = concat recs)"

lemma writer_done:
  assumes "writer_wrote L holds packs sz v s h0 base w ps"
  shows "\<exists>w' body h. on_kind (kind_done L) w = (Ok (), w') \<and>
     writer_at L False s w' \<lparr>c_data = base @ body, c_pos = length (base @ body)\<rparr> h \<and>
     add_points (clear h0) ps = Ok h \<and> packed L holds v h0 (length base) body ps"
proof (cases "fw_point_writer w")
  case (LasWriter x)
  then show ?thesis
    using assms by (intro exI [of _ w])
      (auto simp: writer_wrote_def kind_wrote_def las_wrote_def Let_def on_kind_def kind_done_def io_zoom_def
        writer_at_def kind_at_def packed_def)
next
  case (LazWriter x)
  then have x: "compresses L holds packs sz" "is_compressed (h_point_format h0)"
    "laz_wrote packs v h0 base x ps"
    using assms by (auto simp: writer_wrote_def kind_wrote_def)
  then have "packs (zw_compressor x) v base (map (record_bytes (h_point_format h0) (h_transforms h0)) ps)"
    by (simp add: laz_wrote_def)
  from compresses_done [OF x(1) this] obtain c' body where
    c': "laz_compressor_done L (zw_compressor x) = (Ok (), c')"
    "laz_compressor_get L c' = \<lparr>c_data = base @ body, c_pos = length (base @ body)\<rparr>"
    "packed L holds v h0 (length base) body ps"
    using x(2) by (auto simp: packed_def)
  let ?w = "w\<lparr>fw_point_writer := LazWriter (x\<lparr>zw_compressor := c'\<rparr>)\<rparr>"
  have "on_kind (kind_done L) w = (Ok (), ?w)"
    using LazWriter c'(1) by (simp add: on_kind_def kind_done_def io_zoom_def)
  moreover have "writer_at L False s ?w \<lparr>c_data = base @ body, c_pos = length (base @ body)\<rparr> (zw_header x)"
    using assms c'(2) compresses_set [OF x(1)] by (simp add: writer_at_def writer_wrote_def kind_at_def)
  moreover have "add_points (clear h0) ps = Ok (zw_header x)" using x(3) by (simp add: laz_wrote_def)
  ultimately show ?thesis using c'(3) by blast
next
  case ClosedPointWriter
  then show ?thesis using assms by (simp add: writer_wrote_def kind_wrote_def)
qed

end
