(* ===== verification/Whole_File.thy ===== *)
theory Whole_File
  imports Reader_Properties Writer_Contract
begin

text \<open>
  Readers and writers together: a file that a writer has written and closed is read back, with
  or without compression.
\<close>

section \<open>Points through a file\<close>

definition storable :: "format \<Rightarrow> transform vector \<Rightarrow> point \<Rightarrow> bool" where
  "storable f ts p \<longleftrightarrow>
     writable f ts p \<and> valid_classification (pt_classification p)"

definition through_file :: "format \<Rightarrow> transform vector \<Rightarrow> point \<Rightarrow> point" where
  "through_file f ts p =
     (case into_raw p ts of
        Ok raw \<Rightarrow> quantised f ts raw (if is_extended f then p else legacy_flags p)
      | _ \<Rightarrow> p)"

lemma record_of_written:
  assumes p: "storable f ts p" and f: "\<not> (has_nir f \<and> has_waveform f)"
  shows "record_of f ts (record_bytes f ts p) (through_file f ts p)"
proof -
  have w: "writable f ts p" and v: "valid_classification (pt_classification p)"
    using p by (auto simp: storable_def)
  obtain raw g where r: "into_raw p ts = Ok raw" "stored_flags f (rp_flags raw) = Ok g"
    "length (rp_extra_bytes raw) = unat (extra_bytes f)" "record_bytes f ts p = enc_point f raw g"
    using writable_record [OF w] .
  have m: "point_matches p f" using w by (simp add: writable_def)
  have "point_new (stored f raw g) ts = Ok (through_file f ts p)"
  proof (cases "is_extended f")
    case True
    then have "g = rp_flags raw"
      using r(2) into_raw_fields(4) [OF r(1), symmetric]
      by (auto simp: stored_flags_def point_flags_def split: if_splits)
    then show ?thesis using True point_through_extended [OF r(1) m v] r(1) by (simp add: through_file_def)
  next
    case False
    then obtain x y where "to_two_bytes (rp_flags raw) = Ok (x, y)" "g = TwoByte x y"
      using r(2) by (auto simp: stored_flags_def)
    then show ?thesis using False point_through_legacy [OF r(1) m v] r(1) by (simp add: through_file_def)
  qed
  moreover have "length (enc_point f raw g) = record_len f" using r(2,3) by (rule length_enc_point)
  moreover have "reads (raw_point_read_from f) (enc_point f raw g) (stored f raw g)"
    using r(2,3) f by (rule reads_raw_point)
  ultimately show ?thesis unfolding record_of_def r(4) by blast
qed

lemma storable_records:
  assumes "list_all (storable f ts) ps" "\<not> (has_nir f \<and> has_waveform f)"
  shows "list_all2 (record_of f ts) (map (record_bytes f ts) ps) (map (through_file f ts) ps)"
  using assms record_of_written by (simp add: list_all2_conv_all_nth list_all_length)

section \<open>A new writer\<close>

text \<open>
  The header that a new writer writes, and, for a compressed format, what the compression
  library provides for it.
\<close>

definition writer_start ::
  "('d, 'u) env \<Rightarrow> ('v, 'c, 'z) laz \<Rightarrow> ('z \<Rightarrow> bytes list \<Rightarrow> nat \<Rightarrow> bool) \<Rightarrow>
   ('c \<Rightarrow> 'v \<Rightarrow> bytes \<Rightarrow> bytes list \<Rightarrow> bool) \<Rightarrow> ('v \<Rightarrow> nat) \<Rightarrow> 'v \<Rightarrow> ('d, 'u) header \<Rightarrow>
   ('d, 'u) header \<Rightarrow> bool" where
  "writer_start E L holds packs sz v h h0 \<longleftrightarrow>
     (if is_compressed (h_point_format h)
      then env_laz E \<and> decompresses L holds \<and> compresses L holds packs sz \<and>
        add_laz_vlr L (clear h) = Ok h0 \<and> laz_vlr L h0 = Ok v \<and> sz v = record_len (h_point_format h)
      else h0 = clear h)"

lemma writer_start_fields:
  assumes "writer_start E L holds packs sz v h h0"
  shows "h_point_format h0 = h_point_format h" "h_transforms h0 = h_transforms h" "clear h0 = h0"
    "h_evlrs h0 = h_evlrs h" "h_start_of_first_evlr h0 = h_start_of_first_evlr h"
  using assms by (auto simp: writer_start_def add_laz_vlr_def clear_def split: if_splits prod.splits)

lemma writer_new_wrote:
  assumes s: "writer_start E L holds packs sz v h h0" and raw: "header_into_raw E h0 = Ok raw"
    and ok: "vlrs_ok h0"
  shows "\<exists>w. writer_new E L \<lparr>c_data = d, c_pos = length d\<rparr> h = Ok w \<and>
     writer_wrote L holds packs sz v (word_of_nat (length d)) h0 (d @ header_bytes raw h0) w []"
proof -
  let ?c = "\<lparr>c_data = d, c_pos = length d\<rparr>" and ?b = "d @ header_bytes raw h0"
  note f = writer_start_fields [OF s]
  have wr: "header_write_to E h0 ?c = (Ok (), \<lparr>c_data = ?b, c_pos = length ?b\<rparr>)"
    using writes_las_header [OF raw ok] by (simp add: writes_def put_at_end)
  show ?thesis
  proof (cases "is_compressed (h_point_format h)")
    case False
    then have "h0 = clear h" using s by (simp add: writer_start_def)
    moreover have "\<not> is_compressed (h_point_format (clear h))" using False by (simp add: clear_def)
    ultimately show ?thesis
      using wr False by (auto simp: writer_new_def stream_position_def Let_def writer_wrote_def kind_wrote_def
          las_wrote_def las_writer_new_def clear_clear)
  next
    case True
    then have laws: "env_laz E" "compresses L holds packs sz" "add_laz_vlr L (clear h) = Ok h0"
      "laz_vlr L h0 = Ok v" "sz v = record_len (h_point_format h)"
      using s by (auto simp: writer_start_def)
    obtain len where len: "format_len (h_point_format h0) = Ok len" "unat len = record_len (h_point_format h0)"
      using header_into_raw_fields(12) [OF raw] format_len_OkD by blast
    obtain c where c: "laz_compressor_new L \<lparr>c_data = ?b, c_pos = length ?b\<rparr> v = Ok c" "packs c v ?b []"
      using compresses_new [OF laws(2), of v ?b] laws(5) record_len_pos [of "h_point_format h"] by auto
    have "is_compressed (h_point_format (clear h))" using True by (simp add: clear_def)
    then show ?thesis
      using laws wr len c f
      by (simp add: writer_new_def stream_position_def Let_def writer_wrote_def kind_wrote_def True
          laz_writer_new_def laz_wrote_def)
  qed
qed

section \<open>The closed file\<close>

text \<open>The start of the extended records is the only field that closing changes.\<close>

lemma start_simps:
  "system_identifier_raw (set_start_of_first_evlr h n) = system_identifier_raw h"
  "generating_software_raw (set_start_of_first_evlr h n) = generating_software_raw h"
  "header_size (set_start_of_first_evlr h n) = header_size h"
  "offset_to_point_data (set_start_of_first_evlr h n) = offset_to_point_data h"
  "number_of_variable_length_records (set_start_of_first_evlr h n) = number_of_variable_length_records h"
  "number_of_points_raw (set_start_of_first_evlr h n) = number_of_points_raw h"
  "number_of_points_by_return_raw (set_start_of_first_evlr h n) = number_of_points_by_return_raw h"
  "header_large_file (set_start_of_first_evlr h n) = header_large_file h"
  "global_encoding (set_start_of_first_evlr h n) = global_encoding h"
  by (simp_all add: set_start_of_first_evlr_def system_identifier_raw_def generating_software_raw_def
      header_size_def offset_to_point_data_def number_of_variable_length_records_def number_of_points_raw_def
      number_of_points_by_return_raw_def header_large_file_def global_encoding_def)

lemma set_start_fields:
  "h_bounds (set_start_of_first_evlr h n) = h_bounds h" "h_date (set_start_of_first_evlr h n) = h_date h"
  "h_evlrs (set_start_of_first_evlr h n) = h_evlrs h"
  "h_file_source_id (set_start_of_first_evlr h n) = h_file_source_id h"
  "h_guid (set_start_of_first_evlr h n) = h_guid h" "h_padding (set_start_of_first_evlr h n) = h_padding h"
  "h_point_format (set_start_of_first_evlr h n) = h_point_format h"
  "h_transforms (set_start_of_first_evlr h n) = h_transforms h"
  "h_version (set_start_of_first_evlr h n) = h_version h" "h_vlrs (set_start_of_first_evlr h n) = h_vlrs h"
  "h_vlr_padding (set_start_of_first_evlr h n) = h_vlr_padding h"
  "h_point_padding (set_start_of_first_evlr h n) = h_point_padding h"
  "h_number_of_points (set_start_of_first_evlr h n) = h_number_of_points h"
  "h_start_of_first_evlr (set_start_of_first_evlr h n) = Some n"
  by (simp_all add: set_start_of_first_evlr_def)

lemma header_into_raw_start:
  assumes "header_into_raw E h = Ok raw"
  shows "\<exists>raw'. header_into_raw E (set_start_of_first_evlr h n) = Ok raw' \<and>
     rh_offset_to_point_data raw' = rh_offset_to_point_data raw \<and>
     (case rh_evlr raw' of Some e \<Rightarrow> start_of_first_evlr e = n | None \<Rightarrow> True)"
proof -
  have "\<exists>x. header_evlr (set_start_of_first_evlr h n) = Ok x \<and>
      (case x of Some e \<Rightarrow> start_of_first_evlr e = n | None \<Rightarrow> True)"
    using header_into_raw_fields(15) [OF assms]
    by (auto simp: header_evlr_def Let_def set_start_fields split: if_splits)
  then show ?thesis
    using assms unfolding header_into_raw_def start_simps set_start_fields by auto
qed

lemma writer_closed:
  assumes w: "writer_wrote L holds packs sz v s h0 base w ps" and n: "length ps < 2 ^ 64"
    and h: "add_points (clear h0) ps = Ok h" and raw: "header_into_raw E h = Ok raw0"
    and evlrs: "list_all (vlr_ok True) (h_evlrs h0)"
  shows "\<exists>body h1 raw. packed L holds v h0 (length base) body ps \<and>
     h1 = set_start_of_first_evlr h (word_of_nat (length (base @ body) + length (h_point_padding h0))) \<and>
     header_into_raw E h1 = Ok raw \<and> rh_offset_to_point_data raw = rh_offset_to_point_data raw0 \<and>
     (case rh_evlr raw of
        Some e \<Rightarrow> start_of_first_evlr e = word_of_nat (length (base @ body) + length (h_point_padding h0))
      | None \<Rightarrow> True) \<and>
     writer_into_inner E L w = Ok ((put (enc_header raw)
       \<lparr>c_data = base @ body @ h_point_padding h0 @ concat (map (vlr_bytes True) (h_evlrs h0)),
        c_pos = unat s\<rparr>)\<lparr>c_pos := unat s\<rparr>)"
proof -
  from writer_done [OF w] h obtain w1 body where w1: "on_kind (kind_done L) w = (Ok (), w1)"
    "writer_at L False s w1 \<lparr>c_data = base @ body, c_pos = length (base @ body)\<rparr> h"
    and body: "packed L holds v h0 (length base) body ps" by auto
  note f = clear_fields [OF add_points_clear(2) [OF h n]]
  let ?n = "word_of_nat (length (base @ body) + length (h_point_padding h0)) :: u64"
  from header_into_raw_start [OF raw, of ?n] obtain raw1 where
    raw1: "header_into_raw E (set_start_of_first_evlr h ?n) = Ok raw1"
      "rh_offset_to_point_data raw1 = rh_offset_to_point_data raw0"
      "case rh_evlr raw1 of Some e \<Rightarrow> start_of_first_evlr e = ?n | None \<Rightarrow> True" by blast
  have open': "fw_closed w = False" "fw_start w = s" using w by (auto simp: writer_wrote_def)
  from writer_close_at [OF w1(2,1) open', of E raw1] evlrs raw1(1) f obtain w2 where
    w2: "writer_close E L w = (Ok (), w2)"
    "writer_at L True s w2 ((put (enc_header raw1)
       \<lparr>c_data = base @ body @ h_point_padding h0 @ concat (map (vlr_bytes True) (h_evlrs h0)),
        c_pos = unat s\<rparr>)\<lparr>c_pos := unat s\<rparr>) (set_start_of_first_evlr h ?n)"
    by (auto simp: put_at_end)
  from w2(2) have inner: "kind_into_inner L (fw_point_writer w2) = Ok ((put (enc_header raw1)
       \<lparr>c_data = base @ body @ h_point_padding h0 @ concat (map (vlr_bytes True) (h_evlrs h0)),
        c_pos = unat s\<rparr>)\<lparr>c_pos := unat s\<rparr>)" "fw_start w2 = s"
    by (auto simp: writer_at_def kind_at_def kind_into_inner_def split: writer_kind.splits)
  have "writer_into_inner E L w = Ok ((put (enc_header raw1)
       \<lparr>c_data = base @ body @ h_point_padding h0 @ concat (map (vlr_bytes True) (h_evlrs h0)),
        c_pos = unat s\<rparr>)\<lparr>c_pos := unat s\<rparr>)"
    using open' w2(1) inner by (simp add: writer_into_inner_def seek_start_def)
  with body raw1 show ?thesis by blast
qed

lemma length_put: "length (c_data c) \<le> length (c_data (put bs c))"
  by (auto simp: put_def min_def)

lemma put_over:
  "length a = length b \<Longrightarrow> put a \<lparr>c_data = d @ b @ r, c_pos = length d\<rparr>
     = \<lparr>c_data = d @ a @ r, c_pos = length d + length a\<rparr>"
  by (auto simp: put_def)

lemma header_ok_fields:
  assumes "header_ok E h0" "clear h = clear h0"
  shows "header_ok E (set_start_of_first_evlr h n)"
proof -
  have f: "clear h = clear h0 \<Longrightarrow> h_file_source_id h = h_file_source_id h0 \<and>
    h_has_synthetic_return_numbers h = h_has_synthetic_return_numbers h0 \<and>
    h_gps_time_type h = h_gps_time_type h0 \<and> h_has_wkt_crs h = h_has_wkt_crs h0 \<and>
    h_system_identifier h = h_system_identifier h0 \<and>
    h_generating_software h = h_generating_software h0 \<and> h_date h = h_date h0"
    by (cases h; cases h0) (simp add: clear_def)
  show ?thesis
    using assms f clear_fields [OF assms(2)]
    by (auto simp: header_ok_def header_inv_def header_text_ok_def vlrs_ok_def set_start_of_first_evlr_def)
qed

text \<open>
  The file stays below 2 to the 64 bytes: for uncompressed points, whose number decides it, and
  for compressed ones.
\<close>

definition file_fits :: "raw_header \<Rightarrow> ('d, 'u) header \<Rightarrow> point list \<Rightarrow> cursor \<Rightarrow> bool" where
  "file_fits raw0 h0 ps c \<longleftrightarrow>
     (if is_compressed (h_point_format h0) then length (c_data c) < 2 ^ 64
      else length (header_bytes raw0 h0) + length ps * record_len (h_point_format h0)
        + length (h_point_padding h0) + length (concat (map (vlr_bytes True) (h_evlrs h0))) < 2 ^ 64)"

lemma file_fits_total:
  assumes "file_fits raw0 h0 ps c" "packed L holds v h0 n body ps"
    and "list_all (writable (h_point_format h0) (h_transforms h0)) ps"
    and "length (header_bytes raw0 h0 @ body @ h_point_padding h0 @ concat (map (vlr_bytes True) (h_evlrs h0)))
      \<le> length (c_data c)"
  shows "length (header_bytes raw0 h0 @ body) + length (h_point_padding h0) < 2 ^ 64"
  using assms length_record_bytes [OF assms(3)] by (auto simp: file_fits_def packed_def Let_def split: if_splits)

text \<open>The file of a closed writer, behind the data that was there when it started.\<close>

lemma writer_layout_behind:
  assumes s: "writer_start E L holds packs sz v g h0" and raw0: "header_into_raw E h0 = Ok raw0"
    and ok: "header_ok E h0" and st: "h_start_of_first_evlr h0 \<noteq> Some 0"
    and w: "writer_wrote L holds packs sz v (word_of_nat (length d)) h0 (d @ header_bytes raw0 h0) w ps"
    and d: "length d < 2 ^ 64" and n: "length ps < 2 ^ 64"
    and h: "add_points h0 ps = Ok h" and rawn: "header_into_raw E h = Ok rawn"
  shows "\<exists>c body h1 raw. writer_into_inner E L w = Ok c \<and>
     packed L holds v h0 (length (d @ header_bytes raw0 h0)) body ps \<and>
     h1 = set_start_of_first_evlr h
       (word_of_nat (length (d @ header_bytes raw0 h0 @ body) + length (h_point_padding h0))) \<and>
     length (d @ header_bytes raw0 h0 @ body @ h_point_padding h0
       @ concat (map (vlr_bytes True) (h_evlrs h0))) \<le> length (c_data c) \<and>
     (length (d @ header_bytes raw0 h0 @ body) + length (h_point_padding h0) < 2 ^ 64 \<longrightarrow>
        header_into_raw E h1 = Ok raw \<and> length (header_bytes raw h1) = length (header_bytes raw0 h0) \<and>
        h_start_of_first_evlr h1 \<noteq> Some 0 \<and>
        (case rh_evlr raw of
           Some e \<Rightarrow> unat (start_of_first_evlr e)
             = length (d @ header_bytes raw0 h0 @ body) + length (h_point_padding h0)
         | None \<Rightarrow> True) \<and>
        c = \<lparr>c_data = d @ file_layout raw h1 body [], c_pos = length d\<rparr>)"
proof -
  let ?base = "header_bytes raw0 h0"
  have ok0: "header_inv h0" "uuid_laws E" "vlrs_ok h0" using ok by (auto simp: header_ok_def)
  have "add_points (clear h0) ps = Ok h" using h writer_start_fields(3) [OF s] by simp
  note cl = add_points_clear(2) [OF this n] and f = clear_fields [OF add_points_clear(2) [OF this n]]
  have "list_all (vlr_ok True) (h_evlrs h0)" using ok0(3) by (simp add: vlrs_ok_def)
  note closed = writer_closed [OF w n \<open>add_points (clear h0) ps = Ok h\<close> rawn this]
  have "unat (word_of_nat (length d) :: u64) = length d" using d by (intro unat_of_nat_eq) simp
  from closed [unfolded this append_assoc] obtain body h1 raw where b: "packed L holds v h0 (length (d @ ?base)) body ps"
    "h1 = set_start_of_first_evlr h (word_of_nat (length (d @ ?base @ body) + length (h_point_padding h0)))"
    and raw: "header_into_raw E h1 = Ok raw"
    and ev: "case rh_evlr raw of
        Some e \<Rightarrow> start_of_first_evlr e = word_of_nat (length (d @ ?base @ body) + length (h_point_padding h0))
      | None \<Rightarrow> True"
    and inner: "writer_into_inner E L w = Ok ((put (enc_header raw)
       \<lparr>c_data = d @ ?base @ body @ h_point_padding h0 @ concat (map (vlr_bytes True) (h_evlrs h0)),
        c_pos = length d\<rparr>)\<lparr>c_pos := length d\<rparr>)" (is "_ = Ok (?put\<lparr>c_pos := length d\<rparr>)")
    by blast
  let ?n = "length (d @ ?base @ body) + length (h_point_padding h0)"
  have "length (header_bytes raw h1) = length ?base \<and> h_start_of_first_evlr h1 \<noteq> Some 0 \<and>
      (case rh_evlr raw of Some e \<Rightarrow> unat (start_of_first_evlr e) = ?n | None \<Rightarrow> True) \<and>
      ?put\<lparr>c_pos := length d\<rparr> = \<lparr>c_data = d @ file_layout raw h1 body [], c_pos = length d\<rparr>"
    if fits: "?n < 2 ^ 64"
  proof -
    have un: "unat (word_of_nat ?n :: u64) = ?n" using fits by (intro unat_of_nat_eq) simp
    note len0 = length_header_bytes [OF raw0 ok0(1,2) st ok0(3)]
    have hs: "header_size h1 = header_size h0"
      using f by (simp add: b(2) header_size_def set_start_fields)
    have "0 < length ?base" using len0 offset_to_point_data_Ok [OF header_into_raw_fields(9) [OF raw0]]
        version_header_size_pos [of "h_version h0"] by linarith
    then have st1: "h_start_of_first_evlr h1 \<noteq> Some 0"
      using un by (auto simp: b(2) set_start_fields)
    have ok1: "header_inv h1" "vlrs_ok h1"
      using header_ok_fields [OF ok cl] by (auto simp: b(2) header_ok_def)
    note len1 = length_header_bytes [OF raw ok1(1) ok0(2) st1 ok1(2)]
    have eq: "length (enc_header raw) = length (enc_header raw0)"
      using len0(1) len1(1) hs header_into_raw_fields(8) [OF raw] header_into_raw_fields(8) [OF raw0] by simp
    have same: "h_vlrs h1 = h_vlrs h0" "h_vlr_padding h1 = h_vlr_padding h0" "h_evlrs h1 = h_evlrs h0"
      "h_point_padding h1 = h_point_padding h0"
      using f by (simp_all add: b(2) set_start_fields)
    have "length (header_bytes raw h1) = length ?base" using eq by (simp add: header_bytes_def same)
    moreover have "?put\<lparr>c_pos := length d\<rparr> = \<lparr>c_data = d @ file_layout raw h1 body [], c_pos = length d\<rparr>"
      using put_over [OF eq, of d "concat (map (vlr_bytes False) (h_vlrs h0)) @ h_vlr_padding h0 @ body @
          h_point_padding h0 @ concat (map (vlr_bytes True) (h_evlrs h0))"]
      by (simp add: header_bytes_def file_layout_def same)
    ultimately show ?thesis using st1 ev un by (auto split: option.splits)
  qed
  moreover have "length (d @ ?base @ body @ h_point_padding h0 @ concat (map (vlr_bytes True) (h_evlrs h0)))
      \<le> length (c_data (?put\<lparr>c_pos := length d\<rparr>))"
    using length_put [of "\<lparr>c_data = d @ ?base @ body @ h_point_padding h0 @ concat (map (vlr_bytes True)
        (h_evlrs h0)), c_pos = length d\<rparr>" "enc_header raw"] by simp
  ultimately show ?thesis using b inner raw by blast
qed

text \<open>The file of a closed writer that started at the beginning of its stream.\<close>

lemma writer_layout:
  assumes s: "writer_start E L holds packs sz v g h0" and raw0: "header_into_raw E h0 = Ok raw0"
    and ok: "header_ok E h0" and st: "h_start_of_first_evlr h0 \<noteq> Some 0"
    and w: "writer_wrote L holds packs sz v 0 h0 (header_bytes raw0 h0) w ps" and n: "length ps < 2 ^ 64"
    and wr: "list_all (writable (h_point_format h0) (h_transforms h0)) ps"
    and h: "add_points h0 ps = Ok h" and rawn: "header_into_raw E h = Ok rawn"
  shows "\<exists>c body h1 raw. writer_into_inner E L w = Ok c \<and>
     packed L holds v h0 (length (header_bytes raw0 h0)) body ps \<and>
     h1 = set_start_of_first_evlr h
       (word_of_nat (length (header_bytes raw0 h0 @ body) + length (h_point_padding h0))) \<and>
     (file_fits raw0 h0 ps c \<longrightarrow>
        header_into_raw E h1 = Ok raw \<and> length (header_bytes raw h1) = length (header_bytes raw0 h0) \<and>
        h_start_of_first_evlr h1 \<noteq> Some 0 \<and>
        (case rh_evlr raw of
           Some e \<Rightarrow> unat (start_of_first_evlr e)
             = length (header_bytes raw0 h0 @ body) + length (h_point_padding h0)
         | None \<Rightarrow> True) \<and>
        c = \<lparr>c_data = file_layout raw h1 body [], c_pos = 0\<rparr>)"
proof -
  have "writer_wrote L holds packs sz v (word_of_nat (length ([] :: bytes))) h0
      ([] @ header_bytes raw0 h0) w ps" "length ([] :: bytes) < 2 ^ 64"
    using w by simp_all
  from writer_layout_behind [OF s raw0 ok st this n h rawn, unfolded append_Nil list.size(3)]
  obtain c body h1 raw where c: "writer_into_inner E L w = Ok c"
    and body: "packed L holds v h0 (length (header_bytes raw0 h0)) body ps"
    and h1: "h1 = set_start_of_first_evlr h
       (word_of_nat (length (header_bytes raw0 h0 @ body) + length (h_point_padding h0)))"
    and len: "length (header_bytes raw0 h0 @ body @ h_point_padding h0
       @ concat (map (vlr_bytes True) (h_evlrs h0))) \<le> length (c_data c)"
    and small: "length (header_bytes raw0 h0 @ body) + length (h_point_padding h0) < 2 ^ 64 \<longrightarrow>
        header_into_raw E h1 = Ok raw \<and> length (header_bytes raw h1) = length (header_bytes raw0 h0) \<and>
        h_start_of_first_evlr h1 \<noteq> Some 0 \<and>
        (case rh_evlr raw of
           Some e \<Rightarrow> unat (start_of_first_evlr e)
             = length (header_bytes raw0 h0 @ body) + length (h_point_padding h0)
         | None \<Rightarrow> True) \<and>
        c = \<lparr>c_data = file_layout raw h1 body [], c_pos = 0\<rparr>" by blast
  show ?thesis
    using c body h1 small file_fits_total [OF _ body wr len] by (intro exI conjI impI) blast+
qed

section \<open>Reading the file\<close>

lemma nth_concat_records:
  assumes "\<forall>bs \<in> set recs. length bs = k" "i < length recs"
  shows "\<exists>rest. drop (i * k) (concat recs) = recs ! i @ rest"
  using assms
proof (induction recs arbitrary: i)
  case (Cons bs recs)
  then show ?case by (cases i) auto
qed simp

lemma las_records_stand:
  assumes recs: "list_all2 (record_of (h_point_format h) (h_transforms h)) recs ps"
    and h: "unat (h_number_of_points h) = length ps" "record_len (h_point_format h) < 65536"
    and size: "length pre + length ps * record_len (h_point_format h) < 2 ^ 64"
    and c: "c = \<lparr>c_data = pre @ concat recs @ rest, c_pos = length pre\<rparr>"
  shows "\<exists>r. las_reader_new c h = Ok r \<and> lr_header r = h \<and> las_stands r ps 0"
proof -
  let ?len = "record_len (h_point_format h)"
  let ?r = "\<lparr>lr_read = c, lr_header = h, lr_index = 0, lr_start = word_of_nat (length pre)\<rparr>"
  have start: "unat (word_of_nat (length pre) :: u64) = length pre" using size by (intro unat_of_nat_eq) simp
  have each: "\<forall>bs \<in> set recs. length bs = ?len" and l: "length recs = length ps"
    using recs by (auto simp: list_all2_conv_all_nth record_of_def in_set_conv_nth)
  have "record_at (h_point_format h) (h_transforms h) (c_data c) (length pre + k * ?len) (ps ! k)"
    if "k < length ps" for k
  proof (rule record_of_at)
    show "record_of (h_point_format h) (h_transforms h) (recs ! k) (ps ! k)"
      using recs that by (simp add: list_all2_conv_all_nth)
    obtain r where r: "drop (k * ?len) (concat recs) = recs ! k @ r"
      using nth_concat_records [OF each, of k] l \<open>k < length ps\<close> by auto
    have "k * ?len \<le> length (concat recs)"
      using length_concat_same [OF each] that l by simp
    then show "ahead (recs ! k) \<lparr>c_data = c_data c, c_pos = length pre + k * ?len\<rparr>"
      using r by (simp add: ahead_def c)
  qed
  then have "las_stands ?r ps 0" using h size start c by (simp add: las_stands_def Let_def)
  then show ?thesis by (simp add: las_reader_new_def stream_position_def c)
qed

text \<open>
  What a reader finds of a header that was written: everything but the start of the extended
  records, with the bounds as they are stored, the first of the extended records, padding only
  after uncompressed points, and the counts by return that the reader takes: those of the legacy
  fields when one of them is not zero, and all otherwise.
\<close>

definition reread_counts :: "(u8 \<times> u64) list \<Rightarrow> (u8 \<times> u64) list \<Rightarrow> bool" where
  "reread_counts cs m \<longleftrightarrow>
     (\<forall>r. map_of m r =
        (if has_legacy_counts cs
         then (case map_of cs r of
                 Some n \<Rightarrow> if unat r \<le> 5 \<and> unat n \<le> u32_MAX then Some n else None | None \<Rightarrow> None)
         else map_of cs r))"

definition reread_header :: "('d, 'u) header \<Rightarrow> ('d, 'u) header \<Rightarrow> bool" where
  "reread_header h h' \<longleftrightarrow>
     (\<exists>b m. adapt (h_bounds h) (h_transforms h) = Ok b \<and>
        reread_counts (h_number_of_points_by_return h) m \<and>
        h' = h\<lparr>h_bounds := b, h_number_of_points_by_return := m, h_evlrs := take 1 (h_evlrs h),
               h_point_padding := kept_padding (h_point_format h) (h_point_padding h),
               h_start_of_first_evlr := None\<rparr>)"

lemma reread_fields:
  assumes "reread_header h h'"
  shows "h_point_format h' = h_point_format h" "h_transforms h' = h_transforms h" "h_vlrs h' = h_vlrs h"
    "h_number_of_points h' = h_number_of_points h" "adapt (h_bounds h) (h_transforms h) = Ok (h_bounds h')"
  using assms by (auto simp: reread_header_def)

lemma reread_set_start: "reread_header (set_start_of_first_evlr h n) h' \<Longrightarrow> reread_header h h'"
  by (auto simp: reread_header_def set_start_of_first_evlr_def)

lemma written_file_stands:
  assumes s: "writer_start E L holds packs sz v g h0" and raw0: "header_into_raw E h0 = Ok raw0"
    and ok: "header_ok E h0" and st: "h_start_of_first_evlr h0 \<noteq> Some 0"
    and pts: "list_all (storable (h_point_format h0) (h_transforms h0)) ps"
    and f: "\<not> (has_nir (h_point_format h0) \<and> has_waveform (h_point_format h0))"
    and size: "length ps * record_len (h_point_format h0) < 2 ^ 63"
    and h: "add_points h0 ps = Ok h" and rawn: "header_into_raw E h = Ok rawn"
  shows "\<exists>w0 w1 c. writer_new E L \<lparr>c_data = [], c_pos = 0\<rparr> g = Ok w0 \<and>
     io_each (writer_write_point L) ps w0 = (Ok (), w1) \<and> writer_into_inner E L w1 = Ok c \<and>
     (file_fits raw0 h0 ps c \<longrightarrow>
       (\<exists>r. reader_new E L c = Ok r \<and>
          reader_stands L holds r (map (through_file (h_point_format h0) (h_transforms h0)) ps) 0 \<and>
          reread_header h (reader_header r)))"
proof -
  let ?f = "h_point_format h0" and ?ts = "h_transforms h0"
  let ?recs = "map (record_bytes ?f ?ts) ps" and ?qs = "map (through_file ?f ?ts) ps"
  have ok0: "header_inv h0" "uuid_laws E" "vlrs_ok h0" using ok by (auto simp: header_ok_def)
  have wr: "list_all (writable ?f ?ts) ps" using pts by (auto simp: storable_def list_all_iff)
  have "length ps \<le> length ps * record_len ?f" using record_len_pos [of ?f] by simp
  from le_less_trans [OF this size] have n: "length ps < 2 ^ 64" by simp
  from writer_new_wrote [OF s raw0 ok0(3), of "[]"] obtain w0 where
    w0: "writer_new E L \<lparr>c_data = [], c_pos = 0\<rparr> g = Ok w0"
      "writer_wrote L holds packs sz v 0 h0 (header_bytes raw0 h0) w0 []" by auto
  from writer_sink.write_many [OF w0(2) wr] n obtain w1 where
    w1: "io_each (writer_write_point L) ps w0 = (Ok (), w1)"
      "writer_wrote L holds packs sz v 0 h0 (header_bytes raw0 h0) w1 ps" by auto
  from writer_layout [OF s raw0 ok st w1(2) n wr h rawn] obtain c body h1 raw where
    c: "writer_into_inner E L w1 = Ok c" and body: "packed L holds v h0 (length (header_bytes raw0 h0)) body ps"
    and h1: "h1 = set_start_of_first_evlr h
       (word_of_nat (length (header_bytes raw0 h0 @ body) + length (h_point_padding h0)))"
    and small: "file_fits raw0 h0 ps c \<Longrightarrow>
        header_into_raw E h1 = Ok raw \<and> length (header_bytes raw h1) = length (header_bytes raw0 h0) \<and>
        h_start_of_first_evlr h1 \<noteq> Some 0 \<and>
        (case rh_evlr raw of
           Some e \<Rightarrow> unat (start_of_first_evlr e)
             = length (header_bytes raw0 h0 @ body) + length (h_point_padding h0)
         | None \<Rightarrow> True) \<and>
        c = \<lparr>c_data = file_layout raw h1 body [], c_pos = 0\<rparr>" by blast
  have cp: "counts_points h ps" "clear h = clear h0"
    using add_points_clear [of h0 ps h] h writer_start_fields(3) [OF s] n by auto
  note fl = clear_fields [OF cp(2)]
  have two: "list_all2 (record_of ?f ?ts) ?recs ?qs" using pts f by (rule storable_records)
  have "\<exists>r. reader_new E L c = Ok r \<and> reader_stands L holds r ?qs 0 \<and> reread_header h (reader_header r)"
    if sm: "file_fits raw0 h0 ps c"
  proof -
    note sm = small [OF sm]
    then have raw: "header_into_raw E h1 = Ok raw" by simp
    have ok1: "header_ok E h1" unfolding h1 by (rule header_ok_fields [OF ok cp(2)])
    have num: "unat (h_number_of_points h1) = length ps"
      using cp(1) by (simp add: h1 set_start_fields counts_points_def)
    have fmt: "h_point_format h1 = ?f" "h_transforms h1 = ?ts" "h_point_padding h1 = h_point_padding h0"
      "h_vlrs h1 = h_vlrs h0"
      using fl by (simp_all add: h1 set_start_fields)
    have off: "unat (rh_offset_to_point_data raw) = length (header_bytes raw h1)"
      using length_header_bytes(2) [OF raw] ok1 sm by (simp add: header_ok_def)
    have lb: "length body = length ps * record_len ?f" if "\<not> is_compressed ?f"
      using body that length_record_bytes [OF wr] by (simp add: packed_def Let_def)
    have fit: "points_fit raw h1 body"
      using sm num fmt off lb size unat_u32_less [of "rh_offset_to_point_data raw"]
      by (auto simp: points_fit_def split: option.splits)
    have "counts_ok (h_number_of_points_by_return h1)"
      using cp(1) by (simp add: h1 set_start_of_first_evlr_def counts_points_def)
    then have rc: "reread_counts (h_number_of_points_by_return h1) m"
      if "builder_points_by_return (stored_header raw) = Ok m" for m
      using counts_stored [OF raw _ that] by (simp add: reread_counts_def)
    have start: "h_start_of_first_evlr h1 \<noteq> Some 0" and c0: "c_data c = file_layout raw h1 body []" "c_pos c = 0"
      using sm by auto
    from header_read_back [OF raw ok1 start fit c0] rc obtain h' where
      h': "header_new E c = (Ok h', c\<lparr>c_pos := length (header_bytes raw h1)\<rparr>)"
      "reread_header h1 h'"
      unfolding reread_header_def by blast
    note rr = reread_set_start [OF h'(2) [unfolded h1]]
    have h'f: "h_point_format h' = ?f" "h_transforms h' = ?ts" "h_vlrs h' = h_vlrs h0"
      using reread_fields [OF h'(2)] fmt by simp_all
    let ?c = "c\<lparr>c_pos := length (header_bytes raw h1)\<rparr>"
    let ?pre = "header_bytes raw h1" and ?rest = "h_point_padding h1 @ concat (map (vlr_bytes True) (h_evlrs h1))"
    have cc: "?c = \<lparr>c_data = ?pre @ body @ ?rest, c_pos = length ?pre\<rparr>" using sm by (simp add: file_layout_def)
    obtain len where len: "format_len ?f = Ok len" "unat len = record_len ?f" "record_len ?f < 65536"
      using header_into_raw_fields(12) [OF raw] fmt(1) by (auto simp: format_len_Ok_iff unat_of_nat)
    have num': "unat (h_number_of_points h') = length ?qs" using num reread_fields(4) [OF h'(2)] by simp
    show ?thesis
    proof (cases "is_compressed ?f")
      case False
      then have "body = concat ?recs" using body by (simp add: packed_def Let_def)
      moreover have "length ?pre + length ?qs * record_len ?f < 2 ^ 64"
        using size unat_u32_less [of "rh_offset_to_point_data raw"] off by simp
      ultimately obtain r where "las_reader_new ?c h' = Ok r" "lr_header r = h'" "las_stands r ?qs 0"
        using las_records_stand [of h' ?recs ?qs ?pre ?c ?rest] two num' len(3) h'f cc by auto
      then show ?thesis
        using h'(1) h'f False rr
        by (intro exI [of _ "\<lparr>fr_point_reader = LasReader r\<rparr>"])
          (simp add: reader_new_def reader_stands_def reader_header_def)
    next
      case True
      then have laz: "env_laz E" "decompresses L holds" "laz_vlr L h0 = Ok v"
        using s writer_start_fields(1) [OF s] by (auto simp: writer_start_def)
      have "laz_vlr L h' = Ok v" using laz(3) h'f(3) by (simp add: laz_vlr_def)
      moreover obtain z where "laz_decompressor_new L ?c v = Ok z" "holds z ?recs 0"
        using body True sm cc by (auto simp: packed_def Let_def)
      ultimately show ?thesis
        using h'(1) h'f True num' len laz(1,2) two size rr
        by (auto simp: reader_new_def laz_reader_new_def reader_stands_def reader_header_def laz_stands_def
            Let_def)
    qed
  qed
  with w0(1) w1(1) c show ?thesis by blast
qed

lemma number_of_added:
  assumes "writer_start E L holds packs sz v g h0" "length ps * record_len (h_point_format h0) < 2 ^ 63"
    and "add_points h0 ps = Ok h"
  shows "unat (h_number_of_points h) = length ps"
proof -
  have "length ps \<le> length ps * record_len (h_point_format h0)" using record_len_pos [of "h_point_format h0"] by simp
  from le_less_trans [OF this assms(2)] have "length ps < 2 ^ 64" by simp
  from add_points_clear(1) [of h0 ps h, OF _ this] show ?thesis
    using assms(3) writer_start_fields(3) [OF assms(1)] by (simp add: counts_points_def)
qed

section \<open>A concrete file\<close>

definition stored_packs :: "cursor \<times> bytes list \<Rightarrow> nat \<Rightarrow> bytes \<Rightarrow> bytes list \<Rightarrow> bool" where
  "stored_packs c v d recs \<longleftrightarrow>
     c = (\<lparr>c_data = d, c_pos = length d\<rparr>, recs) \<and> length recs < 2 ^ 64 \<and>
     (\<forall>bs \<in> set recs. length bs = v) \<and> (recs \<noteq> [] \<longrightarrow> 0 < v)"

lemma stored_unpack:
  assumes "length recs < 2 ^ 64" "\<forall>bs \<in> set recs. length bs = v" "recs \<noteq> [] \<longrightarrow> 0 < v"
  shows "\<exists>z. laz_decompressor_new stored_laz
     \<lparr>c_data = pre @ (to_le 8 (word_of_nat (length recs) :: u64) @ concat recs) @ rest, c_pos = length pre\<rparr> v
       = Ok z \<and> stored_holds z recs 0"
proof -
  let ?n = "word_of_nat (length recs) :: u64"
  let ?c = "\<lparr>c_data = pre @ (to_le 8 ?n @ concat recs) @ rest, c_pos = length pre\<rparr>"
  have n: "unat ?n = length recs" using assms(1) by (intro unat_of_nat_eq) simp
  have "reads (io_times (length recs) (read_exact v)) (concat (map id recs)) recs"
    using assms(2) by (intro reads_times) (simp add: reads_exact_len)
  then have "reads (io_bind read_u64 (\<lambda>k. io_times (unat k) (read_exact v))) (to_le 8 ?n @ concat recs) recs"
    using n by (intro reads_bind [OF u64.reads_enc]) simp
  moreover have "ahead (to_le 8 ?n @ concat recs) ?c" by (simp add: ahead_def)
  ultimately have "fst (io_bind read_u64 (\<lambda>k. io_times (unat k) (read_exact v)) ?c) = Ok recs"
    unfolding reads_def by (metis fst_conv)
  moreover have "stored_holds (recs, 0) recs 0"
    using assms by (cases "recs = []") (auto simp: stored_holds_def)
  ultimately show ?thesis by (simp add: stored_laz_def)
qed

lemma stored_compresses: "compresses stored_laz stored_holds stored_packs (\<lambda>v. v)"
proof -
  have "\<exists>c' body. laz_compressor_done stored_laz c = (Ok (), c') \<and>
      laz_compressor_get stored_laz c' = \<lparr>c_data = d @ body, c_pos = length (d @ body)\<rparr> \<and>
      (\<forall>pre rest. length pre = length d \<longrightarrow>
        (\<exists>z. laz_decompressor_new stored_laz \<lparr>c_data = pre @ body @ rest, c_pos = length pre\<rparr> v = Ok z \<and>
           stored_holds z recs 0))"
    if p: "stored_packs c v d recs" for c v d recs
  proof -
    let ?body = "to_le 8 (word_of_nat (length recs) :: u64) @ concat recs"
    let ?c = "(\<lparr>c_data = d @ ?body, c_pos = length (d @ ?body)\<rparr>, [])"
    have d: "laz_compressor_done stored_laz c = (Ok (), ?c)"
      using p by (simp add: stored_laz_def stored_packs_def put_at_end)
    have g: "laz_compressor_get stored_laz = fst" by (simp add: stored_laz_def)
    have "length recs < 2 ^ 64" "\<forall>bs \<in> set recs. length bs = v" "recs \<noteq> [] \<longrightarrow> 0 < v"
      using p by (auto simp: stored_packs_def)
    note z = stored_unpack [OF this]
    show ?thesis
      by (rule exI [of _ ?c], rule exI [of _ ?body], intro conjI allI impI)
        (simp only: d, simp only: g fst_conv, rule z)
  qed
  then show ?thesis
    unfolding compresses_def by (intro conjI allI) (auto simp: stored_laz_def stored_packs_def)
qed

definition file_env :: "(int \<times> day_of_year, 128 word) env" where
  "file_env = demo_env\<lparr>env_laz := True\<rparr>"

lemma file_env_laws: "chrono_laws file_env" "uuid_laws file_env"
  using demo_env_laws by (simp_all add: file_env_def chrono_laws_def uuid_laws_def)

text \<open>A header for points with a time, compressed or not.\<close>

definition file_header :: "bool \<Rightarrow> (int \<times> day_of_year, 128 word) header" where
  "file_header compressed = (header_default file_env)\<lparr>h_date := None, h_version := Version 1 4,
     h_point_format := format_of_id compressed 1\<rparr>"

definition laszip_vlr :: vlr where
  "laszip_vlr = \<lparr>v_user_id = laz_USER_ID stored_laz, v_record_id = 22204, v_description = [],
     v_data = [28, 0, 0, 0]\<rparr>"

definition file_header0 :: "bool \<Rightarrow> (int \<times> day_of_year, 128 word) header" where
  "file_header0 compressed = (file_header compressed)\<lparr>h_vlrs := (if compressed then [laszip_vlr] else [])\<rparr>"

lemma format_1:
  "format_of_id b 1 = \<lparr>has_gps_time = True, has_color = False, is_extended = False, has_waveform = False,
     has_nir = False, extra_bytes = 0, is_compressed = b\<rparr>"
  by (simp add: format_of_id_def TIME_FORMATS_def COLOR_FORMATS_def WAVEFORM_FORMATS_def NIR_FORMATS_def
      word_le_nat_alt)

lemma file_start:
  "writer_start file_env stored_laz stored_holds stored_packs (\<lambda>v. v) 28 (file_header b) (file_header0 b)"
proof -
  have "(4 :: nat) = Suc (Suc (Suc (Suc 0)))" by simp
  then have bytes: "to_le 4 (28 :: u32) = [28, 0, 0, 0]" by (simp only: to_le_def le_encode.simps) simp
  have "add_laz_vlr stored_laz (clear (file_header True)) = Ok (file_header0 True)"
    by (simp add: add_laz_vlr_def stored_laz_def laz_items_def file_header_def file_header0_def clear_def
        format_1 header_default_def laszip_vlr_def write_le_def write_all_def put_def bytes)
  moreover have "laz_vlr stored_laz (file_header0 True) = Ok 28"
    by (simp add: laz_vlr_def file_header0_def is_laszip_vlr_def laszip_vlr_def laz_vlr_of_vlr_def
        stored_laz_def read_le_def read_exact_def io_defs from_le_def)
  moreover have "file_header0 False = clear (file_header False)"
    by (simp add: file_header0_def file_header_def clear_def header_default_def)
  moreover have "record_len (format_of_id b 1) = 28" by (simp add: format_1 record_len_def)
  ultimately show ?thesis
    using stored_decompresses stored_compresses
    by (cases b) (simp_all add: writer_start_def file_header_def format_1 file_env_def)
qed

text \<open>The point of the survey and its bounds.\<close>

lemma survey_bounds: "grow bounds_default survey_point =
  \<lparr>b_min = \<lparr>vx = 0x3FF0000000000000, vy = 0x4000000000000000, vz = 0\<rparr>,
   b_max = \<lparr>vx = 0x3FF0000000000000, vy = 0x4000000000000000, vz = 0\<rparr>\<rparr>"
  by (simp add: grow_def bounds_default_def survey_point_def f64_infinity_def f64_neg_infinity_def fp_eval
      f64_lt_def)

lemma survey_adapt: "\<exists>b. adapt (grow bounds_default survey_point) vector_transform_default = Ok b"
  by (simp add: adapt_def inner_convert_def vector_transform_default_def survey_bounds scale_bits
      inverse_with_rounding_mode_def check_i32_range_def i32_MAX_def i32_MIN_def fp_eval)

lemma survey_storable: "storable (format_of_id b 1) vector_transform_default survey_point"
proof -
  have "point_matches survey_point (format_of_id b 1)"
    by (simp add: point_matches_def survey_point_def format_1)
  moreover have "stored_flags (format_of_id b 1) (ThreeByte 0x21 0x42 2) = Ok (TwoByte 0x51 0x42)"
    by (simp add: stored_flags_def format_1 three_to_two_bytes_def flags_scan_direction_def
        is_edge_of_flight_line_def)
  ultimately show ?thesis
    using survey_raw by (auto simp: storable_def writable_def survey_point_def)
qed

lemma file_points:
  "add_points (file_header0 b) [survey_point] =
     Ok ((file_header0 b)\<lparr>h_number_of_points := 1, h_number_of_points_by_return := [(1, 1)],
       h_bounds := grow bounds_default survey_point\<rparr>)"
  by (simp add: add_point_def count_return_def checked_add_def file_header0_def file_header_def
      header_default_def) (simp add: survey_point_def)

text \<open>The header block of the file, before and after its points.\<close>

lemma file_raw:
  assumes "h = (file_header0 b)\<lparr>h_number_of_points := n, h_number_of_points_by_return := m, h_bounds := bs\<rparr>"
    and "n = 0 \<and> m = [] \<or> n = 1 \<and> m = [(1, 1)]" "\<exists>b. adapt bs vector_transform_default = Ok b"
  shows "\<exists>raw. header_into_raw file_env h = Ok raw"
proof -
  have v: "h_version h = Version 1 4" "h_evlrs h = []" "h_point_format h = format_of_id b 1"
    "h_number_of_points h = n" "h_number_of_points_by_return h = m" "h_bounds h = bs"
    "h_transforms h = vector_transform_default" "h_padding h = []" "h_vlr_padding h = []"
    "h_vlrs h = (if b then [laszip_vlr] else [])"
    "h_system_identifier h = [0x6C, 0x61, 0x73, 0x2D, 0x72, 0x73]"
    "h_generating_software h = [0x6C, 0x61, 0x73, 0x2D, 0x72, 0x73, 0x20, 0x30]"
    using assms(1) by (simp_all add: file_header0_def file_header_def header_default_def file_env_def
        demo_env_def)
  have "header_size h = Ok 375" by (simp add: header_size_def v version_header_size_simps u16_MAX_def)
  moreover from this have "\<exists>x. offset_to_point_data h = Ok x"
    by (simp add: offset_to_point_data_def v u32_MAX_def laszip_vlr_def vlr_len_def REGULAR_HEADER_SIZE_def)
  moreover have "\<exists>x. to_writable_u8 True (format_of_id b 1) = Ok x"
    by (simp add: to_writable_u8_def to_u8_def format_1 point_format_id_uncompressed_to_compressed_def)
  moreover have "format_len (format_of_id b 1) = Ok 28"
    by (simp add: format_1 format_len_def add_if_def checked_add_def)
  moreover have "\<exists>x. number_of_points_raw h = Ok x" "\<exists>x. number_of_points_by_return_raw h = Ok x"
    "\<exists>x. header_large_file h = Ok x"
    using assms(2) by (auto simp: number_of_points_raw_def number_of_points_by_return_raw_def
        header_large_file_def v u32_MAX_def)
  moreover have "\<exists>x. number_of_variable_length_records h = Ok x" "header_evlr h = Ok None"
    by (simp_all add: number_of_variable_length_records_def header_evlr_def v u32_MAX_def)
  moreover have "\<exists>x. system_identifier_raw h = Ok x" "\<exists>x. generating_software_raw h = Ok x"
    by (simp_all add: system_identifier_raw_def generating_software_raw_def v from_las_str_def)
  moreover have "env_laz file_env" by (simp add: file_env_def)
  ultimately show ?thesis
    using assms(3) v(3,6,7) by (auto simp: header_into_raw_def)
qed

lemma file_header_ok: "header_ok file_env (file_header0 b)"
proof -
  have "header_inv (file_header0 b)"
    by (auto simp: header_inv_def file_header0_def file_header_def header_default_def
        supports_point_format_def signed_padding_def requires_point_data_start_signature_def format_1
        laszip_vlr_def has_large_data_def u16_MAX_def)
  moreover have "vlr_ok False laszip_vlr"
    by (simp add: vlr_ok_def laszip_vlr_def stored_laz_def las_text_def utf8_next.simps has_large_data_def
        u16_MAX_def)
  ultimately show ?thesis
    using file_env_laws
    by (auto simp: header_ok_def header_text_ok_def vlrs_ok_def file_header0_def file_header_def
        header_default_def las_text_def utf8_next.simps date_ok_def file_env_def demo_env_def)
qed

lemma file_header0_fields:
  "h_point_format (file_header0 b) = format_of_id b 1"
  "h_transforms (file_header0 b) = vector_transform_default"
  "h_start_of_first_evlr (file_header0 b) = None" "h_evlrs (file_header0 b) = []"
  "h_point_padding (file_header0 b) = []" "h_vlrs (file_header0 b) = (if b then [laszip_vlr] else [])"
  "h_version (file_header0 b) = Version 1 4" "h_padding (file_header0 b) = []"
  "h_vlr_padding (file_header0 b) = []"
  by (simp_all add: file_header0_def file_header_def header_default_def)

lemma file_raw0: "\<exists>raw. header_into_raw file_env (file_header0 b) = Ok raw"
proof (rule file_raw)
  show "file_header0 b = (file_header0 b)\<lparr>h_number_of_points := 0, h_number_of_points_by_return := [],
      h_bounds := bounds_default\<rparr>"
    by (simp add: file_header0_def file_header_def header_default_def)
  show "\<exists>x. adapt bounds_default vector_transform_default = Ok x"
    by (simp add: adapt_def inner_convert_def bounds_default_def fp_eval)
qed simp

lemma file_size:
  assumes "header_into_raw file_env (file_header0 False) = Ok raw"
  shows "length (header_bytes raw (file_header0 False)) = 375"
proof -
  have "header_inv (file_header0 False)" "vlrs_ok (file_header0 False)"
    using file_header_ok [of False] by (auto simp: header_ok_def)
  from length_header_bytes(2) [OF assms this(1) file_env_laws(2) _ this(2)]
    offset_to_point_data_Ok [OF header_into_raw_fields(9) [OF assms]]
  show ?thesis by (simp add: file_header0_fields version_header_size_simps)
qed

section \<open>Properties\<close>



text \<open>The hypotheses hold for a compressed file, too.\<close>

lemma compressed_file_written:
  "\<exists>w0 w1 c. writer_new file_env stored_laz \<lparr>c_data = [], c_pos = 0\<rparr> (file_header True) = Ok w0 \<and>
     io_each (writer_write_point stored_laz) [survey_point] w0 = (Ok (), w1) \<and>
     writer_into_inner file_env stored_laz w1 = Ok c"
proof -
  let ?h0 = "file_header0 True"
  obtain raw0 where raw0: "header_into_raw file_env ?h0 = Ok raw0" using file_raw0 by blast
  obtain rawn where rawn: "header_into_raw file_env (?h0\<lparr>h_number_of_points := 1,
      h_number_of_points_by_return := [(1, 1)], h_bounds := grow bounds_default survey_point\<rparr>) = Ok rawn"
    using file_raw [OF refl _ survey_adapt] by blast
  show ?thesis
    using written_file_stands [OF file_start raw0 file_header_ok _ _ _ _ file_points rawn] survey_storable
    by (auto simp: file_header0_fields format_1 record_len_def)
qed

end
