(* ===== verification/Writer_Properties.thy ===== *)
theory Writer_Properties
  imports Whole_File
begin

text \<open>
  Writers as a state machine: any sequence of writes and closes that a client makes, with
  calls that fail among them, and what is true of the writer after each.  A small calculus of
  pre- and postconditions carries the proofs over the body of \<^verbatim>\<open>Writer::close\<close>.
\<close>

section \<open>Pre- and postconditions\<close>

text \<open>
  From a state with \<open>P\<close>, a computation that returns a value ends with \<open>Q\<close>, and one that returns
  an error ends with \<open>R\<close>.
\<close>

definition triple ::
  "('s \<Rightarrow> bool) \<Rightarrow> ('s, 'a) io \<Rightarrow> ('a \<Rightarrow> 's \<Rightarrow> bool) \<Rightarrow> ('s \<Rightarrow> bool) \<Rightarrow> bool" where
  "triple P m Q R \<longleftrightarrow>
     (\<forall>s. P s \<longrightarrow> (case m s of (Ok a, t) \<Rightarrow> Q a t | (Err _, t) \<Rightarrow> R t | (Panic, _) \<Rightarrow> True))"

named_theorems triples \<open>rules for pre- and postconditions\<close>

lemma triple_bind:
  assumes "triple P m Q R" "\<And>a. triple (Q a) (f a) S R"
  shows "triple P (io_bind m f) S R"
  unfolding triple_def
proof (intro allI impI)
  fix s
  assume "P s"
  with assms(1) have m: "case m s of (Ok a, t) \<Rightarrow> Q a t | (Err _, t) \<Rightarrow> R t | (Panic, _) \<Rightarrow> True"
    by (simp add: triple_def)
  show "case io_bind m f s of (Ok a, t) \<Rightarrow> S a t | (Err _, t) \<Rightarrow> R t | (Panic, _) \<Rightarrow> True"
  proof (cases "m s")
    case (Pair r t)
    with m assms(2) show ?thesis by (cases r) (simp_all add: io_bind_def triple_def)
  qed
qed

lemma triple_return [triples]: "triple P (io_return a) (\<lambda>_. P) P"
  by (simp add: triple_def io_return_def)

lemma triple_lift [triples]: "triple P (io_lift r) (\<lambda>_. P) P"
  by (cases r) (simp_all add: triple_def io_lift_def)

lemma triple_each [triples]:
  "(\<And>a. triple P (f a) (\<lambda>_. P) P) \<Longrightarrow> triple P (io_each f as) (\<lambda>_. P) P"
  by (induction as) (auto intro: triple_bind triple_return)

section \<open>The header behind a writer\<close>

definition open_with ::
  "('d, 'u) header \<Rightarrow> bool \<Rightarrow> u64 \<Rightarrow> ('d, 'u, 'c) file_writer \<Rightarrow> bool" where
  "open_with g b s w \<longleftrightarrow>
     fw_closed w = b \<and> fw_start w = s \<and>
     (\<exists>x. kind_header (fw_point_writer w) = Ok (g\<lparr>h_start_of_first_evlr := x\<rparr>))"

lemma triple_stream [triples]:
  "triple (open_with g b s) (on_kind (get_mut L m)) (\<lambda>_. open_with g b s) (open_with g b s)"
  by (auto simp: triple_def open_with_def on_kind_def get_mut_def kind_header_def unreachable_def io_defs
      split: writer_kind.splits prod.splits outcome.splits)

lemma triple_done [triples]:
  "triple (open_with g b s) (on_kind (kind_done L)) (\<lambda>_. open_with g b s) (open_with g b s)"
  by (auto simp: triple_def open_with_def on_kind_def kind_done_def kind_header_def unreachable_def io_defs
      split: writer_kind.splits prod.splits outcome.splits)

lemma triple_header [triples]:
  "triple (open_with g b s) writer_header (\<lambda>_. open_with g b s) (open_with g b s)"
  by (auto simp: triple_def open_with_def writer_header_def split: prod.splits outcome.splits)

lemma triple_set_start [triples]:
  "triple (open_with g b s) (on_kind (kind_header_mut (\<lambda>h. set_start_of_first_evlr h n)))
     (\<lambda>_. open_with g b s) (open_with g b s)"
  by (auto simp: triple_def open_with_def on_kind_def kind_header_mut_def kind_header_def unreachable_def
      set_start_of_first_evlr_def io_defs split: writer_kind.splits prod.splits outcome.splits)

lemma triple_evlrs [triples]:
  "triple (open_with g b s) (write_evlrs L rs) (\<lambda>_. open_with g b s) (open_with g b s)"
  unfolding write_evlrs_def by (rule triple_each) (rule triple_bind [OF triple_lift], rule triple_stream)

lemma triple_closed [triples]:
  "triple (open_with g b s) (io_modify (\<lambda>w. w\<lparr>fw_closed := True\<rparr>)) (\<lambda>_. open_with g True s)
     (open_with g b s)"
  by (auto simp: triple_def open_with_def io_modify_def)

lemma triple_get:
  "(\<And>w. fw_closed w = b \<Longrightarrow> triple (open_with g b s) (f w) S R) \<Longrightarrow>
   triple (open_with g b s) (io_bind io_get f) S R"
  by (auto simp: triple_def open_with_def)

lemma triple_close:
  "triple (open_with g False s) (writer_close E L) (\<lambda>_. open_with g True s) (open_with g False s)"
  unfolding writer_close_def
proof (rule triple_get, goal_cases)
  case (1 w)
  show ?case
    unfolding 1 if_False by ((rule triple_bind, rule triples)+, rule triples)
qed

lemma close_closed: "fw_closed w \<Longrightarrow> writer_close E L w = (Err ClosedWriter, w)"
  by (simp add: writer_close_def io_lift_def)

lemma write_closed: "fw_closed w \<Longrightarrow> writer_write_point L p w = (Err ClosedWriter, w)"
  by (simp add: writer_write_point_def io_lift_def)

text \<open>What a write does to the header, whether it fails or not.\<close>

lemma add_point_no_error: "add_point h p \<noteq> Err e"
  by (simp add: add_point_def count_return_def checked_add_def)

lemma kind_write_point_header:
  assumes "kind_write_point L p k = (r, k')" "r \<noteq> Panic" "kind_header k = Ok g"
  shows "\<exists>g'. add_point g p = Ok g' \<and> kind_header k' = Ok g'"
proof (cases "add_point g p")
  case (Ok g')
  then show ?thesis using assms
    by (cases k) (auto simp: kind_write_point_def kind_header_def las_write_point_def laz_write_point_def
        io_defs split: prod.splits outcome.splits)
next
  case Panic
  then show ?thesis using assms
    by (cases k) (auto simp: kind_write_point_def kind_header_def las_write_point_def laz_write_point_def
        io_defs)
qed (simp add: add_point_no_error)

lemma write_point_header:
  assumes w: "open_with g False s w" and r: "writer_write_point L p w = (r, w')" "r \<noteq> Panic"
  shows "if point_matches p (h_point_format g)
    then \<exists>g'. add_point g p = Ok g' \<and> open_with g' False s w'
    else w' = w \<and> r = Err (PointAttributesDoNotMatch (h_point_format g))"
proof -
  obtain x where x: "kind_header (fw_point_writer w) = Ok (g\<lparr>h_start_of_first_evlr := x\<rparr>)"
    and op: "\<not> fw_closed w" "fw_start w = s"
    using w by (auto simp: open_with_def)
  have ap: "add_point (g\<lparr>h_start_of_first_evlr := x\<rparr>) p =
      and_then (add_point g p) (\<lambda>g. Ok (g\<lparr>h_start_of_first_evlr := x\<rparr>))"
    by (cases "checked_add (h_number_of_points g) 1";
        cases "count_return (h_number_of_points_by_return g) (pt_return_number p)")
      (simp_all add: add_point_def)
  show ?thesis
  proof (cases "point_matches p (h_point_format g)")
    case False
    then show ?thesis using r x op
      by (auto simp: writer_write_point_def writer_header_def io_defs)
  next
    case True
    then have k: "kind_write_point L p (fw_point_writer w) = (r, fw_point_writer w')"
      "fw_closed w' = False" "fw_start w' = s"
      using r x op by (auto simp: writer_write_point_def writer_header_def on_kind_def io_defs
          split: prod.splits)
    from kind_write_point_header [OF k(1) r(2) x] ap
    have "\<exists>g'. add_point g p = Ok g' \<and>
        kind_header (fw_point_writer w') = Ok (g'\<lparr>h_start_of_first_evlr := x\<rparr>)" by auto
    with True k show ?thesis by (auto simp: open_with_def)
  qed
qed

section \<open>Runs of a writer\<close>

datatype call = WritePoint point | Close

type_synonym trace = "(call \<times> unit outcome) list"

text \<open>A writer after a sequence of calls that did not panic, with their results.\<close>

inductive writer_run ::
  "('d, 'u) env \<Rightarrow> ('v, 'c, 'z) laz \<Rightarrow> cursor \<Rightarrow> ('d, 'u) header \<Rightarrow> trace \<Rightarrow> ('d, 'u, 'c) file_writer \<Rightarrow> bool"
  for E L c h where
  run_new: "writer_new E L c h = Ok w \<Longrightarrow> writer_run E L c h [] w"
| run_write: "writer_run E L c h tr w \<Longrightarrow> writer_write_point L p w = (r, w') \<Longrightarrow> r \<noteq> Panic \<Longrightarrow>
    writer_run E L c h (tr @ [(WritePoint p, r)]) w'"
| run_close: "writer_run E L c h tr w \<Longrightarrow> writer_close E L w = (r, w') \<Longrightarrow> r \<noteq> Panic \<Longrightarrow>
    writer_run E L c h (tr @ [(Close, r)]) w'"

inductive_cases run_snocE: "writer_run E L c h (tr @ [x]) w"

text \<open>
  The points that were handed on to the point writer: those that match the format, before the
  first close that succeeded.
\<close>

definition is_closed :: "trace \<Rightarrow> bool" where
  "is_closed tr \<longleftrightarrow> (Close, Ok ()) \<in> set tr"

fun handed :: "format \<Rightarrow> bool \<Rightarrow> trace \<Rightarrow> point list" where
  "handed f b [] = []"
| "handed f b ((WritePoint p, r) # tr) = (if \<not> b \<and> point_matches p f then [p] else []) @ handed f b tr"
| "handed f b ((Close, r) # tr) = handed f (b \<or> r = Ok ()) tr"

lemma handed_snoc:
  "handed f b (tr @ [(WritePoint p, r)]) =
     handed f b tr @ (if \<not> (b \<or> is_closed tr) \<and> point_matches p f then [p] else [])"
  "handed f b (tr @ [(Close, r)]) = handed f b tr"
  by (induction f b tr rule: handed.induct) (auto simp: is_closed_def)

lemma length_handed: "length (handed f b tr) \<le> length tr"
  by (induction f b tr rule: handed.induct) auto

text \<open>The header that a new writer starts with.\<close>

definition started :: "('v, 'c, 'z) laz \<Rightarrow> ('d, 'u) header \<Rightarrow> ('d, 'u) header outcome" where
  "started L h = (if is_compressed (h_point_format h) then add_laz_vlr L (clear h) else Ok (clear h))"

lemma started_fields: "started L h = Ok h0 \<Longrightarrow> h_point_format h0 = h_point_format h \<and> clear h0 = h0"
  by (auto simp: started_def add_laz_vlr_def clear_def split: if_splits prod.splits)

lemma writer_new_open:
  assumes "writer_new E L c h = Ok w"
  obtains h0 where "started L h = Ok h0" "open_with h0 False (word_of_nat (c_pos c)) w"
proof -
  have f: "h_point_format (clear h) = h_point_format h" by (simp add: clear_def)
  have "\<exists>h0. started L h = Ok h0 \<and> kind_header (fw_point_writer w) = Ok h0 \<and> fw_closed w = False \<and>
      fw_start w = word_of_nat (c_pos c)"
  proof (cases "is_compressed (h_point_format h)")
    case True
    then obtain h0 where h0: "add_laz_vlr L (clear h) = Ok h0"
      using assms f by (auto simp: writer_new_def Let_def stream_position_def split: if_splits)
    then show ?thesis
      using assms f True by (cases "header_write_to E h0 c")
        (auto simp: writer_new_def Let_def stream_position_def started_def kind_header_def
          laz_writer_new_def split: if_splits)
  next
    case False
    then show ?thesis
      using assms f by (auto simp: writer_new_def Let_def stream_position_def started_def kind_header_def
          las_writer_new_def split: prod.splits)
  qed
  then obtain h0 where h0: "started L h = Ok h0" "kind_header (fw_point_writer w) = Ok h0"
    "fw_closed w = False" "fw_start w = word_of_nat (c_pos c)" by blast
  have "kind_header (fw_point_writer w) = Ok (h0\<lparr>h_start_of_first_evlr := h_start_of_first_evlr h0\<rparr>)"
    using h0(2) by simp
  with h0 that show thesis unfolding open_with_def by blast
qed

text \<open>The invariant of a run.\<close>

lemma writer_run_invariant:
  assumes "writer_run E L c h tr w" "length tr < 2 ^ 64"
  shows "\<exists>h0 g. started L h = Ok h0 \<and> open_with g (is_closed tr) (word_of_nat (c_pos c)) w \<and>
     counts_points g (handed (h_point_format h) False tr) \<and> clear g = h0"
  using assms
proof (induction rule: writer_run.induct)
  case (run_new w)
  from writer_new_open [OF run_new(1)] obtain h0 where
    h0: "started L h = Ok h0" "open_with h0 False (word_of_nat (c_pos c)) w" .
  moreover have "counts_points h0 []" "clear h0 = h0"
    using started_fields [OF h0(1)] counts_points_clear [of h0] by auto
  ultimately show ?case by (auto simp: is_closed_def)
next
  case (run_write tr w p r w')
  then obtain h0 g where g: "started L h = Ok h0" "open_with g (is_closed tr) (word_of_nat (c_pos c)) w"
    "counts_points g (handed (h_point_format h) False tr)" "clear g = h0" by auto
  have f: "h_point_format g = h_point_format h"
    using started_fields [OF g(1)] g(4) by (auto simp: clear_def)
  have c: "is_closed (tr @ [(WritePoint p, r)]) = is_closed tr" by (simp add: is_closed_def)
  show ?case
  proof (cases "is_closed tr")
    case True
    then have "w' = w" using write_closed [of w L p] g(2) run_write(2) by (simp add: open_with_def)
    then show ?thesis using g True by (auto simp: handed_snoc c)
  next
    case False
    then have "open_with g False (word_of_nat (c_pos c)) w" using g(2) by simp
    note step = write_point_header [OF this run_write(2,3)]
    show ?thesis
    proof (cases "point_matches p (h_point_format g)")
      case True
      with step obtain g' where g': "add_point g p = Ok g'" "open_with g' False (word_of_nat (c_pos c)) w'"
        by auto
      have "length (handed (h_point_format h) False tr) + 1 < 2 ^ 64"
        using length_handed [of "h_point_format h" False tr] run_write.prems by simp
      from add_point_counts [OF g(3) this, of p] g' g(4) have
        "counts_points g' (handed (h_point_format h) False tr @ [p])" "clear g' = h0" by auto
      then show ?thesis using g(1) g'(2) True False f by (auto simp: handed_snoc c)
    next
      case no: False
      with step have "w' = w" by simp
      then show ?thesis using g False no f by (auto simp: handed_snoc c)
    qed
  qed
next
  case (run_close tr w r w')
  then obtain h0 g where g: "started L h = Ok h0" "open_with g (is_closed tr) (word_of_nat (c_pos c)) w"
    "counts_points g (handed (h_point_format h) False tr)" "clear g = h0" by auto
  have "open_with g (is_closed (tr @ [(Close, r)])) (word_of_nat (c_pos c)) w'"
  proof (cases "is_closed tr")
    case True
    then have "w' = w" using close_closed [of w E L] g(2) run_close(2) by (simp add: open_with_def)
    then show ?thesis using g(2) True by (simp add: is_closed_def)
  next
    case False
    with triple_close [of g "word_of_nat (c_pos c)" E L] g(2) run_close(2,3) show ?thesis
      by (cases r) (auto simp: triple_def is_closed_def dest!: spec [of _ w])
  qed
  with g show ?case by (auto simp: handed_snoc)
qed

section \<open>A concrete run\<close>

text \<open>A writer of the survey point that is closed afterwards.\<close>

lemma survey_run:
  "\<exists>w. writer_run file_env stored_laz \<lparr>c_data = [], c_pos = 0\<rparr> (file_header False)
     [(WritePoint survey_point, Ok ()), (Close, Ok ())] w"
proof -
  let ?h0 = "file_header0 False" and ?c = "\<lparr>c_data = [], c_pos = 0\<rparr>"
  obtain raw0 where raw0: "header_into_raw file_env ?h0 = Ok raw0" using file_raw0 by blast
  obtain rawn where rawn: "header_into_raw file_env (?h0\<lparr>h_number_of_points := 1,
      h_number_of_points_by_return := [(1, 1)], h_bounds := grow bounds_default survey_point\<rparr>) = Ok rawn"
    using file_raw [OF refl _ survey_adapt] by blast
  from written_file_stands [OF file_start raw0 file_header_ok _ _ _ _ file_points rawn] survey_storable
  obtain w0 w1 c where w: "writer_new file_env stored_laz ?c (file_header False) = Ok w0"
    "io_each (writer_write_point stored_laz) [survey_point] w0 = (Ok (), w1)"
    "writer_into_inner file_env stored_laz w1 = Ok c"
    by (auto simp: file_header0_fields format_1 record_len_def)
  have w1: "writer_write_point stored_laz survey_point w0 = (Ok (), w1)"
    using w(2) by (auto simp: io_bind_def io_return_def split: prod.splits outcome.splits)
  have run: "writer_run file_env stored_laz ?c (file_header False) [(WritePoint survey_point, Ok ())] w1"
    using run_write [OF run_new [OF w(1)] w1] by simp
  from writer_run_invariant [OF run] have "\<not> fw_closed w1" by (auto simp: open_with_def is_closed_def)
  with w(3) obtain w2 where "writer_close file_env stored_laz w1 = (Ok (), w2)"
    by (auto simp: writer_into_inner_def writer_drop_def split: prod.splits outcome.splits)
  from run_close [OF run this] show ?thesis by auto
qed

section \<open>Properties\<close>

text \<open>
  C3. After any sequence of writes and closes, with calls that return errors among them, the
  header of the writer counts exactly the points that were handed on to the point writer,
  overall and by return, and bounds them: the points that match the format, written before the
  first successful close, whether or not writing them succeeded.  The writer is closed exactly
  when a close succeeded.
\<close>

theorem writer_run_counts:
  assumes "writer_run E L c h tr w" "length tr < 2 ^ 64"
  defines "ps \<equiv> handed (h_point_format h) False tr"
  shows "\<exists>g. kind_header (fw_point_writer w) = Ok g \<and> unat (h_number_of_points g) = length ps \<and>
     (\<forall>r. r = 0 \<or> unat (unwrap_or (number_of_points_by_return g r) 0) = returns r ps) \<and>
     list_all (inside (h_bounds g)) ps \<and> fw_closed w = is_closed tr \<and> fw_start w = word_of_nat (c_pos c)"
  using writer_run_invariant [OF assms(1,2)] unfolding ps_def
  by (auto simp: open_with_def counts_points_def number_of_points_by_return_def inside_foldl)

theorem writer_run_counts_witness:
  "\<exists>w g. writer_run file_env stored_laz \<lparr>c_data = [], c_pos = 0\<rparr> (file_header False)
       [(WritePoint survey_point, Ok ()), (Close, Ok ())] w \<and>
     kind_header (fw_point_writer w) = Ok g \<and> unat (h_number_of_points g) = 1 \<and> fw_closed w"
proof -
  obtain w where w: "writer_run file_env stored_laz \<lparr>c_data = [], c_pos = 0\<rparr> (file_header False)
     [(WritePoint survey_point, Ok ()), (Close, Ok ())] w" using survey_run by blast
  have "point_matches survey_point (h_point_format (file_header False))"
    by (simp add: file_header_def point_matches_def survey_point_def format_1)
  with writer_run_counts [OF w] w show ?thesis by (auto simp: is_closed_def)
qed

text \<open>
  Once a close has succeeded, every further write and every further close is refused with
  the error for closed writers and changes nothing, and dropping the writer does not panic.
\<close>

lemma closed_writer_refuses:
  assumes "writer_run E L c h tr w" "length tr < 2 ^ 64" "is_closed tr"
  shows "writer_write_point L p w = (Err ClosedWriter, w) \<and> writer_close E L w = (Err ClosedWriter, w) \<and>
     writer_drop E L w = Ok ()"
  using writer_run_invariant [OF assms(1,2)] assms(3)
  by (auto simp: open_with_def write_closed close_closed writer_drop_def)

text \<open>A write whose conversion fails: the stream is as before, and the header counts the point.\<close>

lemma write_fails_counted:
  assumes "las_wrote h0 base w ps" "length ps + 1 < 2 ^ 64" "into_raw p (h_transforms h0) = Err e"
  shows "\<exists>w'. las_write_point p w = (Err e, w') \<and> lw_write w' = lw_write w \<and>
     unat (h_number_of_points (lw_header w)) = length ps \<and>
     unat (h_number_of_points (lw_header w')) = length ps + 1"
proof -
  have add: "add_points (clear h0) ps = Ok (lw_header w)" using assms(1) by (simp add: las_wrote_def Let_def)
  have n: "length ps < 2 ^ 64" using assms(2) by simp
  note h = add_points_clear [OF add n]
  from add_point_counts [OF h(1) assms(2), of p] h(2) obtain g where
    g: "add_point (lw_header w) p = Ok g" "counts_points g (ps @ [p])" "clear g = clear h0" by auto
  have "las_write_point p w = (Err e, w\<lparr>lw_header := g\<rparr>)"
    using g(1) clear_fields(2) [OF g(3)] assms(3) by (simp add: las_write_point_def io_defs)
  moreover have "unat (h_number_of_points (lw_header w)) = length ps"
    "unat (h_number_of_points g) = length ps + 1"
    using h(1) g(2) by (simp_all add: counts_points_def)
  ultimately show ?thesis by auto
qed

text \<open>The part of a record that is on the stream when its flags are refused.\<close>

definition record_start :: "raw_point \<Rightarrow> bytes" where
  "record_start raw = to_le 4 (rp_x raw) @ to_le 4 (rp_y raw) @ to_le 4 (rp_z raw) @ to_le 2 (rp_intensity raw)"

lemma length_record_start: "length (record_start raw) = 14"
  by (simp add: record_start_def)

lemma raw_point_write_fails:
  assumes "\<not> is_extended f" "to_two_bytes (rp_flags raw) = Err e" "length (rp_extra_bytes raw) = unat (extra_bytes f)"
  shows "raw_point_write_to f raw c = (Err e, put (record_start raw) c)"
proof -
  have w: "write_u32 v c = (Ok (), put (to_le 4 v) c)" "write_u16 u c = (Ok (), put (to_le 2 u) c)" for v u c
    using prim_writes by (simp_all add: writes_def)
  have "flags_write_to f (rp_flags raw) c = (Err e, c)" for c
    using assms(1,2) by (simp add: flags_write_to_def io_bind_def io_lift_def)
  then show ?thesis using assms(3) by (simp add: raw_point_write_to_def io_bind_def w put_put record_start_def)
qed

text \<open>
  C36. A point that its legacy format cannot represent spoils the file.  The write returns the
  error of the flags, but the header counts the point, and the first fourteen bytes of its
  record are already on the stream, so that every record written later is out of place.
\<close>

theorem failed_write_leaves_bytes:
  assumes "las_wrote h0 base w ps" "length ps + 1 < 2 ^ 64"
    and "into_raw p (h_transforms h0) = Ok raw" "\<not> is_extended (h_point_format h0)"
    and "to_two_bytes (rp_flags raw) = Err e" "length (pt_extra_bytes p) = unat (extra_bytes (h_point_format h0))"
  shows "\<exists>w'. las_write_point p w = (Err e, w') \<and>
     c_data (lw_write w') = c_data (lw_write w) @ record_start raw \<and>
     c_pos (lw_write w') = c_pos (lw_write w) + 14 \<and>
     unat (h_number_of_points (lw_header w)) = length ps \<and>
     unat (h_number_of_points (lw_header w')) = length ps + 1"
proof -
  have add: "add_points (clear h0) ps = Ok (lw_header w)" using assms(1) by (simp add: las_wrote_def Let_def)
  have n: "length ps < 2 ^ 64" using assms(2) by simp
  note h = add_points_clear [OF add n]
  from add_point_counts [OF h(1) assms(2), of p] h(2) obtain g where
    g: "add_point (lw_header w) p = Ok g" "counts_points g (ps @ [p])" "clear g = clear h0" by auto
  note f = clear_fields(1,2) [OF g(3)]
  have ex: "length (rp_extra_bytes raw) = unat (extra_bytes (h_point_format h0))"
    using into_raw_fields(13) [OF assms(3)] assms(6) by simp
  have "las_write_point p w = (Err e, w\<lparr>lw_header := g, lw_write := put (record_start raw) (lw_write w)\<rparr>)"
    using g(1) f assms(3) raw_point_write_fails [OF assms(4,5) ex] by (simp add: las_write_point_def io_defs)
  moreover have "put (record_start raw) (lw_write w) =
      \<lparr>c_data = c_data (lw_write w) @ record_start raw, c_pos = c_pos (lw_write w) + 14\<rparr>"
    using assms(1) by (auto simp: las_wrote_def Let_def put_at_end length_record_start)
  moreover have "unat (h_number_of_points (lw_header w)) = length ps"
    "unat (h_number_of_points g) = length ps + 1"
    using h(1) g(2) by (simp_all add: counts_points_def)
  ultimately show ?thesis by auto
qed

theorem failed_write_leaves_bytes_witness:
  "\<exists>w'. las_write_point (survey_point\<lparr>pt_return_number := 8\<rparr>)
       \<lparr>lw_write = \<lparr>c_data = [], c_pos = 0\<rparr>, lw_header = file_header0 False\<rparr>
     = (Err (ReturnNumber 8 None), w') \<and>
     length (c_data (lw_write w')) = 14 \<and> unat (h_number_of_points (lw_header w')) = 1"
proof -
  let ?w = "\<lparr>lw_write = \<lparr>c_data = [], c_pos = 0\<rparr>, lw_header = file_header0 False\<rparr>"
  let ?p = "survey_point\<lparr>pt_return_number := 8\<rparr>"
  have "clear (file_header0 False) = file_header0 False"
    by (simp add: file_header0_def file_header_def header_default_def clear_def)
  then have w: "las_wrote (file_header0 False) [] ?w []" by (simp add: las_wrote_def)
  have ns: "\<not> 15 < (8 :: u8)" "\<not> 15 < (2 :: u8)" by simp_all
  obtain raw where raw: "into_raw ?p (h_transforms (file_header0 False)) = Ok raw"
    by (simp add: into_raw_def file_header0_fields vector_transform_default_def survey_point_def inverse_samples
        point_flags_def ns)
  have "point_flags ?p = Ok (rp_flags raw)" by (rule into_raw_fields(4) [OF raw])
  note fl = point_flags_attributes(1) [OF this]
  moreover obtain a b c where abc: "rp_flags raw = ThreeByte a b c"
    using into_raw_fields(4) [OF raw, symmetric] by (auto simp: point_flags_def split: if_splits)
  ultimately have e: "to_two_bytes (rp_flags raw) = Err (ReturnNumber 8 None)"
    unfolding abc to_two_bytes.simps three_to_two_bytes_def by (simp del: return_number.simps)
  have "\<not> is_extended (h_point_format (file_header0 False))"
    "length (pt_extra_bytes ?p) = unat (extra_bytes (h_point_format (file_header0 False)))"
    by (simp_all add: file_header0_fields format_1 survey_point_def)
  from failed_write_leaves_bytes [OF w _ raw this(1) e this(2)] show ?thesis by (auto simp: length_record_start)
qed

text \<open>A close that fails because of the header fails again when it is repeated.\<close>

lemma kind_done_at:
  assumes "writer_at L False s w c h" "on_kind (kind_done L) w = (r, w')"
  shows "\<exists>c'. writer_at L False s w' c' h"
  using assms by (cases "fw_point_writer w")
    (auto simp: writer_at_def kind_at_def on_kind_def kind_done_def io_zoom_def split: prod.splits)

lemma close_fails:
  assumes at: "writer_at L False s w c h" and evlrs: "list_all (vlr_ok True) (h_evlrs h)"
    and bad: "\<And>n. header_into_raw E (set_start_of_first_evlr h n) = Err e"
  shows "\<not> is_ok (fst (writer_close E L w))"
proof -
  obtain r w1 where d: "on_kind (kind_done L) w = (r, w1)" by fastforce
  have op: "fw_closed w = False" "fw_start w = s" using at by (auto simp: writer_at_def)
  from kind_done_at [OF at d] obtain c1 where at1: "writer_at L False s w1 c1 h" by blast
  show ?thesis
  proof (cases "is_ok r")
    case True
    then have "on_kind (kind_done L) w = (Ok (), w1)" using d by (cases r) auto
    from writer_close_steps [OF at1 this op evlrs, of E] bad show ?thesis
      by (auto simp: rewrite_header_Err)
  next
    case False
    then show ?thesis
      using op d by (cases r) (simp_all add: writer_close_def io_bind_def [of "on_kind k" for k])
  qed
qed

text \<open>
  C37. When closing fails because the header cannot be represented, the error is not returned to
  the caller of \<^verbatim>\<open>into_inner\<close>: returning it drops the writer, which is not closed, so that it is
  closed once more, fails again, and panics.
\<close>

theorem failed_close_panics:
  assumes "writer_wrote L holds packs sz v s h0 base w ps" "length ps < 2 ^ 64"
    and "add_points (clear h0) ps = Ok h" "list_all (vlr_ok True) (h_evlrs h0)"
    and "\<And>n. header_into_raw E (set_start_of_first_evlr h n) = Err e"
  shows "fst (writer_close E L w) = Err e \<and> writer_into_inner E L w = Panic"
proof -
  from writer_done [OF assms(1)] assms(3) obtain w1 body where
    w1: "on_kind (kind_done L) w = (Ok (), w1)"
      "writer_at L False s w1 \<lparr>c_data = base @ body, c_pos = length (base @ body)\<rparr> h" by auto
  have op: "fw_closed w = False" "fw_start w = s" using assms(1) by (auto simp: writer_wrote_def)
  have ev: "list_all (vlr_ok True) (h_evlrs h)"
    using assms(4) clear_fields(4) [OF add_points_clear(2) [OF assms(3,2)]] by simp
  from writer_close_steps [OF w1(2,1) op ev, of E] assms(5) obtain w2 c2 n where
    w2: "writer_close E L w = (Err e, w2)" "writer_at L False s w2 c2 (set_start_of_first_evlr h n)"
    by (auto simp: rewrite_header_Err)
  have "header_into_raw E (set_start_of_first_evlr (set_start_of_first_evlr h n) m) = Err e" for m
    using assms(5) [of m] by (simp add: set_start_of_first_evlr_def)
  from close_fails [OF w2(2) _ this] ev have "\<not> is_ok (fst (writer_close E L w2))"
    by (simp add: set_start_fields)
  then have "writer_drop E L w2 = Panic"
    using w2(2) by (cases "fst (writer_close E L w2)") (auto simp: writer_drop_def writer_at_def)
  with w2(1) op(1) show ?thesis by (simp add: writer_into_inner_def)
qed

text \<open>Version 1.2 has no place for the number of points with the return number six.\<close>

definition old_header :: "(int \<times> day_of_year, 128 word) header" where
  "old_header = (file_header0 False)\<lparr>h_version := Version 1 2\<rparr>"

definition sixth_return :: point where
  "sixth_return = survey_point\<lparr>pt_return_number := 6\<rparr>"

lemma old_header_fails:
  assumes "h = old_header\<lparr>h_number_of_points := 1, h_number_of_points_by_return := [(6, 1)],
       h_bounds := grow bounds_default sixth_return, h_start_of_first_evlr := x\<rparr>"
  shows "header_into_raw file_env h = Err (ReturnNumber 6 (Some (Version 1 2)))"
proof -
  have v: "h_version h = Version 1 2" "h_point_format h = format_of_id False 1" "h_number_of_points h = 1"
    "h_number_of_points_by_return h = [(6, 1)]" "h_transforms h = vector_transform_default"
    "h_bounds h = grow bounds_default survey_point" "h_padding h = []" "h_vlr_padding h = []" "h_vlrs h = []"
    "h_system_identifier h = [0x6C, 0x61, 0x73, 0x2D, 0x72, 0x73]"
    "h_generating_software h = [0x6C, 0x61, 0x73, 0x2D, 0x72, 0x73, 0x20, 0x30]"
    using assms by (simp_all add: old_header_def file_header0_def file_header_def header_default_def
        file_env_def demo_env_def sixth_return_def grow_def)
  have "header_size h = Ok 227" by (simp add: header_size_def v version_header_size_simps u16_MAX_def)
  moreover from this have "offset_to_point_data h = Ok 227"
    by (simp add: offset_to_point_data_def v u32_MAX_def)
  moreover have "to_writable_u8 True (format_of_id False 1) = Ok 1" "format_len (format_of_id False 1) = Ok 28"
    by (simp_all add: to_writable_u8_def to_u8_def format_1 format_len_def add_if_def checked_add_def)
  moreover have "number_of_points_raw h = Ok 1" "number_of_variable_length_records h = Ok 0"
    by (simp_all add: number_of_points_raw_def number_of_variable_length_records_def v u32_MAX_def)
  moreover have "number_of_points_by_return_raw h = Err (ReturnNumber 6 (Some (Version 1 2)))"
    by (simp add: number_of_points_by_return_raw_def v supports_simps)
  moreover have "\<exists>x. system_identifier_raw h = Ok x" "\<exists>x. generating_software_raw h = Ok x"
    by (simp_all add: system_identifier_raw_def generating_software_raw_def v from_las_str_def)
  moreover have "env_laz file_env" by (simp add: file_env_def)
  ultimately show ?thesis using survey_adapt v(2,5,6) by (auto simp: header_into_raw_def)
qed

theorem failed_close_panics_witness:
  "\<exists>w. fst (writer_close file_env stored_laz w) = Err (ReturnNumber 6 (Some (Version 1 2))) \<and>
     writer_into_inner file_env stored_laz w = Panic"
proof -
  let ?bs = "record_bytes (h_point_format old_header) (h_transforms old_header) sixth_return"
  let ?h = "old_header\<lparr>h_number_of_points := 1, h_number_of_points_by_return := [(6, 1)],
       h_bounds := grow bounds_default sixth_return\<rparr>"
  let ?w = "\<lparr>fw_closed = False, fw_start = 0, fw_point_writer =
     LasWriter \<lparr>lw_write = \<lparr>c_data = ?bs, c_pos = length ?bs\<rparr>, lw_header = ?h\<rparr>\<rparr>"
  have cl: "clear old_header = old_header" "h_evlrs old_header = []"
    "\<not> is_compressed (h_point_format old_header)"
    by (simp_all add: old_header_def file_header0_def file_header_def header_default_def clear_def format_1)
  have add: "add_points (clear old_header) [sixth_return] = Ok ?h"
    unfolding cl(1)
    by (simp add: add_point_def count_return_def checked_add_def old_header_def file_header0_def
        file_header_def header_default_def) (simp add: sixth_return_def)
  then have "writer_wrote stored_laz stored_holds stored_packs (\<lambda>v. v) 28 0 old_header [] ?w [sixth_return]"
    using cl by (simp add: writer_wrote_def kind_wrote_def las_wrote_def)
  moreover have "header_into_raw file_env (set_start_of_first_evlr ?h n) =
      Err (ReturnNumber 6 (Some (Version 1 2)))" for n
    by (rule old_header_fails) (simp add: set_start_of_first_evlr_def)
  ultimately show ?thesis
    using failed_close_panics [OF _ _ add] cl(2) by fastforce
qed

text \<open>
  Adding a laszip record to a header that already has one, as happens when a header that was
  read from a compressed file is used for writing, adds a second one, and the first one stays
  the one that is used: the compressor is set up for the old record, not for the format of the
  header.
\<close>

lemma stale_laszip_record:
  assumes "add_laz_vlr L h = Ok h'" "list_ex (is_laszip_vlr L) (h_vlrs h)"
  shows "laz_vlr L h' = laz_vlr L h \<and>
     length (filter (is_laszip_vlr L) (h_vlrs h')) = length (filter (is_laszip_vlr L) (h_vlrs h)) + 1"
proof -
  obtain v where v: "find (is_laszip_vlr L) (h_vlrs h) = Some v"
    using assms(2) by (cases "find (is_laszip_vlr L) (h_vlrs h)") (auto simp: find_None_iff list_ex_iff)
  obtain d where "h_vlrs h' = h_vlrs h @ [\<lparr>v_user_id = laz_USER_ID L, v_record_id = laz_RECORD_ID L,
      v_description = laz_DESCRIPTION L, v_data = d\<rparr>]"
    using assms(1) by (auto simp: add_laz_vlr_def split: prod.splits)
  then show ?thesis by (simp add: laz_vlr_def find_append v is_laszip_vlr_def)
qed

text \<open>
  The items that a laszip record gets for a point format cover its records, except for the
  waveform data of the formats 4, 5, 9 and 10, for which there is no item: their 29 bytes are
  missing from the records that the compressor expects.
\<close>

lemma laz_items_cover_format:
  assumes "n \<le> 10" "f = (format_of_id b n)\<lparr>extra_bytes := k\<rparr>"
  shows "sum_list (map laz_item_size (laz_items f)) + (if has_waveform f then 29 else 0) = record_len f"
proof -
  have "n \<in> {0, 1, 2, 3, 4, 5, 6, 7, 8, 9, 10}"
  proof -
    have "unat n \<le> 10" using assms(1) by (simp add: word_le_nat_alt)
    moreover have "k \<in> {0, 1, 2, 3, 4, 5, 6, 7, 8, 9, 10}" if "k \<le> 10" for k :: nat using that by (auto simp: numeral_eq_Suc le_Suc_eq)
    ultimately have "unat n \<in> {0, 1, 2, 3, 4, 5, 6, 7, 8, 9, 10}" by blast
    then show ?thesis by (simp add: word_unat_eq_iff)
  qed
  moreover have "(if 0 < k then unat k else 0) = unat k" by (simp add: word_gt_0)
  ultimately show ?thesis
    unfolding assms(2)
    by (elim insertE; (simp add: laz_items_def format_of_id_def TIME_FORMATS_def COLOR_FORMATS_def
        WAVEFORM_FORMATS_def NIR_FORMATS_def record_len_def word_le_nat_alt word_gt_0)?)
qed

end
