(* ===== verification/Float_Error.thy ===== *)
theory Float_Error
  imports Floats
begin

text \<open>
  The rounding of a fraction, for any precision: the result is near the fraction unless it
  overflows, and rounding is monotone.  The proofs follow the way a result is computed: the
  fraction is scaled to an integer significand, rounded, and packed.
\<close>

section \<open>Values\<close>

definition fval :: "fp \<Rightarrow> real" where
  "fval x = (case x of FFin s m e \<Rightarrow> (if s then - 1 else 1) * (real m * 2 powr real_of_int e) | _ \<Rightarrow> 0)"

lemma fval_FFin: "fval (FFin s m e) = (if s then - 1 else 1) * (real m * 2 powr real_of_int e)"
  by (simp add: fval_def)

text \<open>The value of the magnitude bits of a pattern, in units of the least positive number.\<close>

definition mval :: "nat \<Rightarrow> nat \<Rightarrow> nat" where
  "mval mb a = (if a div 2 ^ mb = 0 then a else (2 ^ mb + a mod 2 ^ mb) * 2 ^ (a div 2 ^ mb - 1))"

lemma mval_pack:
  assumes "q \<le> 2 ^ (mb + 1)" "k = 0 \<or> 2 ^ mb \<le> q"
  shows "mval mb (k * 2 ^ mb + q) = q * 2 ^ k"
proof -
  consider "q < 2 ^ mb" | "2 ^ mb \<le> q" "q < 2 * 2 ^ mb" | "q = 2 * 2 ^ mb" using assms(1) by fastforce
  then show ?thesis
  proof cases
    case 1
    then show ?thesis using assms(2) by (simp add: mval_def)
  next
    case 2
    define f where "f = q - 2 ^ mb"
    have "k * 2 ^ mb + q = (k + 1) * 2 ^ mb + f" "f < 2 ^ mb" using 2 by (simp_all add: f_def)
    then have "(k * 2 ^ mb + q) div 2 ^ mb = k + 1" "(k * 2 ^ mb + q) mod 2 ^ mb = f"
      by (simp_all add: div_plus_div_distrib_dvd_left)
    then show ?thesis using 2 by (simp add: mval_def f_def)
  next
    case 3
    then have "k * 2 ^ mb + q = (k + 2) * 2 ^ mb" by simp
    then have "(k * 2 ^ mb + q) div 2 ^ mb = k + 2" "(k * 2 ^ mb + q) mod 2 ^ mb = 0" by simp_all
    then show ?thesis using 3 by (simp add: mval_def)
  qed
qed

lemma mval_Suc: "mval mb a < mval mb (Suc a)"
proof (cases "Suc a mod 2 ^ mb = 0")
  case True
  then obtain k where k: "Suc a = k * 2 ^ mb" by (metis mult.commute mod_0_imp_dvd dvdE)
  then have kp: "0 < k" by (cases k) auto
  define f where "f = (2 :: nat) ^ mb - 1"
  have f: "a = (k - 1) * 2 ^ mb + f" "f < 2 ^ mb" using k kp by (cases k; auto simp: f_def)+
  then have "a div 2 ^ mb = k - 1" "a mod 2 ^ mb = f" by simp_all
  moreover have "Suc a div 2 ^ mb = k" "Suc a mod 2 ^ mb = 0" using k by simp_all
  ultimately have dm: "a div 2 ^ mb = k - 1" "a mod 2 ^ mb = f" "Suc a div 2 ^ mb = k" "Suc a mod 2 ^ mb = 0"
    by simp_all
  show ?thesis
  proof (cases "k = 1")
    case True
    then show ?thesis using dm k by (simp add: mval_def)
  next
    case False
    then obtain j where j: "k = Suc (Suc j)" using kp by (metis One_nat_def gr0_implies_Suc not0_implies_Suc)
    have "(2 ^ mb + f) * 2 ^ j < (2 * 2 ^ mb) * 2 ^ j" using f by (intro mult_less_mono1) simp_all
    then show ?thesis using dm j by (simp add: mval_def)
  qed
next
  case False
  then have "Suc a div 2 ^ mb = a div 2 ^ mb" "Suc a mod 2 ^ mb = Suc (a mod 2 ^ mb)"
    by (simp_all add: div_Suc mod_Suc split: if_splits)
  then show ?thesis by (simp add: mval_def)
qed

lemma mval_less_iff: "mval mb a < mval mb b \<longleftrightarrow> a < b"
  using strict_mono_less [of "mval mb"] mval_Suc by (simp add: strict_mono_Suc_iff)

section \<open>Rounding a fraction\<close>

lemma round_half_even_error:
  assumes "0 < b"
  shows "\<bar>real (round_half_even a b) - real a / real b\<bar> \<le> 1 / 2"
proof -
  let ?q = "a div b" and ?r = "a mod b"
  have "real a = real b * real ?q + real ?r" by (metis mult_div_mod_eq of_nat_add of_nat_mult)
  then have x: "real a / real b = real ?q + real ?r / real b" using assms by (simp add: field_simps)
  have r: "0 \<le> real ?r / real b" "real ?r / real b < 1" using assms by simp_all
  show ?thesis
  proof (cases "2 * ?r < b \<or> (2 * ?r = b \<and> even ?q)")
    case True
    then have "2 * real ?r \<le> real b" by linarith
    then have "real ?r / real b \<le> 1 / 2" using assms by (simp add: field_simps)
    then show ?thesis using True x r by (simp add: round_half_even_def half_even_def)
  next
    case False
    then have "b \<le> 2 * ?r" by auto
    then have "real b \<le> 2 * real ?r" by linarith
    then have "1 / 2 \<le> real ?r / real b" using assms by (simp add: field_simps)
    then show ?thesis using False x r by (auto simp: round_half_even_def half_even_def)
  qed
qed

lemma bit_len_bounds: "0 < n \<Longrightarrow> 2 ^ (bit_len n - 1) \<le> n \<and> n < 2 ^ bit_len n \<and> 0 < bit_len n"
proof (induction n rule: bit_len.induct)
  case (1 n)
  show ?case
  proof (cases "n = 1")
    case True
    then show ?thesis using bit_len_numeral(2) by simp
  next
    case False
    then have h: "0 < n div 2" using "1.prems" by auto
    let ?k = "bit_len (n div 2)"
    have "bit_len n = Suc ?k" using "1.prems" by (subst bit_len.simps) simp
    moreover have ih: "2 ^ (?k - 1) \<le> n div 2" "n div 2 < 2 ^ ?k" "0 < ?k" using "1.IH" [OF _ h] "1.prems" by auto
    moreover have "2 * 2 ^ (?k - 1) = (2 :: nat) ^ ?k" using ih(3) by (simp add: power_eq_if)
    moreover have "2 * (n div 2) \<le> n" "n < 2 * (n div 2) + 2" by simp_all
    ultimately have "2 ^ ?k \<le> n" "n < 2 * 2 ^ ?k" "bit_len n = Suc ?k" by linarith+
    then show ?thesis by simp
  qed
qed

lemma powr_of_nat: "2 powr real n = 2 ^ n"
  by (simp add: powr_realpow)

lemma shift_ratio:
  assumes "0 < d"
  shows "real (shift_num n e) / real (shift_den d e) = real n / real d * 2 powr (- real_of_int e)" "0 < shift_den d e"
proof -
  show "0 < shift_den d e" using assms by (simp add: shift_den_def)
  show "real (shift_num n e) / real (shift_den d e) = real n / real d * 2 powr (- real_of_int e)"
  proof (cases "0 \<le> e")
    case True
    then have "(2 :: real) powr real_of_int e = 2 ^ nat e" using powr_of_nat [of "nat e"] by simp
    then show ?thesis using True by (simp add: shift_num_def shift_den_def powr_minus field_simps)
  next
    case False
    then have "(2 :: real) powr (- real_of_int e) = 2 ^ nat (- e)" using powr_of_nat [of "nat (- e)"] by simp
    then show ?thesis using False by (simp add: shift_num_def shift_den_def)
  qed
qed

text \<open>The exponent that is chosen scales the fraction to a significand of the right size.\<close>

lemma fraction_bounds:
  assumes "0 < n" "0 < d"
  shows "2 powr (real (bit_len n) - real (bit_len d) - 1) \<le> real n / real d"
    "real n / real d < 2 powr (real (bit_len n) - real (bit_len d) + 1)"
proof -
  note bn = bit_len_bounds [OF assms(1)] and bd = bit_len_bounds [OF assms(2)]
  have p: "real (2 ^ k) = 2 powr real k" for k by (simp add: powr_realpow)
  have n: "2 powr (real (bit_len n) - 1) \<le> real n" "real n < 2 powr real (bit_len n)"
    and d: "2 powr (real (bit_len d) - 1) \<le> real d" "real d < 2 powr real (bit_len d)"
    using bn bd by (metis p of_nat_le_iff of_nat_less_iff of_nat_diff of_nat_1 Suc_leI One_nat_def)+
  have "2 powr (real (bit_len n) - real (bit_len d) - 1) = 2 powr (real (bit_len n) - 1) / 2 powr real (bit_len d)"
    by (simp add: algebra_simps flip: powr_diff)
  also have "\<dots> \<le> real n / real d" using n d assms by (intro frac_le) auto
  finally show "2 powr (real (bit_len n) - real (bit_len d) - 1) \<le> real n / real d" .
  have "real n / real d < 2 powr real (bit_len n) / 2 powr (real (bit_len d) - 1)"
    using n d assms by (intro frac_less) auto
  also have "\<dots> = 2 powr (real (bit_len n) - real (bit_len d) + 1)" by (simp add: algebra_simps flip: powr_diff)
  finally show "real n / real d < 2 powr (real (bit_len n) - real (bit_len d) + 1)" .
qed

lemma round_exp_scales:
  fixes n d mb eb :: nat
  assumes "0 < n" "0 < d"
  defines "x \<equiv> real n / real d" and "e \<equiv> round_exp mb eb n d"
  shows "emin mb eb \<le> e" "x * 2 powr (- real_of_int e) < 2 ^ (mb + 1)"
    "e = emin mb eb \<or> 2 ^ mb \<le> x * 2 powr (- real_of_int e)"
proof -
  define e0 where "e0 = max (emin mb eb) (int (bit_len n) - int (bit_len d) - int mb - 1)"
  have e: "e = round_exp_adjust mb n d e0" by (simp add: e_def e0_def round_exp_def)
  have xpos: "0 < x" using assms(1,2) by (simp add: x_def)
  note b = fraction_bounds [OF assms(1,2), folded x_def]
  let ?s = "\<lambda>e. x * 2 powr (- real_of_int e)"
  have half: "?s (e0 + 1) = ?s e0 / 2" by (simp add: powr_diff powr_minus field_simps)
  have sr: "real (shift_num n e0) / real (shift_den d e0) = ?s e0" "0 < shift_den d e0"
    using shift_ratio(1) [OF assms(2), of n e0] shift_ratio(2) [OF assms(2), of e0] by (simp_all add: x_def)
  have adj: "2 ^ (mb + 1) \<le> shift_num n e0 div shift_den d e0 \<longleftrightarrow> 2 ^ (mb + 1) \<le> ?s e0"
  proof -
    have "2 ^ (mb + 1) \<le> shift_num n e0 div shift_den d e0 \<longleftrightarrow> 2 ^ (mb + 1) * shift_den d e0 \<le> shift_num n e0"
      using sr(2) by (simp add: less_eq_div_iff_mult_less_eq)
    also have "\<dots> \<longleftrightarrow> 2 ^ (mb + 1) * real (shift_den d e0) \<le> real (shift_num n e0)"
      by (metis of_nat_le_iff of_nat_mult of_nat_numeral of_nat_power)
    also have "\<dots> \<longleftrightarrow> 2 ^ (mb + 1) \<le> ?s e0" unfolding sr(1) [symmetric] using sr(2) by (simp add: field_simps)
    finally show ?thesis .
  qed
  have up: "?s e0 < 2 ^ (mb + 2)"
  proof -
    have "real (bit_len n) - real (bit_len d) + 1 \<le> real_of_int e0 + real mb + 2" unfolding e0_def by linarith
    then have "x < 2 powr (real_of_int e0 + real (mb + 2))"
      using b(2) by (intro less_le_trans [OF b(2)] powr_mono) simp_all
    then show ?thesis unfolding powr_add powr_of_nat by (simp add: powr_minus field_simps)
  qed
  have low: "2 ^ mb \<le> ?s e0" if "e0 \<noteq> emin mb eb"
  proof -
    have "e0 = int (bit_len n) - int (bit_len d) - int mb - 1" using that unfolding e0_def by linarith
    then have "real_of_int e0 + real mb \<le> real (bit_len n) - real (bit_len d) - 1" by simp
    then have "2 powr (real_of_int e0 + real mb) \<le> x" by (intro order_trans [OF _ b(1)] powr_mono) simp_all
    then show ?thesis unfolding powr_add powr_of_nat by (simp add: powr_minus field_simps)
  qed
  have emin0: "emin mb eb \<le> e0" by (simp add: e0_def)
  show "emin mb eb \<le> e" "?s e < 2 ^ (mb + 1)" "e = emin mb eb \<or> 2 ^ mb \<le> ?s e"
  proof -
    have ee: "e = (if 2 ^ (mb + 1) \<le> ?s e0 then e0 + 1 else e0)" unfolding e round_exp_adjust_def adj ..
    have "?s e = (if 2 ^ (mb + 1) \<le> ?s e0 then ?s e0 / 2 else ?s e0)" unfolding ee using half by presburger
    then show "?s e < 2 ^ (mb + 1)" "e = emin mb eb \<or> 2 ^ mb \<le> ?s e" using up low ee by auto
    show "emin mb eb \<le> e" using ee emin0 by simp
  qed
qed

section \<open>The value of a rounded fraction\<close>

lemma mag_less: "a < (2 ^ eb - 1) * 2 ^ mb \<Longrightarrow> a < (2 :: nat) ^ (mb + eb)"
proof -
  have "(2 ^ eb - 1) * 2 ^ mb \<le> (2 :: nat) ^ eb * 2 ^ mb" by (intro mult_le_mono1) simp
  moreover have "(2 :: nat) ^ eb * 2 ^ mb = 2 ^ (mb + eb)" by (simp add: power_add)
  moreover assume "a < (2 ^ eb - 1) * 2 ^ mb"
  ultimately show ?thesis by linarith
qed

lemma decode_pack:
  assumes "a < (2 ^ eb - 1) * 2 ^ mb"
  shows "\<exists>m e. fp_decode mb eb ((if s then 2 ^ (mb + eb) else 0) + a) = FFin s m e \<and>
     real m * 2 powr real_of_int e = real (mval mb a) * 2 powr real_of_int (emin mb eb)"
proof -
  let ?E = "a div 2 ^ mb" and ?f = "a mod 2 ^ mb" and ?b = "(if s then 2 ^ (mb + eb) else 0) + a"
  have E: "?E < 2 ^ eb - 1" using assms by (simp add: less_mult_imp_div_less)
  have a: "a < 2 ^ (mb + eb)" using assms by (rule mag_less)
  have sgn: "?b div 2 ^ (mb + eb) mod 2 = 1 \<longleftrightarrow> s" using a by (cases s) simp_all
  have "(2 :: nat) ^ (mb + eb) = 2 ^ eb * 2 ^ mb" by (simp add: power_add)
  then have f: "?b mod 2 ^ mb = ?f" "?b div 2 ^ mb mod 2 ^ eb = ?E"
    using E by (cases s; simp)+
  have dec: "fp_decode mb eb ?b = fp_fields mb eb s ?E ?f" unfolding fp_decode_def f sgn ..
  show ?thesis
  proof (cases "?E = 0")
    case True
    then have "?f = a" by (metis add_0 div_mult_mod_eq mult_0)
    then show ?thesis using True E by (simp add: dec fp_fields_def mval_def)
  next
    case False
    then have "2 powr real_of_int (emin mb eb + int ?E - 1) = 2 powr real_of_int (emin mb eb) * 2 ^ (?E - 1)"
      by (simp add: powr_of_nat [symmetric] of_nat_diff algebra_simps flip: powr_add)
    then show ?thesis using False E by (simp add: dec fp_fields_def mval_def)
  qed
qed

text \<open>A result: its bit pattern, and that its value is \<open>v\<close>.\<close>

definition packing :: "nat \<Rightarrow> nat \<Rightarrow> bool \<Rightarrow> nat \<Rightarrow> real \<Rightarrow> bool" where
  "packing mb eb s b v \<longleftrightarrow>
     (\<exists>a. b = (if s then 2 ^ (mb + eb) else 0) + a \<and> a < (2 ^ eb - 1) * 2 ^ mb \<and>
          real (mval mb a) * 2 powr real_of_int (emin mb eb) = v)"

lemma packing_decode:
  assumes "packing mb eb s b v"
  shows "\<exists>m e. fp_decode mb eb b = FFin s m e \<and> real m * 2 powr real_of_int e = v"
  using assms decode_pack unfolding packing_def by metis

lemma packing_less: "packing mb eb s b v \<Longrightarrow> b < 2 ^ (mb + eb + 1)"
  using mag_less [of _ eb mb] by (force simp: packing_def)

lemma packing_mag:
  assumes "q \<le> 2 ^ (mb + 1)" "k = 0 \<or> 2 ^ mb \<le> q" "k + 2 < 2 ^ eb - 1"
  shows "packing mb eb s (fp_pack mb eb s (k * 2 ^ mb + q)) (real q * 2 powr (real_of_int (emin mb eb) + real k))"
proof -
  have "k * 2 ^ mb + q \<le> (k + 2) * 2 ^ mb" using assms(1) by simp
  also have "\<dots> < (2 ^ eb - 1) * 2 ^ mb" using assms(3) by (intro mult_less_mono1) simp_all
  finally have "k * 2 ^ mb + q < (2 ^ eb - 1) * 2 ^ mb" .
  then show ?thesis
    unfolding packing_def fp_pack_def
    by (intro exI [of _ "k * 2 ^ mb + q"])
      (simp add: mval_pack [OF assms(1,2)] powr_add powr_of_nat)
qed

text \<open>The significand that is rounded to has the size of the precision.\<close>

lemma significand_bounds:
  fixes n d mb eb :: nat
  assumes "0 < d" "0 < n"
  defines "e \<equiv> round_exp mb eb n d"
  defines "q \<equiv> round_half_even (shift_num n e) (shift_den d e)"
  shows "q \<le> 2 ^ (mb + 1)" "e = emin mb eb \<or> 2 ^ mb \<le> q"
proof -
  let ?s = "real n / real d * 2 powr (- real_of_int e)"
  note sc = round_exp_scales [OF assms(2,1), of mb eb, folded e_def]
  have err: "\<bar>real q - ?s\<bar> \<le> 1 / 2"
    using round_half_even_error [OF shift_ratio(2) [OF assms(1), of e], of "shift_num n e"]
    by (simp add: shift_ratio(1) [OF assms(1)] q_def)
  have "real q < 2 ^ (mb + 1) + 1" using err sc(2) by linarith
  then have "real q < real (2 ^ (mb + 1) + 1)" by simp
  then show "q \<le> 2 ^ (mb + 1)" unfolding of_nat_less_iff by simp
  show "e = emin mb eb \<or> 2 ^ mb \<le> q"
  proof (cases "e = emin mb eb")
    case False
    then have "2 ^ mb < real q + 1" using err sc(3) by linarith
    then have "real (2 ^ mb) < real (q + 1)" by simp
    then show ?thesis unfolding of_nat_less_iff by simp
  qed simp
qed

lemma fp_round_packing:
  fixes n d mb eb K :: nat
  assumes "0 < d" "0 < n" "0 < K" "K + 1 < 2 ^ eb - 1"
    and "real n / real d < 2 powr (real_of_int (emin mb eb) + real mb + real K)"
  defines "e \<equiv> round_exp mb eb n d"
  shows "packing mb eb s (fp_round mb eb s n d)
     (real (round_half_even (shift_num n e) (shift_den d e)) * 2 powr real_of_int e)"
proof -
  let ?x = "real n / real d" and ?q = "round_half_even (shift_num n e) (shift_den d e)"
  note sc = round_exp_scales [OF assms(2,1), of mb eb, folded e_def]
  note q = significand_bounds [OF assms(1,2), of mb eb, folded e_def]
  define k where "k = nat (e - emin mb eb)"
  have k: "real_of_int e = real_of_int (emin mb eb) + real k" using sc(1) by (simp add: k_def)
  have q2: "k = 0 \<or> 2 ^ mb \<le> ?q" using q(2) by (auto simp: k_def)
  have "k < K"
  proof (cases "e = emin mb eb")
    case False
    then have "2 powr real mb \<le> ?x * 2 powr (- real_of_int e)" using sc(3) by (simp add: powr_of_nat)
    also have "\<dots> < 2 powr (real_of_int (emin mb eb) + real mb + real K) * 2 powr (- real_of_int e)"
      using assms(5) by (intro mult_strict_right_mono) simp_all
    also have "\<dots> = 2 powr (real mb + real K - real k)" unfolding k by (simp add: algebra_simps flip: powr_add)
    finally show ?thesis by simp
  qed (use assms(3) in \<open>simp add: k_def\<close>)
  then have "k + 2 < 2 ^ eb - 1" using assms(4) by simp
  from packing_mag [OF q(1) q2 this, of s] show ?thesis
    using assms(2) by (simp add: fp_round_def round_mag_def e_def [symmetric] k_def [symmetric] k)
qed

lemma fp_round_error:
  fixes n d mb eb K :: nat
  assumes "0 < d" "0 < n" "0 < K" "K + 1 < 2 ^ eb - 1"
    and "real n / real d < 2 powr (real_of_int (emin mb eb) + real mb + real K)"
  shows "\<exists>v. packing mb eb s (fp_round mb eb s n d) v \<and>
     \<bar>v - real n / real d\<bar> \<le> real n / real d * 2 powr (- real mb - 1) + 2 powr (real_of_int (emin mb eb) - 1)"
proof -
  define e where "e = round_exp mb eb n d"
  let ?x = "real n / real d" and ?q = "round_half_even (shift_num n e) (shift_den d e)"
  note sc = round_exp_scales [OF assms(2,1), of mb eb, folded e_def]
  have xpos: "0 < ?x" using assms(1,2) by simp
  have "\<bar>real ?q - ?x * 2 powr (- real_of_int e)\<bar> \<le> 1 / 2"
    using round_half_even_error [OF shift_ratio(2) [OF assms(1), of e], of "shift_num n e"]
    by (simp add: shift_ratio(1) [OF assms(1)])
  then have "\<bar>real ?q - ?x * 2 powr (- real_of_int e)\<bar> * 2 powr real_of_int e \<le> 1 / 2 * 2 powr real_of_int e"
    by (intro mult_right_mono) simp_all
  moreover have "real ?q * 2 powr real_of_int e - ?x
      = (real ?q - ?x * 2 powr (- real_of_int e)) * 2 powr real_of_int e"
    by (simp add: left_diff_distrib mult.assoc flip: powr_add)
  ultimately have err: "\<bar>real ?q * 2 powr real_of_int e - ?x\<bar> \<le> 2 powr real_of_int e / 2"
    by (simp only: abs_mult) simp
  have "2 powr real_of_int e / 2 \<le> ?x * 2 powr (- real mb - 1) + 2 powr (real_of_int (emin mb eb) - 1)"
  proof (cases "e = emin mb eb")
    case True
    have "0 \<le> ?x * 2 powr (- real mb - 1)" using xpos by simp
    moreover have "2 powr real_of_int e / 2 = 2 powr (real_of_int e - 1)" by (simp add: powr_diff)
    ultimately show ?thesis using True by simp
  next
    case False
    then have "2 powr real mb \<le> ?x * 2 powr (- real_of_int e)" using sc(3) by (simp add: powr_of_nat)
    then have "2 powr real mb * 2 powr (real_of_int e - real mb - 1)
        \<le> ?x * 2 powr (- real_of_int e) * 2 powr (real_of_int e - real mb - 1)" by (intro mult_right_mono) simp_all
    then have "2 powr (real_of_int e - 1) \<le> ?x * 2 powr (- real mb - 1)"
      by (simp add: mult.assoc flip: powr_add)
    moreover have "2 powr real_of_int e / 2 = 2 powr (real_of_int e - 1)" by (simp add: powr_diff)
    moreover have "0 \<le> 2 powr (real_of_int (emin mb eb) - 1)" by simp
    ultimately show ?thesis by linarith
  qed
  with err have "\<bar>real ?q * 2 powr real_of_int e - ?x\<bar>
      \<le> ?x * 2 powr (- real mb - 1) + 2 powr (real_of_int (emin mb eb) - 1)" by linarith
  with fp_round_packing [OF assms, of s, folded e_def] show ?thesis by blast
qed

section \<open>Monotonicity of rounding\<close>

lemma round_half_even_mono:
  assumes "0 < b" "0 < d" "real a / real b \<le> real c / real d"
  shows "round_half_even a b \<le> round_half_even c d"
proof -
  let ?q = "a div b" and ?p = "c div d" and ?r = "a mod b" and ?t = "c mod d"
  have split: "real k / real l = real (k div l) + real (k mod l) / real l" if "0 < l" for k l
  proof -
    have "real k = real (k div l) * real l + real (k mod l)" by (metis div_mult_mod_eq of_nat_add of_nat_mult)
    then show ?thesis using that by (simp add: field_simps)
  qed
  note x = split [OF assms(1), of a] and y = split [OF assms(2), of c]
  have f: "0 \<le> real ?r / real b" "real ?t / real d < 1" using assms by simp_all
  have "real ?q < real ?p + 1" using assms(3) f unfolding x y by linarith
  then have "?q \<le> ?p" by linarith
  then consider "?q < ?p" | "?q = ?p" by linarith
  then show ?thesis
  proof cases
    case 1
    then show ?thesis by (auto simp: round_half_even_def half_even_def)
  next
    case 2
    have "real ?r / real b \<le> real ?t / real d" using assms(3) 2 unfolding x y by simp
    then have le: "?r * d \<le> ?t * b"
      using assms(1,2) by (simp add: field_simps flip: of_nat_mult)
    have up: "b * d < 2 * (?t * b)" if "b < 2 * ?r"
    proof -
      have "b * d < 2 * ?r * d" using that assms(2) by (rule mult_strict_right_mono)
      then show ?thesis using le by linarith
    qed
    have half: "b * d \<le> 2 * (?t * b)" if "b = 2 * ?r"
    proof -
      have "b * d = 2 * (?r * d)" using that by (metis mult.assoc)
      then show ?thesis using le by linarith
    qed
    have "b < 2 * ?r \<Longrightarrow> d < 2 * ?t" "b = 2 * ?r \<Longrightarrow> d \<le> 2 * ?t"
      using up half assms(1) by (simp_all add: mult.commute [of b] mult.left_commute)
    then show ?thesis using 2 by (auto simp: round_half_even_def half_even_def)
  qed
qed

definition fraction_mag :: "nat \<Rightarrow> nat \<Rightarrow> nat \<Rightarrow> nat \<Rightarrow> nat" where
  "fraction_mag mb eb n d = (if n = 0 then 0 else round_mag mb eb n d (round_exp mb eb n d))"

lemma round_exp_mono:
  assumes "0 < n" "0 < d" "0 < m" "0 < c" "real n / real d \<le> real m / real c"
  shows "round_exp mb eb n d \<le> round_exp mb eb m c"
proof (rule ccontr)
  let ?x = "real n / real d" and ?y = "real m / real c" and ?e = "round_exp mb eb n d" and ?f = "round_exp mb eb m c"
  assume "\<not> ?e \<le> ?f"
  then have ef: "?f + 1 \<le> ?e" by simp
  note sx = round_exp_scales [OF assms(1,2), of mb eb] and sy = round_exp_scales [OF assms(3,4), of mb eb]
  have "?e \<noteq> emin mb eb" using ef sy(1) by simp
  then have "2 ^ mb * 2 \<le> ?x * 2 powr (- real_of_int ?e) * 2" using sx(3) by (intro mult_right_mono) auto
  also have "\<dots> = ?x * 2 powr (1 - real_of_int ?e)" by (simp add: powr_diff powr_minus field_simps)
  also have "\<dots> \<le> ?y * 2 powr (- real_of_int ?f)"
    using assms ef by (intro mult_mono powr_mono) simp_all
  finally show False using sy(2) by simp
qed

lemma fraction_mag_mono:
  assumes "0 < d" "0 < c" "real n / real d \<le> real m / real c"
  shows "fraction_mag mb eb n d \<le> fraction_mag mb eb m c"
proof (cases "n = 0")
  case False
  then have n: "0 < n" by simp
  have "0 < real m / real c" using n assms by (intro less_le_trans [OF _ assms(3)]) simp
  then have m: "0 < m" using assms(2) by (simp add: zero_less_divide_iff)
  let ?e = "round_exp mb eb n d" and ?f = "round_exp mb eb m c"
  let ?q = "round_half_even (shift_num n ?e) (shift_den d ?e)"
    and ?p = "round_half_even (shift_num m ?f) (shift_den c ?f)"
  note qs = significand_bounds [OF assms(1) n, of mb eb] and ps = significand_bounds [OF assms(2) m, of mb eb]
  have em: "emin mb eb \<le> ?e" using round_exp_scales(1) [OF n assms(1)] .
  have le: "?e \<le> ?f" using n m assms by (intro round_exp_mono)
  have "nat (?e - emin mb eb) * 2 ^ mb + ?q \<le> nat (?f - emin mb eb) * 2 ^ mb + ?p"
  proof (cases "?e = ?f")
    case True
    have "real (shift_num n ?e) / real (shift_den d ?e) \<le> real (shift_num m ?f) / real (shift_den c ?f)"
      unfolding True shift_ratio(1) [OF assms(1)] shift_ratio(1) [OF assms(2)]
      using assms(3) by (intro mult_right_mono) simp_all
    then show ?thesis using True shift_ratio(2) assms(1,2) by (simp add: round_half_even_mono)
  next
    case False
    then have k: "nat (?e - emin mb eb) + 1 \<le> nat (?f - emin mb eb)" "?f \<noteq> emin mb eb" using le em by linarith+
    then have "(nat (?e - emin mb eb) + 1) * 2 ^ mb \<le> nat (?f - emin mb eb) * 2 ^ mb" by (intro mult_le_mono1)
    then show ?thesis using qs(1) ps(2) k(2) by simp
  qed
  then show ?thesis using n m by (simp add: fraction_mag_def round_mag_def)
qed (simp add: fraction_mag_def)

end
