(* ===== verification/Float_Rounding.thy ===== *)
theory Float_Rounding
  imports Float_Error
begin

text \<open>
  The floating-point operations, for any precision, as roundings of the exact real result:
  they are near it, exact on integers, and monotone, with the infinities at the ends of the
  order.  The locale \<open>precision\<close> is what these laws need of the numbers of bits; it is interpreted
  for both types of the language.
\<close>

section \<open>Bit patterns by sign and magnitude\<close>

definition inf_mag :: "nat \<Rightarrow> nat \<Rightarrow> nat" where
  "inf_mag mb eb = (2 ^ eb - 1) * 2 ^ mb"

lemma inf_mag_less: "inf_mag mb eb < 2 ^ (mb + eb)"
proof -
  have "(2 ^ eb - 1) * 2 ^ mb < (2 :: nat) ^ eb * 2 ^ mb" by (intro mult_strict_right_mono) simp_all
  then show ?thesis by (simp add: inf_mag_def power_add mult.commute)
qed

definition pattern :: "nat \<Rightarrow> nat \<Rightarrow> bool \<Rightarrow> nat \<Rightarrow> nat" where
  "pattern mb eb s a = (if s then 2 ^ (mb + eb) else 0) + a"

lemma patternE:
  assumes "b < 2 ^ (mb + eb + 1)"
  obtains s a where "b = pattern mb eb s a" "a < 2 ^ (mb + eb)"
proof
  have "b div 2 ^ (mb + eb) < 2" using assms by (intro less_mult_imp_div_less) simp
  then show "b = pattern mb eb (b div 2 ^ (mb + eb) = 1) (b mod 2 ^ (mb + eb))"
    using div_mult_mod_eq [of b "2 ^ (mb + eb)"] by (auto simp: pattern_def less_2_cases_iff simp del: div_mult_mod_eq)
qed simp

lemma pattern_key:
  assumes "a < 2 ^ (mb + eb)"
  shows "fp_key mb eb (pattern mb eb s a) = signed_nat s a"
    "fp_is_nan mb eb (pattern mb eb s a) \<longleftrightarrow> inf_mag mb eb < a"
  using assms by (cases s; simp add: pattern_def fp_key_def fp_is_nan_def inf_mag_def)+

lemma pattern_decode:
  assumes "a < 2 ^ (mb + eb)"
  shows "a < inf_mag mb eb \<Longrightarrow> \<exists>m e. fp_decode mb eb (pattern mb eb s a) = FFin s m e \<and>
      real m * 2 powr real_of_int e = real (mval mb a) * 2 powr real_of_int (emin mb eb)"
    "a = inf_mag mb eb \<Longrightarrow> fp_decode mb eb (pattern mb eb s a) = FInf s"
    "inf_mag mb eb < a \<Longrightarrow> fp_decode mb eb (pattern mb eb s a) = FNan"
proof -
  show "\<exists>m e. fp_decode mb eb (pattern mb eb s a) = FFin s m e \<and>
      real m * 2 powr real_of_int e = real (mval mb a) * 2 powr real_of_int (emin mb eb)" if "a < inf_mag mb eb"
    unfolding pattern_def using that by (intro decode_pack) (simp add: inf_mag_def)
  have sgn: "pattern mb eb s a div 2 ^ (mb + eb) mod 2 = 1 \<longleftrightarrow> s" using assms by (cases s) (simp_all add: pattern_def)
  have pw: "(2 :: nat) ^ (mb + eb) = 2 ^ eb * 2 ^ mb" by (simp add: power_add)
  have E: "a div 2 ^ mb < 2 ^ eb" using assms pw by (simp add: less_mult_imp_div_less)
  have f: "pattern mb eb s a mod 2 ^ mb = a mod 2 ^ mb" "pattern mb eb s a div 2 ^ mb mod 2 ^ eb = a div 2 ^ mb"
    using E pw by (cases s; simp add: pattern_def)+
  have dec: "fp_decode mb eb (pattern mb eb s a) = fp_fields mb eb s (a div 2 ^ mb) (a mod 2 ^ mb)"
    unfolding fp_decode_def f sgn ..
  show "fp_decode mb eb (pattern mb eb s a) = FInf s" if "a = inf_mag mb eb"
    unfolding dec using that by (simp add: inf_mag_def fp_fields_def)
  show "fp_decode mb eb (pattern mb eb s a) = FNan" if "inf_mag mb eb < a"
  proof -
    have "2 ^ eb - 1 \<le> a div 2 ^ mb" using that by (simp add: inf_mag_def less_eq_div_iff_mult_less_eq)
    then have "a div 2 ^ mb = 2 ^ eb - 1" using E by linarith
    moreover have "a mod 2 ^ mb \<noteq> 0"
      using that calculation div_mult_mod_eq [of a "2 ^ mb"] by (auto simp: inf_mag_def simp del: div_mult_mod_eq)
    ultimately show ?thesis unfolding dec by (simp add: fp_fields_def)
  qed
qed

lemma signed_mval_less:
  "signed_nat s a < signed_nat t b \<longleftrightarrow> signed_nat s (mval mb a) < signed_nat t (mval mb b)"
  using mval_less_iff [of mb a b] mval_less_iff [of mb b a] mval_less_iff [of mb 0 a] mval_less_iff [of mb 0 b]
  by (cases s; cases t) (auto simp: signed_nat_def mval_def [of mb 0])

text \<open>The order on values, with the infinities at its ends; NaNs are not in it.\<close>

fun fp_le :: "fp \<Rightarrow> fp \<Rightarrow> bool" where
  "fp_le FNan y \<longleftrightarrow> False"
| "fp_le x FNan \<longleftrightarrow> False"
| "fp_le (FInf s) (FInf t) \<longleftrightarrow> s \<or> \<not> t"
| "fp_le (FInf s) (FFin t n k) \<longleftrightarrow> s"
| "fp_le (FFin s m e) (FInf t) \<longleftrightarrow> \<not> t"
| "fp_le (FFin s m e) (FFin t n k) \<longleftrightarrow> fval (FFin s m e) \<le> fval (FFin t n k)"

lemma fval_key:
  assumes "real m * 2 powr real_of_int e = real (mval mb a) * 2 powr real_of_int x"
  shows "fval (FFin s m e) = real_of_int (signed_nat s (mval mb a)) * 2 powr real_of_int x"
  using assms by (simp add: fval_FFin signed_nat_def)

section \<open>Operations as roundings of reals\<close>

definition sgnd :: "bool \<Rightarrow> real \<Rightarrow> real" where
  "sgnd s x = (if s then - x else x)"

text \<open>A bit pattern with a finite value, and one that is the rounding of a real.\<close>

definition val_of :: "nat \<Rightarrow> nat \<Rightarrow> nat \<Rightarrow> real \<Rightarrow> bool" where
  "val_of mb eb b x \<longleftrightarrow> (\<exists>s m e. fp_decode mb eb b = FFin s m e \<and> x = fval (FFin s m e))"

definition rounds :: "nat \<Rightarrow> nat \<Rightarrow> nat \<Rightarrow> real \<Rightarrow> bool" where
  "rounds mb eb b x \<longleftrightarrow> (\<exists>s n d. 0 < d \<and> b = fp_round mb eb s n d \<and> x = sgnd s (real n / real d))"

lemma fp_round_pattern: "fp_round mb eb s n d = pattern mb eb s (min (fraction_mag mb eb n d) (inf_mag mb eb))"
  by (simp add: fp_round_def fp_pack_def pattern_def fraction_mag_def inf_mag_def)

lemma scaled_value: "real (m * 2 ^ nat e) / real (2 ^ nat (- e)) = real m * 2 powr real_of_int e"
proof (cases "0 \<le> e")
  case True
  then have "(2 :: real) powr real_of_int e = 2 ^ nat e" using powr_of_nat [of "nat e"] by simp
  then show ?thesis using True by simp
next
  case False
  then have "(2 :: real) powr (- real_of_int e) = 2 ^ nat (- e)" using powr_of_nat [of "nat (- e)"] by simp
  then have "2 powr real_of_int e = 1 / (2 :: real) ^ nat (- e)"
    by (simp add: powr_minus_divide [of 2 "- real_of_int e", simplified])
  then show ?thesis using False by simp
qed

lemma signed_value: "real_of_int v * r = sgnd (if v = 0 then z else v < 0) (real (nat \<bar>v\<bar>) * r)"
  by (simp add: sgnd_def)

lemma rounds_fraction: "0 < d \<Longrightarrow> rounds mb eb (fp_round mb eb s n d) (sgnd s (real n / real d))"
  unfolding rounds_def by blast

lemma rounds_scaled: "rounds mb eb (fp_round_scaled mb eb s m e) (sgnd s (real m * 2 powr real_of_int e))"
  unfolding fp_round_scaled_def scaled_value [symmetric] by (rule rounds_fraction) simp

lemma rounds_mul: "rounds mb eb (fp_mul mb eb (FFin s m e) (FFin t n k)) (fval (FFin s m e) * fval (FFin t n k))"
proof -
  have "fval (FFin s m e) * fval (FFin t n k) = sgnd (s \<noteq> t) (real (m * n) * 2 powr real_of_int (e + k))"
    by (simp add: fval_FFin sgnd_def powr_add)
  then show ?thesis by (simp only: fp_mul.simps rounds_scaled)
qed

lemma rounds_div:
  assumes "n \<noteq> 0"
  shows "rounds mb eb (fp_div mb eb (FFin s m e) (FFin t n k)) (fval (FFin s m e) / fval (FFin t n k))"
proof -
  let ?n = "m * 2 ^ nat (e - k)" and ?d = "n * 2 ^ nat (k - e)"
  have "real ?n / real ?d = real m / real n * (real (1 * 2 ^ nat (e - k)) / real (2 ^ nat (- (e - k))))" by simp
  also have "\<dots> = (real m * 2 powr real_of_int e) / (real n * 2 powr real_of_int k)"
    unfolding scaled_value by (simp add: powr_diff)
  finally have "fval (FFin s m e) / fval (FFin t n k) = sgnd (s \<noteq> t) (real ?n / real ?d)"
    by (simp add: fval_FFin sgnd_def)
  moreover have "rounds mb eb (fp_round mb eb (s \<noteq> t) ?n ?d) (sgnd (s \<noteq> t) (real ?n / real ?d))"
    using assms by (intro rounds_fraction) simp
  ultimately show ?thesis using assms by simp
qed

lemma rounds_add: "rounds mb eb (fp_add mb eb (FFin s m e) (FFin t n k)) (fval (FFin s m e) + fval (FFin t n k))"
proof -
  let ?x = "fval (FFin s m e)" and ?y = "fval (FFin t n k)"
  let ?V = "signed_nat s m * 2 ^ nat (e - k) + signed_nat t n * 2 ^ nat (k - e)"
  consider "m = 0" "n \<noteq> 0" | "n = 0" "m \<noteq> 0" | "m = 0 \<longleftrightarrow> n = 0" by auto
  then show ?thesis
  proof cases
    case 1
    then show ?thesis using rounds_scaled [of mb eb t n k] by (simp add: fval_FFin sgnd_def split: if_splits)
  next
    case 2
    then show ?thesis using rounds_scaled [of mb eb s m e] by (simp add: fval_FFin sgnd_def split: if_splits)
  next
    case 3
    have up: "real_of_int (2 ^ nat (i - j)) * 2 powr real_of_int (min i j) = 2 powr real_of_int i" for i j :: int
    proof (cases "j \<le> i")
      case True
      have "real_of_int (2 ^ nat (i - j)) = 2 powr real_of_int (i - j)" using powr_of_nat [of "nat (i - j)"] True by simp
      then show ?thesis using True by (simp add: min_def flip: powr_add)
    qed (simp add: min_def)
    have sn: "real_of_int (signed_nat r l) * 2 powr real_of_int j = fval (FFin r l j)" for r l j
      by (simp add: signed_nat_def fval_FFin)
    have V: "real_of_int ?V * 2 powr real_of_int (min e k) = ?x + ?y"
      using up [of e k] up [of k e] unfolding of_int_add of_int_mult distrib_right mult.assoc
      by (simp add: min.commute [of k e] flip: sn)
    have "rounds mb eb (fp_round_signed mb eb (s \<and> t) ?V (min e k)) (real_of_int ?V * 2 powr real_of_int (min e k))"
      unfolding fp_round_signed_def signed_value [of ?V _ "s \<and> t"] by (rule rounds_scaled)
    then show ?thesis using 3 unfolding V by auto
  qed
qed

lemma fval_neg: "fval (fp_neg x) = - fval x"
  by (cases x) (simp_all add: fval_def)

lemma rounds_int: "rounds mb eb (fp_of_int mb eb v) (real_of_int v)"
proof -
  have "real_of_int v = sgnd (v < 0) (real (nat \<bar>v\<bar>) / real 1)" by (simp add: sgnd_def)
  then show ?thesis unfolding fp_of_int_def by (metis rounds_fraction zero_less_one)
qed

text \<open>Rounding to an integer rounds an integer that is near the value, below it or above it.\<close>

definition integer_near :: "rounding_mode \<Rightarrow> real \<Rightarrow> int \<Rightarrow> bool" where
  "integer_near r x v \<longleftrightarrow>
     (case r of Round \<Rightarrow> \<bar>real_of_int v - x\<bar> \<le> 1 / 2 | Floor \<Rightarrow> real_of_int v \<le> x | Ceil \<Rightarrow> x \<le> real_of_int v)"

lemma fraction_split:
  assumes "0 < d"
  shows "real m / real d = real (m div d) + real (m mod d) / real d"
    "0 \<le> real (m mod d) / real d" "real (m mod d) / real d < 1"
    "real (m mod d) / real d \<le> 1 / 2 \<longleftrightarrow> 2 * (m mod d) \<le> d" "1 / 2 \<le> real (m mod d) / real d \<longleftrightarrow> d \<le> 2 * (m mod d)"
proof -
  have "real m = real (m div d) * real d + real (m mod d)" by (metis div_mult_mod_eq of_nat_add of_nat_mult)
  then show "real m / real d = real (m div d) + real (m mod d) / real d" using assms by (simp add: field_simps)
  show "real (m mod d) / real d \<le> 1 / 2 \<longleftrightarrow> 2 * (m mod d) \<le> d" "1 / 2 \<le> real (m mod d) / real d \<longleftrightarrow> d \<le> 2 * (m mod d)"
    using assms by (auto simp: field_simps)
qed (use assms in simp_all)

lemma round_int_mag_near:
  assumes "0 < d"
  shows "integer_near r (sgnd s (real m / real d)) (signed_nat s (round_int_mag r s m d))"
  using fraction_split [OF assms, of m]
  by (cases r; cases s) (auto simp: integer_near_def sgnd_def signed_nat_def round_int_mag_def)

lemma rounds_round_int:
  "\<exists>v. rounds mb eb (fp_round_int mb eb r (FFin s m e)) (real_of_int v) \<and> integer_near r (fval (FFin s m e)) v"
proof (cases "0 \<le> e")
  case True
  have x: "fval (FFin s m e) = real_of_int (signed_nat s (m * 2 ^ nat e))"
    using True scaled_value [of m e] by (auto simp: fval_FFin signed_nat_def)
  have "rounds mb eb (fp_round_scaled mb eb s m e) (fval (FFin s m e))"
    using rounds_scaled [of mb eb s m e] by (simp add: fval_FFin sgnd_def split: if_splits)
  then show ?thesis using True x
    by (intro exI [of _ "signed_nat s (m * 2 ^ nat e)"]) (auto simp: integer_near_def split: rounding_mode.splits)
next
  case False
  let ?N = "round_int_mag r s m (2 ^ nat (- e))"
  have "fval (FFin s m e) = sgnd s (real m / real (2 ^ nat (- e)))"
    using False scaled_value [of m e] by (simp add: fval_FFin sgnd_def)
  then have "integer_near r (fval (FFin s m e)) (signed_nat s ?N)" by (simp only: round_int_mag_near zero_less_power zero_less_numeral)
  moreover have "sgnd s (real ?N / real 1) = real_of_int (signed_nat s ?N)" by (simp add: sgnd_def signed_nat_def)
  ultimately show ?thesis using False rounds_fraction [of 1 mb eb s ?N]
    by (intro exI [of _ "signed_nat s ?N"]) simp
qed

text \<open>Within half a unit in the last place of a normal number, or of the least one.\<close>

definition near_real :: "nat \<Rightarrow> nat \<Rightarrow> real \<Rightarrow> real \<Rightarrow> bool" where
  "near_real mb eb v x \<longleftrightarrow> \<bar>v - x\<bar> \<le> \<bar>x\<bar> * 2 powr (- real mb - 1) + 2 powr (real_of_int (emin mb eb) - 1)"

text \<open>The saturating cast to an integer is monotone.\<close>

lemma trunc_floor: "int (m * 2 ^ nat e div 2 ^ nat (- e)) = \<lfloor>real m * 2 powr real_of_int e\<rfloor>"
  unfolding scaled_value [symmetric] floor_divide_of_nat_eq ..

lemma sgnd_floor_mono:
  assumes "0 \<le> a" "0 \<le> b" "sgnd s a \<le> sgnd t b"
  shows "(if s then - \<lfloor>a\<rfloor> else \<lfloor>a\<rfloor>) \<le> (if t then - \<lfloor>b\<rfloor> else \<lfloor>b\<rfloor>)"
proof (cases "s = t")
  case True
  then show ?thesis using assms(3) by (simp add: sgnd_def floor_mono split: if_splits)
next
  case False
  have "0 \<le> \<lfloor>a\<rfloor>" "0 \<le> \<lfloor>b\<rfloor>" using assms(1,2) by simp_all
  then have "- \<lfloor>a\<rfloor> \<le> \<lfloor>b\<rfloor>" by linarith
  moreover have "a = 0 \<and> b = 0" if "\<not> s" using that False assms by (auto simp: sgnd_def)
  ultimately show ?thesis using False by auto
qed

lemma fp_to_int_mono: "fp_le x y \<Longrightarrow> fp_to_int k x \<le> fp_to_int k y"
proof (cases x; cases y)
  fix s m e t n j
  assume "fp_le x y" and xy: "x = FFin s m e" "y = FFin t n j"
  then have "sgnd s (real m * 2 powr real_of_int e) \<le> sgnd t (real n * 2 powr real_of_int j)"
    by (cases s; cases t) (simp_all add: fval_FFin sgnd_def)
  from sgnd_floor_mono [OF _ _ this] have "(if s then - \<lfloor>real m * 2 powr real_of_int e\<rfloor> else \<lfloor>real m * 2 powr real_of_int e\<rfloor>)
      \<le> (if t then - \<lfloor>real n * 2 powr real_of_int j\<rfloor> else \<lfloor>real n * 2 powr real_of_int j\<rfloor>)" by simp
  then show ?thesis unfolding xy fp_to_int.simps signed_nat_def trunc_floor by (auto simp: saturate_def)
qed (auto simp: saturate_def)

text \<open>The precisions for which the infinities are not zero.\<close>

locale precision =
  fixes mb eb :: nat
  assumes exponent_bits: "2 \<le> eb"
begin

lemma inf_mag_pos: "0 < inf_mag mb eb"
proof -
  have "(2 :: nat) ^ 1 \<le> 2 ^ eb" using exponent_bits by (intro power_increasing) simp_all
  then show ?thesis by (simp add: inf_mag_def)
qed

lemma fp_le_pattern:
  assumes a: "a < 2 ^ (mb + eb)" and c: "c < 2 ^ (mb + eb)"
  shows "fp_le (fp_decode mb eb (pattern mb eb s a)) (fp_decode mb eb (pattern mb eb t c)) \<longleftrightarrow>
    a \<le> inf_mag mb eb \<and> c \<le> inf_mag mb eb \<and> signed_nat s a \<le> signed_nat t c"
proof -
  note da = pattern_decode [OF a, of s] and dc = pattern_decode [OF c, of t]
  consider "inf_mag mb eb < a \<or> inf_mag mb eb < c" | "a = inf_mag mb eb" "c = inf_mag mb eb"
    | "a = inf_mag mb eb" "c < inf_mag mb eb" | "a < inf_mag mb eb" "c = inf_mag mb eb"
    | "a < inf_mag mb eb" "c < inf_mag mb eb" by linarith
  then show ?thesis
  proof cases
    case 1
    then show ?thesis using da(3) dc(3) by (cases "fp_decode mb eb (pattern mb eb s a)") auto
  next
    case 5
    obtain m e n k where m: "fp_decode mb eb (pattern mb eb s a) = FFin s m e"
        "real m * 2 powr real_of_int e = real (mval mb a) * 2 powr real_of_int (emin mb eb)"
      and n: "fp_decode mb eb (pattern mb eb t c) = FFin t n k"
        "real n * 2 powr real_of_int k = real (mval mb c) * 2 powr real_of_int (emin mb eb)"
      using 5 da(1) dc(1) by blast
    have "fval (FFin s m e) \<le> fval (FFin t n k) \<longleftrightarrow> signed_nat s (mval mb a) \<le> signed_nat t (mval mb c)"
      unfolding fval_key [OF m(2)] fval_key [OF n(2)] by (simp add: mult_le_cancel_right)
    then show ?thesis using 5 m(1) n(1) signed_mval_less [of t c s a mb] by (simp add: not_less [symmetric])
  qed (use da dc inf_mag_pos in \<open>auto simp: signed_nat_def\<close>)
qed

lemma fp_le_key:
  assumes "b < 2 ^ (mb + eb + 1)" "c < 2 ^ (mb + eb + 1)"
  shows "fp_le (fp_decode mb eb b) (fp_decode mb eb c) \<longleftrightarrow>
    \<not> fp_is_nan mb eb b \<and> \<not> fp_is_nan mb eb c \<and> fp_key mb eb b \<le> fp_key mb eb c"
proof -
  obtain s a where b: "b = pattern mb eb s a" "a < 2 ^ (mb + eb)" using assms(1) by (rule patternE)
  obtain t d where c: "c = pattern mb eb t d" "d < 2 ^ (mb + eb)" using assms(2) by (rule patternE)
  show ?thesis unfolding b(1) c(1) fp_le_pattern [OF b(2) c(2)] pattern_key [OF b(2)] pattern_key [OF c(2)]
    by (simp add: not_less)
qed

lemma rounds_mono:
  assumes "rounds mb eb b x" "rounds mb eb c y" "x \<le> y"
  shows "fp_le (fp_decode mb eb b) (fp_decode mb eb c)"
proof -
  obtain s n d where b: "0 < d" "b = fp_round mb eb s n d" "x = sgnd s (real n / real d)"
    using assms(1) by (auto simp: rounds_def)
  obtain t m k where c: "0 < k" "c = fp_round mb eb t m k" "y = sgnd t (real m / real k)"
    using assms(2) by (auto simp: rounds_def)
  let ?a = "min (fraction_mag mb eb n d) (inf_mag mb eb)" and ?c = "min (fraction_mag mb eb m k) (inf_mag mb eb)"
  have lt: "?a < 2 ^ (mb + eb)" "?c < 2 ^ (mb + eb)" using inf_mag_less [of mb eb] by linarith+
  have "signed_nat s ?a \<le> signed_nat t ?c"
  proof (cases "s = t")
    case True
    then show ?thesis
      using fraction_mag_mono [OF b(1) c(1), of n m mb eb] fraction_mag_mono [OF c(1) b(1), of m n mb eb] assms(3)
      by (auto simp: b(3) c(3) sgnd_def signed_nat_def min_def split: if_splits)
  next
    case False
    have "0 \<le> real n / real d" "0 \<le> real m / real k" by simp_all
    moreover have "n = 0 \<and> m = 0" if "\<not> s"
    proof -
      have "real n / real d \<le> - (real m / real k)" using assms(3) False that by (simp add: b(3) c(3) sgnd_def)
      with calculation have "real n / real d = 0" "real m / real k = 0" by linarith+
      then show ?thesis using b(1) c(1) by simp
    qed
    ultimately show ?thesis using False by (auto simp: signed_nat_def fraction_mag_def)
  qed
  then show ?thesis unfolding b(2) c(2) fp_round_pattern fp_le_pattern [OF lt] by simp
qed

lemma rounds_less: "rounds mb eb b x \<Longrightarrow> b < 2 ^ (mb + eb + 1)"
  using inf_mag_less [of mb eb] by (auto simp: rounds_def fp_round_pattern pattern_def min_def)

lemma rounds_not_nan: "rounds mb eb b x \<Longrightarrow> fp_decode mb eb b \<noteq> FNan"
  using rounds_mono [of b x b x] by auto

lemma decode_inf: "fp_decode mb eb (fp_inf mb eb s) = FInf s"
  using pattern_decode(2) [OF inf_mag_less [of mb eb] refl, of s]
  by (simp add: fp_inf_def fp_pack_def pattern_def inf_mag_def)

lemma add_mono:
  assumes "fp_le x y"
  shows "fp_le (fp_decode mb eb (fp_add mb eb x (FFin t n k))) (fp_decode mb eb (fp_add mb eb y (FFin t n k)))"
proof (cases x; cases y)
  fix s m e r l j
  assume "x = FFin s m e" "y = FFin r l j"
  then show ?thesis using assms rounds_mono [OF rounds_add rounds_add] by (simp del: fp_add.simps)
next
  fix s r l j
  assume "x = FInf s" "y = FFin r l j"
  then show ?thesis using assms rounds_not_nan [OF rounds_add, of r l j t n k]
    by (cases "fp_decode mb eb (fp_add mb eb (FFin r l j) (FFin t n k))") (simp_all add: decode_inf del: fp_add.simps(6))
next
  fix s m e r
  assume "x = FFin s m e" "y = FInf r"
  then show ?thesis using assms rounds_not_nan [OF rounds_add, of s m e t n k]
    by (cases "fp_decode mb eb (fp_add mb eb (FFin s m e) (FFin t n k))") (simp_all add: decode_inf del: fp_add.simps(6))
qed (use assms in \<open>simp_all add: decode_inf\<close>)

lemma div_mono:
  assumes "fp_le x y" "n \<noteq> 0"
  shows "fp_le (fp_decode mb eb (fp_div mb eb x (FFin False n k))) (fp_decode mb eb (fp_div mb eb y (FFin False n k)))"
proof -
  have pos: "0 < fval (FFin False n k)" using assms(2) by (simp add: fval_FFin)
  note nn = rounds_not_nan [OF rounds_div [OF assms(2)]]
  show ?thesis
  proof (cases x; cases y)
    fix s m e r l j
    assume "x = FFin s m e" "y = FFin r l j"
    then show ?thesis using assms(1) pos rounds_mono [OF rounds_div [OF assms(2)] rounds_div [OF assms(2)]]
      by (simp add: divide_right_mono del: fp_div.simps)
  next
    fix s r l j
    assume "x = FInf s" "y = FFin r l j"
    then show ?thesis using assms nn [of r l j False k]
      by (cases "fp_decode mb eb (fp_div mb eb (FFin r l j) (FFin False n k))") (simp_all add: decode_inf del: fp_div.simps(6))
  next
    fix s m e r
    assume "x = FFin s m e" "y = FInf r"
    then show ?thesis using assms nn [of s m e False k]
      by (cases "fp_decode mb eb (fp_div mb eb (FFin s m e) (FFin False n k))") (simp_all add: decode_inf del: fp_div.simps(6))
  qed (use assms in \<open>simp_all add: decode_inf\<close>)
qed

lemma mul_mono:
  assumes "fval (FFin s m e) \<le> fval (FFin r l j)"
  shows "fp_le (fp_decode mb eb (fp_mul mb eb (FFin False n k) (FFin s m e)))
    (fp_decode mb eb (fp_mul mb eb (FFin False n k) (FFin r l j)))"
  by (rule rounds_mono [OF rounds_mul rounds_mul], intro mult_left_mono assms) (simp add: fval_FFin)

text \<open>Rounding down is below rounding to nearest, which is below rounding up.\<close>

lemma integer_near_mono:
  assumes "integer_near r x v" "integer_near r' y w" "x \<le> y" "(r, r') = (Floor, Round) \<or> (r, r') = (Round, Ceil)"
  shows "real_of_int v \<le> real_of_int w"
proof -
  have "real_of_int v < real_of_int w + 1"
  proof (cases "r = Floor")
    case True
    then have "real_of_int v \<le> x" "\<bar>real_of_int w - y\<bar> \<le> 1 / 2" using assms by (simp_all add: integer_near_def)
    then show ?thesis using assms(3) by linarith
  next
    case False
    then have "\<bar>real_of_int v - x\<bar> \<le> 1 / 2" "y \<le> real_of_int w" using assms by (auto simp: integer_near_def)
    then show ?thesis using assms(3) by linarith
  qed
  then show ?thesis by simp
qed

lemma round_int_mono:
  assumes "fp_le x y" "(r, r') = (Floor, Round) \<or> (r, r') = (Round, Ceil)"
  shows "fp_le (fp_decode mb eb (fp_round_int mb eb r x)) (fp_decode mb eb (fp_round_int mb eb r' y))"
proof -
  have nn: "fp_decode mb eb (fp_round_int mb eb q (FFin s m e)) \<noteq> FNan" for q s m e
    using rounds_round_int [of mb eb q s m e] rounds_not_nan by blast
  show ?thesis
  proof (cases x; cases y)
    fix s m e t n k
    assume xy: "x = FFin s m e" "y = FFin t n k"
    obtain v w where v: "rounds mb eb (fp_round_int mb eb r (FFin s m e)) (real_of_int v)" "integer_near r (fval (FFin s m e)) v"
      "rounds mb eb (fp_round_int mb eb r' (FFin t n k)) (real_of_int w)" "integer_near r' (fval (FFin t n k)) w"
      using rounds_round_int by meson
    have "fval (FFin s m e) \<le> fval (FFin t n k)" using assms(1) xy by simp
    then show ?thesis unfolding xy by (intro rounds_mono [OF v(1,3)] integer_near_mono [OF v(2,4)] assms(2))
  next
    fix s t n k
    assume "x = FInf s" "y = FFin t n k"
    then show ?thesis using assms(1) nn [of r' t n k]
      by (cases "fp_decode mb eb (fp_round_int mb eb r' (FFin t n k))") (simp_all add: decode_inf del: fp_round_int.simps(3))
  next
    fix s m e t
    assume "x = FFin s m e" "y = FInf t"
    then show ?thesis using assms(1) nn [of r s m e]
      by (cases "fp_decode mb eb (fp_round_int mb eb r (FFin s m e))") (simp_all add: decode_inf del: fp_round_int.simps(3))
  qed (use assms(1) in \<open>simp_all add: decode_inf\<close>)
qed

text \<open>A rounded real is near it as long as it does not overflow, and integers are exact.\<close>

lemma exponent_range:
  defines "K \<equiv> 2 ^ eb - 3"
  shows "0 < K" "K + 1 < (2 :: nat) ^ eb - 1" "emin mb eb \<le> - int mb"
    "real_of_int (emin mb eb) + real mb + real K = 2 ^ (eb - 1) - 1"
proof -
  have p: "(2 :: nat) ^ 2 \<le> 2 ^ eb" "(2 :: int) ^ 1 \<le> 2 ^ (eb - 1)" using exponent_bits by (intro power_increasing; simp)+
  then show "0 < K" "K + 1 < (2 :: nat) ^ eb - 1" "emin mb eb \<le> - int mb" by (simp_all add: K_def emin_def)
  have "(2 :: real) ^ eb = 2 * 2 ^ (eb - 1)" using exponent_bits by (simp flip: power_Suc)
  then show "real_of_int (emin mb eb) + real mb + real K = 2 ^ (eb - 1) - 1"
    using p(1) by (simp add: K_def emin_def of_nat_diff)
qed

lemma rounds_near:
  assumes "rounds mb eb b x" "\<bar>x\<bar> < 2 powr (2 ^ (eb - 1) - 1)"
  shows "\<exists>z. val_of mb eb b z \<and> near_real mb eb z x"
proof -
  obtain s n d where b: "0 < d" "b = fp_round mb eb s n d" "x = sgnd s (real n / real d)"
    using assms(1) by (auto simp: rounds_def)
  have ax: "\<bar>x\<bar> = real n / real d" by (simp add: b(3) sgnd_def)
  note K = exponent_range
  have "\<exists>v. packing mb eb s b v \<and> near_real mb eb v (real n / real d)"
  proof (cases "n = 0")
    case True
    have "packing mb eb s (fp_pack mb eb s (0 * 2 ^ mb + 0)) (real 0 * 2 powr (real_of_int (emin mb eb) + real 0))"
      using K(1,2) by (intro packing_mag) linarith+
    then show ?thesis using True by (auto simp: b(2) fp_round_def near_real_def)
  next
    case False
    then show ?thesis
      using fp_round_error [OF b(1) _ K(1,2), of n mb s] assms(2) ax unfolding b(2) K(4) near_real_def by simp
  qed
  then obtain v where v: "packing mb eb s b v" "near_real mb eb v (real n / real d)" by blast
  from packing_decode [OF v(1)] obtain m e where "fp_decode mb eb b = FFin s m e" "real m * 2 powr real_of_int e = v" by blast
  then have "val_of mb eb b (sgnd s v)" by (auto simp: val_of_def fval_FFin sgnd_def)
  moreover have "near_real mb eb (sgnd s v) x" using v(2) by (auto simp: b(3) near_real_def sgnd_def abs_minus_commute)
  ultimately show ?thesis by blast
qed

lemma rounds_integer:
  assumes "rounds mb eb b (real_of_int v)" "\<bar>v\<bar> < 2 ^ (mb + 1)" "real mb + 1 < 2 ^ (eb - 1) - 1"
  shows "val_of mb eb b (real_of_int v)"
proof -
  obtain s n d where b: "0 < d" "b = fp_round mb eb s n d" "real_of_int v = sgnd s (real n / real d)"
    using assms(1) by (auto simp: rounds_def)
  define N where "N = nat \<bar>v\<bar>"
  have "\<bar>real_of_int v\<bar> = real n / real d" unfolding b(3) by (simp add: sgnd_def)
  then have nd: "real n / real d = real N" by (simp add: N_def)
  then have sN: "sgnd s (real N) = real_of_int v" using b(3) by simp
  have "int N < 2 ^ (mb + 1)" using assms(2) by (simp add: N_def)
  then have "real_of_int (int N) < real_of_int (2 ^ (mb + 1))" by (simp only: of_int_less_iff)
  then have lt: "real N < 2 powr real (mb + 1)" unfolding powr_of_nat by simp
  have "\<exists>u. packing mb eb s b u \<and> u = real N"
  proof (cases "n = 0")
    case True
    have "packing mb eb s (fp_pack mb eb s (0 * 2 ^ mb + 0)) (real 0 * 2 powr (real_of_int (emin mb eb) + real 0))"
      using exponent_range(1,2) by (intro packing_mag) linarith+
    then show ?thesis using True nd by (auto simp: b(2) fp_round_def)
  next
    case False
    define e where "e = round_exp mb eb n d"
    note sc = round_exp_scales [OF _ b(1), of n mb eb, folded e_def]
      and q = shift_ratio(1) [OF b(1), of n e, unfolded nd] shift_ratio(2) [OF b(1), of e]
    have "e \<le> 0"
    proof (rule ccontr)
      assume e: "\<not> e \<le> 0"
      then have "2 powr real mb \<le> real N * 2 powr (- real_of_int e)"
        using sc(3) False exponent_range(3) unfolding powr_of_nat nd by auto
      also have "\<dots> < 2 powr real (mb + 1) * 2 powr (- real_of_int e)" using lt by (intro mult_strict_right_mono) simp_all
      also have "\<dots> = 2 powr (real (mb + 1) - real_of_int e)" by (simp flip: powr_add)
      also have "\<dots> \<le> 2 powr real mb" using e by (intro powr_mono) simp_all
      finally show False by simp
    qed
    then have pe: "(2 :: real) powr (- real_of_int e) = real (2 ^ nat (- e))"
      using powr_of_nat [of "nat (- e)"] by simp
    have "real (shift_num n e) = real (N * 2 ^ nat (- e)) * real (shift_den d e)"
      using q unfolding pe by (simp add: field_simps)
    then have "shift_num n e = N * 2 ^ nat (- e) * shift_den d e" by (metis of_nat_eq_iff of_nat_mult)
    then have "round_half_even (shift_num n e) (shift_den d e) = N * 2 ^ nat (- e)"
      using q(2) by (simp add: round_half_even_def half_even_def)
    moreover have "real (N * 2 ^ nat (- e)) * 2 powr real_of_int e = real N"
      using powr_of_nat [of "nat (- e)"] powr_add [of 2 "- real_of_int e" "real_of_int e"] \<open>e \<le> 0\<close> by simp
    moreover have "real n / real d < 2 powr (real_of_int (emin mb eb) + real mb + real (2 ^ eb - 3))"
      unfolding nd exponent_range(4) using assms(3) by (intro less_trans [OF lt] powr_less_mono) simp_all
    ultimately show ?thesis
      using fp_round_packing [OF b(1) _ exponent_range(1,2), of n mb s, folded e_def] False b(2) by (metis neq0_conv)
  qed
  then obtain m e where "fp_decode mb eb b = FFin s m e" "real m * 2 powr real_of_int e = real N"
    using packing_decode by blast
  then show ?thesis using sN by (auto simp: val_of_def fval_FFin sgnd_def)
qed

lemma val_of_lt:
  assumes "val_of mb eb a x" "val_of mb eb b y" "a < 2 ^ (mb + eb + 1)" "b < 2 ^ (mb + eb + 1)"
  shows "\<not> fp_is_nan mb eb a" "\<not> fp_is_nan mb eb b" "fp_key mb eb a < fp_key mb eb b \<longleftrightarrow> x < y"
proof -
  have le: "fp_le (fp_decode mb eb a) (fp_decode mb eb a)" "fp_le (fp_decode mb eb b) (fp_decode mb eb b)"
    "fp_le (fp_decode mb eb b) (fp_decode mb eb a) \<longleftrightarrow> y \<le> x"
    using assms(1,2) by (auto simp: val_of_def)
  then show n: "\<not> fp_is_nan mb eb a" "\<not> fp_is_nan mb eb b" using fp_le_key assms(3,4) by blast+
  show "fp_key mb eb a < fp_key mb eb b \<longleftrightarrow> x < y" using le(3) n unfolding fp_le_key [OF assms(4,3)] by auto
qed

end

end
