(* ===== verification/Float_Types.thy ===== *)
theory Float_Types
  imports Float_Rounding
begin

text \<open>
  The laws of rounding for the two types of the language, \<^verbatim>\<open>f64\<close> and \<^verbatim>\<open>f32\<close>.
\<close>

interpretation double: precision 52 11
  by unfold_locales simp

interpretation single: precision 23 8
  by unfold_locales simp

section \<open>Double precision\<close>

definition has_val :: "f64 \<Rightarrow> real \<Rightarrow> bool" where
  "has_val a x \<longleftrightarrow> val_of 52 11 (unat a) x"

definition near :: "real \<Rightarrow> real \<Rightarrow> bool" where
  "near v x \<longleftrightarrow> \<bar>v - x\<bar> \<le> \<bar>x\<bar> * 2 powr (- 53) + 2 powr (- 1075)"

definition f64_le :: "f64 \<Rightarrow> f64 \<Rightarrow> bool" where
  "f64_le a b \<longleftrightarrow> fp_le (f64_dec a) (f64_dec b)"

lemma f64_near: "near_real 52 11 = near"
  by (intro ext) (simp add: near_real_def near_def emin_def)

lemma f64_less: "unat (a :: f64) < 2 ^ (52 + 11 + 1)"
  using unsigned_less [of a] by simp

lemma has_valE:
  assumes "has_val a x"
  obtains s m e where "f64_dec a = FFin s m e" "x = fval (FFin s m e)"
  using assms by (auto simp: has_val_def val_of_def f64_dec_def)

lemma f64_unat: "rounds 52 11 b x \<Longrightarrow> unat (word_of_nat b :: f64) = b"
  using double.rounds_less [of b x] by (simp add: unat_of_nat)

lemma f64_round_near:
  assumes "rounds 52 11 b x" "\<bar>x\<bar> < 2 powr 1023"
  shows "\<exists>z. has_val (word_of_nat b) z \<and> near z x"
  using double.rounds_near [OF assms(1)] assms(2) by (simp add: has_val_def f64_near f64_unat [OF assms(1)])

lemma f64_mul_near:
  assumes "has_val a x" "has_val b y" "\<bar>x * y\<bar> < 2 powr 1023"
  shows "\<exists>z. has_val (f64_mul a b) z \<and> near z (x * y)"
  using assms rounds_mul unfolding f64_mul_def by (elim has_valE) (simp only: f64_round_near)

lemma f64_div_near:
  assumes "has_val a x" "has_val b y" "y \<noteq> 0" "\<bar>x / y\<bar> < 2 powr 1023"
  shows "\<exists>z. has_val (f64_div a b) z \<and> near z (x / y)"
proof -
  obtain s m e where a: "f64_dec a = FFin s m e" "x = fval (FFin s m e)" using assms(1) by (rule has_valE)
  obtain t n k where b: "f64_dec b = FFin t n k" "y = fval (FFin t n k)" using assms(2) by (rule has_valE)
  have "n \<noteq> 0" using assms(3) by (auto simp: b(2) fval_FFin)
  from rounds_div [OF this, of 52 11 s m e t k] assms(4) show ?thesis
    unfolding f64_div_def a b by (rule f64_round_near)
qed

lemma f64_add_near:
  assumes "has_val a x" "has_val b y" "\<bar>x + y\<bar> < 2 powr 1023"
  shows "\<exists>z. has_val (f64_add a b) z \<and> near z (x + y)"
  using assms rounds_add unfolding f64_add_def by (elim has_valE) (simp only: f64_round_near)

lemma f64_sub_near:
  assumes "has_val a x" "has_val b y" "\<bar>x - y\<bar> < 2 powr 1023"
  shows "\<exists>z. has_val (f64_sub a b) z \<and> near z (x - y)"
proof -
  obtain s m e where a: "f64_dec a = FFin s m e" "x = fval (FFin s m e)" using assms(1) by (rule has_valE)
  obtain t n k where b: "f64_dec b = FFin t n k" "y = fval (FFin t n k)" using assms(2) by (rule has_valE)
  have "x - y = fval (FFin s m e) + fval (FFin (\<not> t) n k)" by (simp add: a(2) b(2) fval_FFin)
  with rounds_add [of 52 11 s m e "\<not> t" n k] assms(3) show ?thesis
    unfolding f64_sub_def fp_sub_def a(1) b(1) fp_neg.simps by (simp only: f64_round_near)
qed

lemma f64_integer:
  assumes "rounds 52 11 b (real_of_int v)" "\<bar>v\<bar> < 2 ^ 53"
  shows "has_val (word_of_nat b) (real_of_int v)"
  using double.rounds_integer [OF assms(1)] assms(2) by (simp add: has_val_def f64_unat [OF assms(1)])

lemma f64_of_int_val: "\<bar>v\<bar> < 2 ^ 53 \<Longrightarrow> has_val (f64_of_int v) (real_of_int v)"
  unfolding f64_of_int_def by (rule f64_integer [OF rounds_int])

lemma f64_lt_val:
  assumes "has_val a x" "has_val b y"
  shows "f64_lt a b \<longleftrightarrow> x < y"
  using double.val_of_lt [OF assms [unfolded has_val_def] f64_less f64_less]
  by (simp add: f64_lt_def f64_is_nan_def)

lemma f64_to_i32_val:
  assumes "has_val a (real_of_int v)" "- (2 ^ 31) \<le> v" "v < 2 ^ 31"
  shows "f64_to_i32 a = word_of_int v"
proof -
  obtain s m e where a: "f64_dec a = FFin s m e" "real_of_int v = fval (FFin s m e)" using assms(1) by (rule has_valE)
  have "real m * 2 powr real_of_int e = real_of_int \<bar>v\<bar>" unfolding of_int_abs a(2) by (simp add: fval_FFin)
  then have "int (m * 2 ^ nat e div 2 ^ nat (- e)) = \<bar>v\<bar>" unfolding trunc_floor by (simp only: floor_of_int)
  moreover have "if s then real_of_int v \<le> 0 else 0 \<le> real_of_int v"
    unfolding a(2) fval_FFin by (cases s) simp_all
  ultimately have "fp_to_int 32 (f64_dec a) = saturate 32 v"
    unfolding a(1) fp_to_int.simps signed_nat_def by (simp split: if_splits)
  then show ?thesis using assms(2,3) by (simp add: f64_to_i32_def saturate_def)
qed

text \<open>Rounding to nearest recovers an integer from anything that is nearer to it than to another.\<close>

lemma f64_round_int_val:
  assumes "has_val a x" "\<bar>x - real_of_int v\<bar> < 1 / 2" "\<bar>v\<bar> < 2 ^ 53"
  shows "has_val (f64_round_int Round a) (real_of_int v)"
proof -
  obtain s m e where a: "f64_dec a = FFin s m e" "x = fval (FFin s m e)" using assms(1) by (rule has_valE)
  obtain w where w: "rounds 52 11 (fp_round_int 52 11 Round (FFin s m e)) (real_of_int w)" "integer_near Round x w"
    using rounds_round_int a(2) by blast
  have "\<bar>real_of_int w - x\<bar> \<le> 1 / 2" using w(2) by (simp add: integer_near_def)
  then have "\<bar>real_of_int w - real_of_int v\<bar> < 1" using assms(2) by linarith
  then have "w = v" by linarith
  with w(1) assms(3) show ?thesis unfolding f64_round_int_def a(1) by (simp only: f64_integer)
qed

section \<open>The order on double precision numbers\<close>

lemma op_less:
  "fp_nan mb eb < 2 ^ (mb + eb + 1)" "fp_pack mb eb s a < 2 ^ (mb + eb + 1)" "fp_inf mb eb s < 2 ^ (mb + eb + 1)"
  "fp_round mb eb s n d < 2 ^ (mb + eb + 1)" "fp_round_scaled mb eb s n e < 2 ^ (mb + eb + 1)"
  "fp_round_signed mb eb s v e < 2 ^ (mb + eb + 1)"
proof -
  show pk: "fp_pack mb eb s a < 2 ^ (mb + eb + 1)" for s a
    using inf_mag_less [of mb eb] by (auto simp: fp_pack_def inf_mag_def min_def)
  show "fp_inf mb eb s < 2 ^ (mb + eb + 1)" "fp_round mb eb s n d < 2 ^ (mb + eb + 1)"
    "fp_round_scaled mb eb s n e < 2 ^ (mb + eb + 1)" "fp_round_signed mb eb s v e < 2 ^ (mb + eb + 1)"
    unfolding fp_inf_def fp_round_def fp_round_scaled_def fp_round_signed_def by (rule pk)+
  have "(2 :: nat) ^ (mb - 1) \<le> 2 ^ (mb + eb)" by (intro power_increasing) simp_all
  moreover have "fp_nan mb eb = inf_mag mb eb + 2 ^ (mb - 1)" by (simp add: fp_nan_def inf_mag_def)
  moreover have "(2 :: nat) ^ (mb + eb + 1) = 2 ^ (mb + eb) + 2 ^ (mb + eb)" by simp
  ultimately show "fp_nan mb eb < 2 ^ (mb + eb + 1)" using inf_mag_less [of mb eb] by linarith
qed

lemma fp_op_less:
  "fp_add mb eb x y < 2 ^ (mb + eb + 1)" "fp_mul mb eb x y < 2 ^ (mb + eb + 1)" "fp_div mb eb x y < 2 ^ (mb + eb + 1)"
  "fp_round_int mb eb r x < 2 ^ (mb + eb + 1)"
proof -
  define B where "B = (2 :: nat) ^ (mb + eb + 1)"
  note less = op_less [where mb = mb and eb = eb, folded B_def]
  show "fp_add mb eb x y < 2 ^ (mb + eb + 1)" "fp_mul mb eb x y < 2 ^ (mb + eb + 1)" "fp_div mb eb x y < 2 ^ (mb + eb + 1)"
    "fp_round_int mb eb r x < 2 ^ (mb + eb + 1)"
    unfolding B_def [symmetric] by (cases x; cases y; simp add: less)+
qed

lemma f64_dec_word: "b < 2 ^ (52 + 11 + 1) \<Longrightarrow> f64_dec (word_of_nat b) = fp_decode 52 11 b"
  by (simp add: f64_dec_def unat_of_nat)

lemma f64_dec_ops:
  "f64_dec (f64_add a b) = fp_decode 52 11 (fp_add 52 11 (f64_dec a) (f64_dec b))"
  "f64_dec (f64_sub a b) = fp_decode 52 11 (fp_add 52 11 (f64_dec a) (fp_neg (f64_dec b)))"
  "f64_dec (f64_mul a b) = fp_decode 52 11 (fp_mul 52 11 (f64_dec a) (f64_dec b))"
  "f64_dec (f64_div a b) = fp_decode 52 11 (fp_div 52 11 (f64_dec a) (f64_dec b))"
  "f64_dec (f64_round_int r a) = fp_decode 52 11 (fp_round_int 52 11 r (f64_dec a))"
  unfolding f64_add_def f64_sub_def f64_mul_def f64_div_def f64_round_int_def fp_sub_def
  by (rule f64_dec_word, rule fp_op_less)+

lemma f64_add_mono: "f64_le a b \<Longrightarrow> has_val c z \<Longrightarrow> f64_le (f64_add a c) (f64_add b c)"
  by (elim has_valE) (simp only: f64_le_def f64_dec_ops double.add_mono)

lemma f64_sub_mono: "f64_le a b \<Longrightarrow> has_val c z \<Longrightarrow> f64_le (f64_sub a c) (f64_sub b c)"
  by (elim has_valE) (simp only: f64_le_def f64_dec_ops fp_neg.simps double.add_mono)

lemma has_val_posE:
  assumes "has_val c z" "0 < z"
  obtains n k where "f64_dec c = FFin False n k" "n \<noteq> 0"
proof -
  obtain s n k where c: "f64_dec c = FFin s n k" "z = fval (FFin s n k)" using assms(1) by (rule has_valE)
  have "0 \<le> real n * 2 powr real_of_int k" by simp
  moreover have "z = - (real n * 2 powr real_of_int k)" if s using that by (simp add: c(2) fval_FFin)
  ultimately have "\<not> s" using assms(2) by linarith
  moreover have "n \<noteq> 0" using assms(2) by (cases "n = 0") (simp_all add: c(2) fval_FFin)
  ultimately show thesis using c(1) that by simp
qed

lemma f64_div_mono: "f64_le a b \<Longrightarrow> has_val c z \<Longrightarrow> 0 < z \<Longrightarrow> f64_le (f64_div a c) (f64_div b c)"
  unfolding f64_le_def f64_dec_ops using double.div_mono by (metis has_val_posE)

lemma f64_mul_mono:
  "has_val a x \<Longrightarrow> has_val b y \<Longrightarrow> x \<le> y \<Longrightarrow> has_val c z \<Longrightarrow> 0 < z \<Longrightarrow> f64_le (f64_mul c a) (f64_mul c b)"
  by (elim has_val_posE [of c z] has_valE [of a] has_valE [of b]) (simp_all only: f64_le_def f64_dec_ops double.mul_mono)

lemma f64_round_mono:
  "f64_le a b \<Longrightarrow> (r, r') = (Floor, Round) \<or> (r, r') = (Round, Ceil) \<Longrightarrow> f64_le (f64_round_int r a) (f64_round_int r' b)"
  unfolding f64_le_def f64_dec_ops by (rule double.round_int_mono)

lemma f64_to_i32_mono: "f64_le a b \<Longrightarrow> sint (f64_to_i32 a) \<le> sint (f64_to_i32 b)"
proof -
  have r: "- (2 ^ 31) \<le> fp_to_int 32 x \<and> fp_to_int 32 x < 2 ^ 31" for x by (cases x) (simp_all add: saturate_def)
  have "sint (f64_to_i32 a) = fp_to_int 32 (f64_dec a)" for a
    unfolding f64_to_i32_def using r [of "f64_dec a"] by (simp add: sint_sbintrunc' signed_take_bit_int_eq_self)
  moreover assume "f64_le a b"
  ultimately show ?thesis by (simp add: f64_le_def fp_to_int_mono)
qed

lemma f64_le_lt: "f64_le a b \<Longrightarrow> \<not> f64_lt b a"
  unfolding f64_le_def f64_dec_def double.fp_le_key [OF f64_less f64_less] by (simp add: f64_lt_def)

lemma f64_lt_iff: "f64_lt a b \<longleftrightarrow> f64_le a b \<and> \<not> f64_le b a"
  unfolding f64_le_def f64_dec_def double.fp_le_key [OF f64_less f64_less] by (auto simp: f64_lt_def f64_is_nan_def)

lemma f64_not_lt: "\<not> f64_lt b a \<Longrightarrow> \<not> f64_is_nan a \<Longrightarrow> \<not> f64_is_nan b \<Longrightarrow> f64_le a b"
  unfolding f64_le_def f64_dec_def double.fp_le_key [OF f64_less f64_less] by (auto simp: f64_lt_def f64_is_nan_def)

section \<open>Single precision\<close>

definition has_val32 :: "f32 \<Rightarrow> real \<Rightarrow> bool" where
  "has_val32 a x \<longleftrightarrow> val_of 23 8 (unat a) x"

definition near32 :: "real \<Rightarrow> real \<Rightarrow> bool" where
  "near32 v x \<longleftrightarrow> \<bar>v - x\<bar> \<le> \<bar>x\<bar> * 2 powr (- 24) + 2 powr (- 150)"

lemma f32_near: "near_real 23 8 = near32"
  by (intro ext) (simp add: near_real_def near32_def emin_def)

lemma has_val32E:
  assumes "has_val32 a x"
  obtains s m e where "f32_dec a = FFin s m e" "x = fval (FFin s m e)"
  using assms by (auto simp: has_val32_def val_of_def f32_dec_def)

lemma f32_unat: "rounds 23 8 b x \<Longrightarrow> unat (word_of_nat b :: f32) = b"
  using single.rounds_less [of b x] by (simp add: unat_of_nat)

lemma f32_round_near:
  assumes "rounds 23 8 b x" "\<bar>x\<bar> < 2 powr 127"
  shows "\<exists>z. has_val32 (word_of_nat b) z \<and> near32 z x"
  using single.rounds_near [OF assms(1)] assms(2) by (simp add: has_val32_def f32_near f32_unat [OF assms(1)])

lemma f32_mul_near:
  assumes "has_val32 a x" "has_val32 b y" "\<bar>x * y\<bar> < 2 powr 127"
  shows "\<exists>z. has_val32 (f32_mul a b) z \<and> near32 z (x * y)"
  using assms rounds_mul unfolding f32_mul_def by (elim has_val32E) (simp only: f32_round_near)

lemma f32_div_near:
  assumes "has_val32 a x" "has_val32 b y" "y \<noteq> 0" "\<bar>x / y\<bar> < 2 powr 127"
  shows "\<exists>z. has_val32 (f32_div a b) z \<and> near32 z (x / y)"
proof -
  obtain s m e where a: "f32_dec a = FFin s m e" "x = fval (FFin s m e)" using assms(1) by (rule has_val32E)
  obtain t n k where b: "f32_dec b = FFin t n k" "y = fval (FFin t n k)" using assms(2) by (rule has_val32E)
  have "n \<noteq> 0" using assms(3) by (auto simp: b(2) fval_FFin)
  from rounds_div [OF this, of 23 8 s m e t k] assms(4) show ?thesis
    unfolding f32_div_def a b by (rule f32_round_near)
qed

lemma f32_of_int_val:
  assumes "\<bar>v\<bar> < 2 ^ 24"
  shows "has_val32 (f32_of_int v) (real_of_int v)"
  using single.rounds_integer [OF rounds_int [of 23 8 v]] assms
  by (simp add: has_val32_def f32_of_int_def f32_unat [OF rounds_int])

text \<open>The cast drops the fraction.\<close>

lemma trunc_signed:
  "0 \<le> u \<Longrightarrow> x = (if s then - u else u) \<Longrightarrow>
   (if s then - \<lfloor>u\<rfloor> else \<lfloor>u\<rfloor>) = (if x < 0 then - \<lfloor>- x\<rfloor> else \<lfloor>x\<rfloor>)" for u x :: real
  by (cases "u = 0"; cases s) auto

lemma f32_to_i16_val:
  assumes "has_val32 a x" "- (2 ^ 15) - 1 < x" "x < 2 ^ 15"
  shows "sint (f32_to_i16 a) = (if x < 0 then - \<lfloor>- x\<rfloor> else \<lfloor>x\<rfloor>)"
proof -
  obtain s m e where a: "f32_dec a = FFin s m e" "x = fval (FFin s m e)" using assms(1) by (rule has_val32E)
  let ?v = "real m * 2 powr real_of_int e"
  have v: "0 \<le> ?v" "x = (if s then - ?v else ?v)" by (simp_all add: a(2) fval_FFin)
  then have t: "signed_nat s (m * 2 ^ nat e div 2 ^ nat (- e)) = (if x < 0 then - \<lfloor>- x\<rfloor> else \<lfloor>x\<rfloor>)"
    unfolding signed_nat_def trunc_floor by (rule trunc_signed)
  have b: "- (2 ^ 15) \<le> (if x < 0 then - \<lfloor>- x\<rfloor> else \<lfloor>x\<rfloor>)" "(if x < 0 then - \<lfloor>- x\<rfloor> else \<lfloor>x\<rfloor>) < (2 ^ 15 :: int)"
    using assms(2,3) by (auto; linarith)+
  have "fp_to_int 16 (f32_dec a) = (if x < 0 then - \<lfloor>- x\<rfloor> else \<lfloor>x\<rfloor>)"
    unfolding a(1) fp_to_int.simps t using b by (simp add: saturate_def)
  then show ?thesis
    unfolding f32_to_i16_def using b by (simp only: sint_sbintrunc' signed_take_bit_int_eq_self) (simp add: signed_take_bit_int_eq_self)
qed

end
