(* ===== verification/Coordinates.thy ===== *)
theory Coordinates
  imports Float_Types Las_Point
begin

text \<open>
  What the floating-point coordinates of a point keep of the integers of a file
  (\<^verbatim>\<open>src/transform.rs\<close>, \<^verbatim>\<open>src/point/mod.rs\<close>): the rounding errors of the four operations
  between an integer and its recovery add up to less than half a step, so a point that was read
  is written again with the same coordinates.
\<close>

section \<open>Quantising a coordinate loses nothing\<close>

lemma near_scaled:
  assumes "near v x" "2 powr - 1000 \<le> \<bar>S\<bar>"
  shows "\<bar>v / S - x / S\<bar> \<le> \<bar>x / S\<bar> / 2 ^ 53 + 1 / 2 ^ 75"
proof -
  have S: "0 < \<bar>S\<bar>" using assms(2) by (rule less_le_trans [rotated]) simp
  have p: "(2 :: real) powr - 75 = 1 / 2 ^ 75" "(2 :: real) powr - 53 = 1 / 2 ^ 53"
    by (simp_all add: powr_minus_divide powr_numeral)
  have "2 powr - 1075 = 2 powr - 75 * (2 :: real) powr - 1000" by (simp flip: powr_add)
  also have "\<dots> \<le> 2 powr - 75 * \<bar>S\<bar>" using assms(2) by (intro mult_left_mono) simp_all
  finally have "2 powr - 1075 / \<bar>S\<bar> \<le> 1 / 2 ^ 75" using S unfolding p by (simp only: pos_divide_le_eq)
  moreover have "\<bar>v / S - x / S\<bar> \<le> (\<bar>x\<bar> * 2 powr - 53 + 2 powr - 1075) / \<bar>S\<bar>"
    using assms(1) S unfolding near_def diff_divide_distrib [symmetric] abs_divide by (intro divide_right_mono) simp_all
  moreover have "(\<bar>x\<bar> * 2 powr - 53 + 2 powr - 1075) / \<bar>S\<bar> = \<bar>x / S\<bar> / 2 ^ 53 + 2 powr - 1075 / \<bar>S\<bar>"
    unfolding p by (simp add: add_divide_distrib abs_divide mult.commute)
  ultimately show ?thesis by linarith
qed

lemma abs_bound: "\<bar>x - y\<bar> \<le> c \<Longrightarrow> \<bar>y\<bar> \<le> d \<Longrightarrow> c + d \<le> k \<Longrightarrow> \<bar>x\<bar> \<le> k" for x y :: real
  by linarith

lemma scaled_finite:
  fixes r S :: real
  assumes "\<bar>r / S\<bar> \<le> 2 ^ 52" "S \<noteq> 0" "\<bar>S\<bar> \<le> 2 powr 900"
  shows "\<bar>r\<bar> < 2 powr 1023"
proof -
  have "\<bar>r\<bar> = \<bar>r / S\<bar> * \<bar>S\<bar>" using assms(2) by simp
  also have "\<dots> \<le> 2 ^ 52 * 2 powr 900" using assms(1,3) by (rule mult_mono) simp_all
  also have "(2 :: real) ^ 52 = 2 powr 52" by (simp add: powr_numeral)
  also have "2 powr 52 * 2 powr 900 = (2 :: real) powr (52 + 900)" by (rule powr_add [symmetric])
  also have "\<dots> < 2 powr 1023" by (rule powr_less_mono) simp_all
  finally show ?thesis .
qed

lemma coordinate_error:
  assumes "has_val (scale t) S" "has_val (offset t) w" "has_val b N" "\<bar>N\<bar> \<le> 2 ^ 31"
    and S: "2 powr - 1000 \<le> \<bar>S\<bar>" "\<bar>S\<bar> \<le> 2 powr 900" and w: "\<bar>w / S\<bar> \<le> 2 ^ 51"
  shows "\<exists>z. has_val (f64_div (f64_sub (f64_add (f64_mul (scale t) b) (offset t)) (offset t)) (scale t)) z \<and>
     \<bar>z - N\<bar> < 1 / 2"
proof -
  have S0: "S \<noteq> 0" using S(1) by (auto simp: not_le)
  note fin = scaled_finite [OF _ S0 S(2)]
  let ?O = "w / S"
  have "\<bar>S * N\<bar> < 2 powr 1023" using assms(4) S0 by (intro fin) simp
  from f64_mul_near [OF assms(1,3) this] obtain a where a: "has_val (f64_mul (scale t) b) a" "near a (S * N)" by blast
  have ae: "\<bar>a / S - N\<bar> \<le> 1 / 2 ^ 20" using near_scaled [OF a(2) S(1)] S0 assms(4) by simp
  from abs_bound [OF this assms(4)] have ab: "\<bar>a / S\<bar> \<le> 2 ^ 32" by simp
  have sum: "(a + w) / S = a / S + ?O" by (rule add_divide_distrib)
  have aw: "\<bar>(a + w) / S\<bar> \<le> 2 ^ 51 + 2 ^ 32" unfolding sum using ab w abs_triangle_ineq [of "a / S" ?O] by linarith
  then have "\<bar>a + w\<bar> < 2 powr 1023" by (intro fin) simp
  from f64_add_near [OF a(1) assms(2) this] obtain x where x: "has_val (f64_add (f64_mul (scale t) b) (offset t)) x" "near x (a + w)"
    by blast
  have xe: "\<bar>x / S - (a / S + ?O)\<bar> \<le> 1 / 4 + 1 / 2 ^ 20"
    using near_scaled [OF x(2) S(1)] aw unfolding sum by simp
  have diff: "(x - w) / S = x / S - ?O" by (rule diff_divide_distrib)
  have xe': "\<bar>(x - w) / S - N\<bar> \<le> 1 / 4 + 2 / 2 ^ 20" using xe ae unfolding diff by linarith
  from abs_bound [OF this assms(4)] have xw: "\<bar>(x - w) / S\<bar> \<le> 2 ^ 32" by simp
  then have "\<bar>x - w\<bar> < 2 powr 1023" by (intro fin) simp
  from f64_sub_near [OF x(1) assms(2) this] obtain y
    where y: "has_val (f64_sub (f64_add (f64_mul (scale t) b) (offset t)) (offset t)) y" "near y (x - w)" by blast
  have ye: "\<bar>y / S - (x - w) / S\<bar> \<le> 1 / 2 ^ 20" using near_scaled [OF y(2) S(1)] xw by simp
  from abs_bound [OF this xw] have yb: "\<bar>y / S\<bar> \<le> 2 ^ 33" by simp
  have yf: "\<bar>y / S\<bar> < 2 powr 1023" by (rule scaled_finite [of _ 1]) (use yb in simp_all)
  from f64_div_near [OF y(1) assms(1) S0 yf] obtain z
    where z: "has_val (f64_div (f64_sub (f64_add (f64_mul (scale t) b) (offset t)) (offset t)) (scale t)) z" "near z (y / S)"
    by blast
  have "2 powr - 1000 \<le> \<bar>1 :: real\<bar>" using powr_mono [of "- 1000" 0 "2 :: real"] by simp
  from near_scaled [OF z(2) this] yb have "\<bar>z - y / S\<bar> \<le> 1 / 20" by simp
  moreover have "\<bar>y / S - (x - w) / S\<bar> \<le> 1 / 20" "\<bar>(x - w) / S - N\<bar> \<le> 3 / 10" using ye xe' by simp_all
  ultimately have "\<bar>z - N\<bar> < 1 / 2" by linarith
  with z(1) show ?thesis by blast
qed

lemma check_i32_range_val:
  assumes "has_val a (real_of_int (sint n))"
  shows "check_i32_range t a = Ok n"
proof -
  have s: "- (2 ^ 31) \<le> sint n" "sint n < 2 ^ 31" using sint_ge [of n] sint_lt [of n] by simp_all
  then have r: "real_of_int (sint n) \<le> real_of_int i32_MAX" "real_of_int i32_MIN \<le> real_of_int (sint n)"
    unfolding of_int_le_iff by (simp_all add: i32_MAX_def i32_MIN_def)
  have m: "has_val (f64_of_int i32_MAX) (real_of_int i32_MAX)" "has_val (f64_of_int i32_MIN) (real_of_int i32_MIN)"
    by (rule f64_of_int_val, simp add: i32_MAX_def i32_MIN_def)+
  have "\<not> f64_lt (f64_of_int i32_MAX) a" "\<not> f64_lt a (f64_of_int i32_MIN)"
    unfolding f64_lt_val [OF m(1) assms] f64_lt_val [OF assms m(2)] not_less by (fact r)+
  then show ?thesis using f64_to_i32_val [OF assms s] by (simp add: check_i32_range_def)
qed

text \<open>
  A transform of which every integer coordinate survives: its numbers are finite, its scale is
  far from the limits of the type, and its offset is at most \<open>2 ^ 51\<close> scale steps from zero.
\<close>

definition keeps_coordinates :: "transform \<Rightarrow> bool" where
  "keeps_coordinates t \<longleftrightarrow> (\<exists>S w. has_val (scale t) S \<and> has_val (offset t) w \<and>
     2 powr - 1000 \<le> \<bar>S\<bar> \<and> \<bar>S\<bar> \<le> 2 powr 900 \<and> \<bar>w / S\<bar> \<le> 2 ^ 51)"

lemma inverse_direct:
  assumes "keeps_coordinates t"
  shows "inverse t (direct t n) = Ok n"
proof -
  obtain S w where t: "has_val (scale t) S" "has_val (offset t) w" "2 powr - 1000 \<le> \<bar>S\<bar>" "\<bar>S\<bar> \<le> 2 powr 900"
    "\<bar>w / S\<bar> \<le> 2 ^ 51" using assms by (auto simp: keeps_coordinates_def)
  have s: "- (2 ^ 31) \<le> sint n" "sint n < 2 ^ 31" using sint_ge [of n] sint_lt [of n] by simp_all
  then have v: "has_val (f64_of_int (sint n)) (real_of_int (sint n))" by (intro f64_of_int_val) simp
  have "\<bar>real_of_int (sint n)\<bar> \<le> 2 ^ 31" using s unfolding abs_le_iff by (simp del: of_int_sint)
  from coordinate_error [OF t(1,2) v this t(3-5)] obtain z
    where "has_val (f64_div (f64_sub (direct t n) (offset t)) (scale t)) z" "\<bar>z - real_of_int (sint n)\<bar> < 1 / 2"
    by (auto simp: direct_def)
  from f64_round_int_val [OF this] s show ?thesis
    by (simp add: inverse_def inverse_with_rounding_mode_def check_i32_range_val)
qed

lemma default_keeps_coordinates: "keeps_coordinates transform_default"
proof -
  define S where "S = (4611686018427388 :: real) * 2 powr - 62"
  have "f64_dec (scale transform_default) = FFin False 4611686018427388 (- 62)"
    "f64_dec (offset transform_default) = FFin False 0 (- 1074)"
    by (simp_all add: transform_default_def fp_eval)
  then have v: "has_val (scale transform_default) S" "has_val (offset transform_default) 0"
    by (auto simp: has_val_def val_of_def f64_dec_def [symmetric] fval_FFin S_def)
  have "(2 :: real) powr - 1000 \<le> 2 powr - 62" by (rule powr_mono) simp_all
  also have "\<dots> \<le> S" unfolding S_def by simp
  finally have low: "2 powr - 1000 \<le> S" .
  have "S \<le> 2 powr 53 * 2 powr - 62" unfolding S_def by (rule mult_right_mono) (simp_all add: powr_numeral)
  also have "\<dots> = 2 powr (53 + - 62)" by (rule powr_add [symmetric])
  also have "\<dots> \<le> 2 powr 900" by (rule powr_mono) simp_all
  finally have "S \<le> 2 powr 900" .
  moreover have "0 \<le> S" by (simp add: S_def)
  ultimately show ?thesis unfolding keeps_coordinates_def using v low
    by (intro exI [of _ S] exI [of _ 0]) simp
qed

lemma decoded_bounds:
  "return_number f \<le> 15" "number_of_returns f \<le> 15" "scanner_channel f \<le> 3"
  by (cases f; simp add: word_le_nat_alt bitfield)+

lemma point_new_fields:
  assumes "point_new raw ts = Ok p"
  shows "valid_classification (pt_classification p)"
    "pt_x p = direct (vx ts) (rp_x raw)" "pt_y p = direct (vy ts) (rp_y raw)" "pt_z p = direct (vz ts) (rp_z raw)"
    "\<exists>g. point_flags p = Ok g"
    "pt_scan_angle p = f32_of_scan_angle (rp_scan_angle raw)"
  using assms point_new_Ok [of raw ts] decoded_bounds [of "rp_flags raw"] 
  by (auto simp: point_new_def Let_def point_flags_def not_less)

section \<open>Coordinates keep their order\<close>

text \<open>A transform with finite numbers and a positive scale.\<close>

definition increasing :: "transform \<Rightarrow> bool" where
  "increasing t \<longleftrightarrow> (\<exists>S w. has_val (scale t) S \<and> 0 < S \<and> has_val (offset t) w)"

lemma direct_mono:
  assumes "increasing t" "sint i \<le> sint j"
  shows "f64_le (direct t i) (direct t j)"
proof -
  obtain S w where t: "has_val (scale t) S" "0 < S" "has_val (offset t) w" using assms(1) by (auto simp: increasing_def)
  have v: "has_val (f64_of_int (sint k)) (real_of_int (sint k))" for k :: i32
    using sint_ge [of k] sint_lt [of k] by (intro f64_of_int_val) simp
  have "real_of_int (sint i) \<le> real_of_int (sint j)" using assms(2) by (simp only: of_int_le_iff)
  from f64_add_mono [OF f64_mul_mono [OF v v this t(1,2)] t(3)] show ?thesis by (simp add: direct_def)
qed

lemma scaled_mono:
  assumes "increasing t" "f64_le v x"
  shows "f64_le (f64_div (f64_sub v (offset t)) (scale t)) (f64_div (f64_sub x (offset t)) (scale t))"
proof -
  obtain S w where "has_val (scale t) S" "0 < S" "has_val (offset t) w" using assms(1) by (auto simp: increasing_def)
  then show ?thesis using assms(2) by (intro f64_div_mono f64_sub_mono)
qed

lemma inverse_mono:
  assumes "increasing t" "f64_le v x" "(r, r') = (Floor, Round) \<or> (r, r') = (Round, Ceil)"
    and "inverse_with_rounding_mode t v r = Ok i" "inverse_with_rounding_mode t x r' = Ok j"
  shows "sint i \<le> sint j"
  using f64_to_i32_mono [OF f64_round_mono [OF scaled_mono [OF assms(1,2)] assms(3)]] assms(4,5)
  by (auto simp: inverse_with_rounding_mode_def check_i32_range_def split: if_splits)

text \<open>An infinite coordinate is not converted.\<close>

lemma inverse_finite:
  assumes "increasing t" "inverse t x = Ok j"
  shows "f64_dec x \<noteq> FInf s"
proof
  assume x: "f64_dec x = FInf s"
  obtain S w where t: "has_val (scale t) S" "0 < S" "has_val (offset t) w" using assms(1) by (auto simp: increasing_def)
  obtain n k where n: "f64_dec (scale t) = FFin False n k" "n \<noteq> 0" using t(1,2) by (rule has_val_posE)
  obtain r m e where m: "f64_dec (offset t) = FFin r m e" using t(3) by (rule has_valE)
  let ?z = "f64_round_int Round (f64_div (f64_sub x (offset t)) (scale t))"
  have z: "f64_dec ?z = FInf s" by (simp add: f64_dec_ops x n m double.decode_inf)
  have v: "has_val (f64_of_int i32_MAX) (real_of_int i32_MAX)" "has_val (f64_of_int i32_MIN) (real_of_int i32_MIN)"
    by (rule f64_of_int_val, simp add: i32_MAX_def i32_MIN_def)+
  have "f64_lt (f64_of_int i32_MAX) ?z \<or> f64_lt ?z (f64_of_int i32_MIN)"
    using v by (cases s) (auto simp: f64_lt_iff f64_le_def z elim!: has_valE)
  then show False using assms(2) by (simp add: inverse_def inverse_with_rounding_mode_def check_i32_range_def)
qed

lemma direct_self: "increasing t \<Longrightarrow> f64_le (direct t j) (direct t j)"
  by (rule direct_mono) simp_all

lemma converted_bound:
  assumes t: "increasing t" and j: "inverse t x = Ok j"
  shows "f64_le v x \<Longrightarrow> inner_convert v t Floor = Ok v' \<Longrightarrow> f64_le v' (direct t j)"
    "f64_le x v \<Longrightarrow> inner_convert v t Ceil = Ok v' \<Longrightarrow> f64_le (direct t j) v'"
proof -
  show "f64_le v' (direct t j)" if v: "f64_le v x" "inner_convert v t Floor = Ok v'"
  proof (cases "f64_is_infinite v")
    case True
    then have "v' = v" "f64_dec v = FInf True"
      using v inverse_finite [OF t j] by (auto simp: inner_convert_def f64_is_infinite_def f64_le_def split: fp.splits)
        (cases "f64_dec x"; auto)+
    then show ?thesis using direct_self [OF t, of j] by (cases "f64_dec (direct t j)") (simp_all add: f64_le_def)
  next
    case False
    then obtain i where i: "inverse_with_rounding_mode t v Floor = Ok i" "v' = direct t i"
      using v(2) by (auto simp: inner_convert_def)
    show ?thesis unfolding i(2) using inverse_mono [OF t v(1) _ i(1)] j by (intro direct_mono t) (simp add: inverse_def)
  qed
  show "f64_le (direct t j) v'" if v: "f64_le x v" "inner_convert v t Ceil = Ok v'"
  proof (cases "f64_is_infinite v")
    case True
    then have "v' = v" "f64_dec v = FInf False"
      using v inverse_finite [OF t j] by (auto simp: inner_convert_def f64_is_infinite_def f64_le_def split: fp.splits)
        (cases "f64_dec x"; auto)+
    then show ?thesis using direct_self [OF t, of j] by (cases "f64_dec (direct t j)") (simp_all add: f64_le_def)
  next
    case False
    then obtain i where i: "inverse_with_rounding_mode t v Ceil = Ok i" "v' = direct t i"
      using v(2) by (auto simp: inner_convert_def)
    show ?thesis unfolding i(2) using inverse_mono [OF t v(1) _ _ i(1)] j by (intro direct_mono t) (simp add: inverse_def)
  qed
qed

section \<open>Properties\<close>

text \<open>
  C6. A point that was read can be written again, and is the same record: the conversion back to
  a raw point succeeds, every integer coordinate is recovered exactly through its floating-point
  value, every other field is kept, and the flags, in the three-byte form that points are
  written from, decode to the same point.  The transforms have finite numbers, a scale far from
  the limits of the type and an offset of at most \<open>2 ^ 51\<close> scale steps.  The scan angle is
  the one that its value in degrees converts to.
\<close>

theorem read_point_rewritten:
  assumes "point_new raw ts = Ok p"
    and "keeps_coordinates (vx ts)" "keeps_coordinates (vy ts)" "keeps_coordinates (vz ts)"
  shows "\<exists>g. into_raw p ts = Ok (raw\<lparr>rp_flags := g, rp_scan_angle := scan_angle_of_f32 (pt_scan_angle p)\<rparr>) \<and>
    point_new (raw\<lparr>rp_flags := g\<rparr>) ts = Ok p"
proof -
  note f = point_new_fields [OF assms(1)]
  obtain g where g: "point_flags p = Ok g" using f(5) by blast
  note a = point_flags_attributes [OF g] and c = point_flags_class [OF g f(1)]
  have "into_raw p ts = Ok (raw\<lparr>rp_flags := g, rp_scan_angle := scan_angle_of_f32 (pt_scan_angle p)\<rparr>)"
    using assms(1) by (auto simp: into_raw_def f(2-4) inverse_direct assms(2-4) g point_new_def Let_def)
  moreover have "point_new (raw\<lparr>rp_flags := g\<rparr>) ts = Ok p"
    using assms(1) a c by (auto simp: point_new_def Let_def)
  ultimately show ?thesis by blast
qed

text \<open>A record of a legacy format, of the overlap class, for the witness.\<close>

definition overlap_record :: raw_point where
  "overlap_record =
     \<lparr>rp_x = 123456, rp_y = - 654321, rp_z = 2147483647, rp_intensity = 42, rp_flags = TwoByte 0x51 0x2C,
      rp_scan_angle = Rank 3, rp_user_data = 0, rp_point_source_id = 7, rp_gps_time = Some 0,
      rp_color = None, rp_waveform = None, rp_nir = None, rp_extra_bytes = []\<rparr>"

theorem read_point_rewritten_witness:
  "\<exists>p g. point_new overlap_record vector_transform_default = Ok p \<and>
     into_raw p vector_transform_default =
       Ok (overlap_record\<lparr>rp_flags := g, rp_scan_angle := scan_angle_of_f32 (pt_scan_angle p)\<rparr>) \<and>
     point_new (overlap_record\<lparr>rp_flags := g\<rparr>) vector_transform_default = Ok p"
proof -
  obtain p where p: "point_new overlap_record vector_transform_default = Ok p"
    using point_new_Ok by blast
  have "keeps_coordinates (vx vector_transform_default)" "keeps_coordinates (vy vector_transform_default)"
    "keeps_coordinates (vz vector_transform_default)"
    by (simp_all add: vector_transform_default_def default_keeps_coordinates)
  from read_point_rewritten [OF p this] p show ?thesis by blast
qed

section \<open>Scan angles\<close>

text \<open>
  The scan angle of the extended formats is not always kept: three units of 0.006 degrees become
  two, because the quotient of the two single-precision numbers is truncated and not rounded.
\<close>

lemma scan_angle_truncated: "scan_angle_of_f32 (f32_of_scan_angle (Scaled 3)) = Scaled 2"
  by (simp add: scan_angle_of_f32_def SCAN_ANGLE_SCALE_FACTOR_def fp_eval)

lemma scale_factor_val:
  "has_val32 SCAN_ANGLE_SCALE_FACTOR (12884902 * 2 powr - 31)"
proof -
  have "f32_dec SCAN_ANGLE_SCALE_FACTOR = FFin False 12884902 (- 31)"
    by (simp add: SCAN_ANGLE_SCALE_FACTOR_def fp_eval)
  then show ?thesis by (auto simp: has_val32_def val_of_def f32_dec_def [symmetric] fval_FFin)
qed

lemma trunc_near:
  fixes x :: real and n :: int
  assumes "\<bar>x - real_of_int n\<bar> < 1"
  shows "(if x < 0 then - \<lfloor>- x\<rfloor> else \<lfloor>x\<rfloor>) \<in> {n, n - sgn n}"
proof -
  consider "n = 0" | "0 < n" | "n < 0" by linarith
  then show ?thesis
  proof cases
    case 1
    then show ?thesis using assms by (auto; linarith)
  next
    case 2
    then have "1 \<le> n" by simp
    then have "0 \<le> x" using assms by linarith
    moreover have "\<lfloor>x\<rfloor> = n \<or> \<lfloor>x\<rfloor> = n - 1" using assms by linarith
    ultimately show ?thesis using 2 by auto
  next
    case 3
    then have "n \<le> - 1" by simp
    then have "x < 0" using assms by linarith
    moreover have "- \<lfloor>- x\<rfloor> = n \<or> - \<lfloor>- x\<rfloor> = n + 1" using assms by linarith
    ultimately show ?thesis using 3 by auto
  qed
qed

lemma angle_error:
  assumes "\<bar>N\<bar> \<le> 2 ^ 15"
    and "has_val32 b N"
  shows "\<exists>z. has_val32 (f32_div (f32_mul b SCAN_ANGLE_SCALE_FACTOR) SCAN_ANGLE_SCALE_FACTOR) z \<and> \<bar>z - N\<bar> \<le> 1 / 100"
proof -
  define S :: real where "S = 12884902 * 2 powr - 31"
  have p: "(2 :: real) powr - 31 = 1 / 2 ^ 31" by (simp add: powr_minus_divide powr_numeral)
  have S: "1 / 200 \<le> S" "S \<le> 1" unfolding S_def p by simp_all
  note v = scale_factor_val [folded S_def]
  have e: "(2 :: real) powr - 24 = 1 / 2 ^ 24" by (simp add: powr_minus_divide powr_numeral)
  have "(2 :: real) powr - 150 \<le> 2 powr - 50" by (rule powr_mono) simp_all
  then have small: "(2 :: real) powr - 150 \<le> 1 / 2 ^ 50" by (simp add: powr_minus_divide powr_numeral)
  have big: "2 ^ 16 < (2 :: real) powr 127" by (simp add: powr_numeral)
  have "\<bar>N * S\<bar> \<le> 2 ^ 16 * 1" unfolding abs_mult using assms(1) S by (intro mult_mono) simp_all
  then have "\<bar>N * S\<bar> < 2 powr 127" using big unfolding mult_1_right by (rule le_less_trans)
  from f32_mul_near [OF assms(2) v this] obtain a
    where a: "has_val32 (f32_mul b SCAN_ANGLE_SCALE_FACTOR) a" "near32 a (N * S)" by blast
  have "\<bar>a - N * S\<bar> \<le> 2 ^ 15 * S / 2 ^ 24 + 1 / 2 ^ 50"
  proof -
    have "\<bar>N * S\<bar> \<le> 2 ^ 15 * S" unfolding abs_mult using assms(1) S by (intro mult_mono) simp_all
    then show ?thesis using a(2) small unfolding near32_def e by simp
  qed
  then have "\<bar>a - N * S\<bar> / S \<le> (2 ^ 15 * S / 2 ^ 24 + 1 / 2 ^ 50) / S" using S by (intro divide_right_mono) simp_all
  moreover have "\<bar>a - N * S\<bar> / S = \<bar>a / S - N\<bar>"
  proof -
    have "a / S - N = (a - N * S) / S" using S by (simp add: field_simps)
    then show ?thesis using S by (simp add: abs_divide)
  qed
  moreover have "(2 ^ 15 * S / 2 ^ 24 + 1 / 2 ^ 50) / S \<le> 1 / 400" using S by (simp add: field_simps)
  ultimately have ae: "\<bar>a / S - N\<bar> \<le> 1 / 400" by linarith
  have ab: "\<bar>a / S\<bar> \<le> 2 ^ 16" by (rule abs_bound [OF ae assms(1)]) simp
  have "\<bar>a / S\<bar> < 2 powr 127" using ab big by (rule le_less_trans)
  from f32_div_near [OF a(1) v _ this] S obtain z
    where z: "has_val32 (f32_div (f32_mul b SCAN_ANGLE_SCALE_FACTOR) SCAN_ANGLE_SCALE_FACTOR) z" "near32 z (a / S)" by auto
  have "\<bar>z - a / S\<bar> \<le> 1 / 250"
  proof -
    have "\<bar>a / S\<bar> * (1 / 2 ^ 24) \<le> 2 ^ 16 * (1 / 2 ^ 24)" by (rule mult_right_mono [OF ab]) simp
    then have "\<bar>z - a / S\<bar> \<le> 2 ^ 16 * (1 / 2 ^ 24) + 1 / 2 ^ 50" using z(2) small unfolding near32_def e by linarith
    then show ?thesis by simp
  qed
  then have "\<bar>z - N\<bar> \<le> 1 / 100" using ae by linarith
  with z(1) show ?thesis by blast
qed

text \<open>
  C16. A scan angle that is read and written again loses at most one unit of 0.006 degrees, and
  never gains one: the angle is kept, or it is one unit nearer to zero.
\<close>

theorem scan_angle_loses_a_unit:
  "\<exists>k. scan_angle_of_f32 (f32_of_scan_angle (Scaled n)) = Scaled k \<and> sint k \<in> {sint n, sint n - sgn (sint n)}"
proof -
  have s: "- (2 ^ 15) \<le> sint n" "sint n < 2 ^ 15" using sint_ge [of n] sint_lt [of n] by simp_all
  then have "has_val32 (f32_of_int (sint n)) (real_of_int (sint n))" by (intro f32_of_int_val) simp
  moreover have "\<bar>real_of_int (sint n)\<bar> \<le> 2 ^ 15" using s unfolding abs_le_iff by (simp del: of_int_sint)
  ultimately obtain z where z: "has_val32 (f32_div (f32_of_scan_angle (Scaled n)) SCAN_ANGLE_SCALE_FACTOR) z"
    "\<bar>z - real_of_int (sint n)\<bar> \<le> 1 / 100" using angle_error by (auto simp del: of_int_sint)
  have "real_of_int (- (2 ^ 15)) \<le> real_of_int (sint n)" "real_of_int (sint n) \<le> real_of_int (2 ^ 15 - 1)"
    unfolding of_int_le_iff using s by simp_all
  then have "- (2 ^ 15) - 1 < z" "z < 2 ^ 15" using z(2) unfolding abs_le_iff by (simp_all del: of_int_sint)
  from f32_to_i16_val [OF z(1) this] trunc_near [of z "sint n"] z(2) show ?thesis
    by (simp add: scan_angle_of_f32_def del: of_int_sint f32_of_scan_angle.simps)
qed

end
