(* ===== verification/File_Bounds.thy ===== *)
theory File_Bounds
  imports Coordinates Whole_File
begin

text \<open>
  The bounding box of a file and its points.  A header grows its box with the coordinates of
  the points that are added (\<^verbatim>\<open>Bounds::grow\<close> of \<^verbatim>\<open>src/bounds.rs\<close>), and stores it rounded outwards to
  the grid of the transforms (\<^verbatim>\<open>Bounds::adapt\<close>), while the points are rounded to the nearest grid
  point.  Every operation between is monotone, so the stored box encloses the stored points.
\<close>

section \<open>Boxes without NaNs\<close>

definition proper_bounds :: "bounds \<Rightarrow> bool" where
  "proper_bounds b \<longleftrightarrow>
     list_all (\<lambda>v. \<not> f64_is_nan (vx v) \<and> \<not> f64_is_nan (vy v) \<and> \<not> f64_is_nan (vz v)) [b_min b, b_max b]"

definition proper_point :: "point \<Rightarrow> bool" where
  "proper_point p \<longleftrightarrow> \<not> f64_is_nan (pt_x p) \<and> \<not> f64_is_nan (pt_y p) \<and> \<not> f64_is_nan (pt_z p)"

lemma f64_lt_proper: "f64_lt a b \<Longrightarrow> \<not> f64_is_nan a \<and> \<not> f64_is_nan b"
  by (simp add: f64_lt_def)

lemma proper_grow: "proper_bounds b \<Longrightarrow> proper_bounds (grow b p)"
  by (auto simp: proper_bounds_def grow_def dest: f64_lt_proper)

lemma proper_default: "proper_bounds bounds_default"
  by (simp add: proper_bounds_def bounds_default_def fp_eval)

lemma proper_foldl: "proper_bounds (foldl grow bounds_default ps)"
  by (induction ps rule: rev_induct) (simp_all add: proper_default proper_grow)

section \<open>The stored box\<close>

lemma adapt_fields:
  assumes "adapt b ts = Ok b'"
  shows "inner_convert (vx (b_min b)) (vx ts) Floor = Ok (vx (b_min b'))"
    "inner_convert (vy (b_min b)) (vy ts) Floor = Ok (vy (b_min b'))"
    "inner_convert (vz (b_min b)) (vz ts) Floor = Ok (vz (b_min b'))"
    "inner_convert (vx (b_max b)) (vx ts) Ceil = Ok (vx (b_max b'))"
    "inner_convert (vy (b_max b)) (vy ts) Ceil = Ok (vy (b_max b'))"
    "inner_convert (vz (b_max b)) (vz ts) Ceil = Ok (vz (b_max b'))"
  using assms by (auto simp: adapt_def)

definition increasing_transforms :: "transform vector \<Rightarrow> bool" where
  "increasing_transforms ts \<longleftrightarrow> increasing (vx ts) \<and> increasing (vy ts) \<and> increasing (vz ts)"

lemma axis_inside:
  assumes "increasing t" "inverse t x = Ok j" "\<not> f64_is_nan x" "\<not> f64_is_nan l" "\<not> f64_is_nan u"
    and "\<not> f64_lt x l" "\<not> f64_lt u x" "inner_convert l t Floor = Ok l'" "inner_convert u t Ceil = Ok u'"
  shows "\<not> f64_lt (direct t j) l'" "\<not> f64_lt u' (direct t j)"
proof -
  note b = converted_bound [OF assms(1,2)]
  show "\<not> f64_lt (direct t j) l'" by (rule f64_le_lt [OF b(1) [OF f64_not_lt [OF assms(6,4,3)] assms(8)]])
  show "\<not> f64_lt u' (direct t j)" by (rule f64_le_lt [OF b(2) [OF f64_not_lt [OF assms(7,3,5)] assms(9)]])
qed

lemma adapt_inside:
  assumes "adapt b ts = Ok b'" "inside b p" "proper_bounds b" "proper_point p" "into_raw p ts = Ok raw"
    and "increasing_transforms ts"
    and "pt_x q = direct (vx ts) (rp_x raw)" "pt_y q = direct (vy ts) (rp_y raw)" "pt_z q = direct (vz ts) (rp_z raw)"
  shows "inside b' q"
proof -
  note a = adapt_fields [OF assms(1)] and r = into_raw_fields(1-3) [OF assms(5)]
  note x = axis_inside [OF _ r(1) _ _ _ _ _ a(1,4)] and y = axis_inside [OF _ r(2) _ _ _ _ _ a(2,5)]
    and z = axis_inside [OF _ r(3) _ _ _ _ _ a(3,6)]
  show ?thesis
    using assms(2-4,6) x y z unfolding inside_def assms(7-9)
    by (simp add: proper_bounds_def proper_point_def increasing_transforms_def inside_def)
qed

lemma through_file_coordinates:
  assumes "into_raw p ts = Ok raw"
  shows "pt_x (through_file f ts p) = direct (vx ts) (rp_x raw)" "pt_y (through_file f ts p) = direct (vy ts) (rp_y raw)"
    "pt_z (through_file f ts p) = direct (vz ts) (rp_z raw)"
  by (simp_all add: through_file_def assms quantised_def)

lemma storable_raw: "storable f ts p \<Longrightarrow> \<exists>raw. into_raw p ts = Ok raw"
  unfolding storable_def using writable_record by metis

section \<open>Properties\<close>

text \<open>
  C4. The bounding box in the header of a written file encloses every point that is read from
  the file.  The points are those that a reader returns, rounded to the grid of the transforms,
  and not only the ones that were handed to the writer.  Scales are positive and no coordinate
  is NaN.
\<close>

theorem stored_bounds_enclose_points:
  assumes "writer_start E L holds packs sz v h h0" "header_into_raw E h0 = Ok raw0"
    and "header_ok E h0" "h_start_of_first_evlr h0 \<noteq> Some 0"
    and "list_all (storable (h_point_format h0) (h_transforms h0)) ps"
    and "\<not> (has_nir (h_point_format h0) \<and> has_waveform (h_point_format h0))"
    and "length ps * record_len (h_point_format h0) < 2 ^ 63"
    and "add_points h0 ps = Ok hn" "header_into_raw E hn = Ok rawn"
    and "increasing_transforms (h_transforms h0)" "list_all proper_point ps"
  shows "\<exists>w0 w1 c. writer_new E L \<lparr>c_data = [], c_pos = 0\<rparr> h = Ok w0 \<and>
     io_each (writer_write_point L) ps w0 = (Ok (), w1) \<and> writer_into_inner E L w1 = Ok c \<and>
     (file_fits raw0 h0 ps c \<longrightarrow>
       (\<exists>r qs. reader_new E L c = Ok r \<and> points_collect L r = map Ok qs \<and> length qs = length ps \<and>
          list_all (inside (h_bounds (reader_header r))) qs))"
proof -
  let ?f = "h_point_format h0" and ?ts = "h_transforms h0"
  from written_file_stands [OF assms(1-9)] obtain w0 w1 c where
    w: "writer_new E L \<lparr>c_data = [], c_pos = 0\<rparr> h = Ok w0"
      "io_each (writer_write_point L) ps w0 = (Ok (), w1)" "writer_into_inner E L w1 = Ok c"
    and r: "file_fits raw0 h0 ps c \<Longrightarrow> \<exists>r. reader_new E L c = Ok r \<and>
       reader_stands L holds r (map (through_file ?f ?ts) ps) 0 \<and> reread_header hn (reader_header r)" by blast
  have n: "length ps < 2 ^ 64"
  proof -
    have "length ps \<le> length ps * record_len ?f" using record_len_pos [of ?f] by simp
    from le_less_trans [OF this assms(7)] show ?thesis by simp
  qed
  have h0: "clear h0 = h0" by (rule writer_start_fields(3) [OF assms(1)])
  have "add_points (clear h0) ps = Ok hn" using assms(8) h0 by simp
  note hn = add_points_clear [OF this n]
  have ins: "list_all (inside (h_bounds hn)) ps" using hn(1) by (simp add: counts_points_def inside_foldl)
  have ts: "h_transforms hn = ?ts" using clear_fields [OF hn(2)] by simp
  have pb: "proper_bounds (h_bounds hn)" using hn(1) by (simp add: counts_points_def proper_foldl)
  have "inside (h_bounds h') (through_file ?f ?ts p)" if "reread_header hn h'" "p \<in> set ps" for h' p
  proof -
    have p: "storable ?f ?ts p" "proper_point p" "inside (h_bounds hn) p"
      using assms(5,11) ins that(2) by (auto simp: list_all_iff)
    obtain raw where raw: "into_raw p ?ts = Ok raw" using storable_raw [OF p(1)] by blast
    have "adapt (h_bounds hn) ?ts = Ok (h_bounds h')" using reread_fields(5) [OF that(1)] ts by simp
    from adapt_inside [OF this p(3) pb p(2) raw assms(10) through_file_coordinates [OF raw]] show ?thesis .
  qed
  then have "list_all (inside (h_bounds h')) (map (through_file ?f ?ts) ps)" if "reread_header hn h'" for h'
    using that by (simp add: list_all_iff)
  moreover have "points_collect L r = map Ok (map (through_file ?f ?ts) ps)"
    if "reader_stands L holds r (map (through_file ?f ?ts) ps) 0" for r
    using points_collect_stands [OF that] by simp
  moreover have "length (map (through_file ?f ?ts) ps) = length ps" by simp
  ultimately show ?thesis using w r by blast
qed

lemma default_increasing: "increasing_transforms vector_transform_default"
proof -
  have "f64_dec (scale transform_default) = FFin False 4611686018427388 (- 62)"
    "f64_dec (offset transform_default) = FFin False 0 (- 1074)"
    by (simp_all add: transform_default_def fp_eval)
  then have "has_val (scale transform_default) (4611686018427388 * 2 powr - 62)" "has_val (offset transform_default) 0"
    by (auto simp: has_val_def val_of_def f64_dec_def [symmetric] fval_FFin)
  moreover have "(0 :: real) < 4611686018427388 * 2 powr - 62" by simp
  ultimately have "increasing transform_default" unfolding increasing_def by blast
  then show ?thesis by (simp add: increasing_transforms_def vector_transform_default_def)
qed

theorem stored_bounds_enclose_points_witness:
  "\<exists>w0 w1 c r q. writer_new file_env stored_laz \<lparr>c_data = [], c_pos = 0\<rparr> (file_header False) = Ok w0 \<and>
     io_each (writer_write_point stored_laz) [survey_point] w0 = (Ok (), w1) \<and>
     writer_into_inner file_env stored_laz w1 = Ok c \<and> reader_new file_env stored_laz c = Ok r \<and>
     points_collect stored_laz r = [Ok q] \<and> inside (h_bounds (reader_header r)) q"
proof -
  let ?h0 = "file_header0 False"
  obtain raw0 where raw0: "header_into_raw file_env ?h0 = Ok raw0" using file_raw0 by blast
  obtain rawn where rawn: "header_into_raw file_env (?h0\<lparr>h_number_of_points := 1,
      h_number_of_points_by_return := [(1, 1)], h_bounds := grow bounds_default survey_point\<rparr>) = Ok rawn"
    using file_raw [OF refl _ survey_adapt] by blast
  have fits: "file_fits raw0 ?h0 [survey_point] c" for c
    using file_size [OF raw0] by (simp add: file_fits_def file_header0_fields format_1 record_len_def)
  have "proper_point survey_point" by (simp add: proper_point_def survey_point_def fp_eval)
  then show ?thesis
    using stored_bounds_enclose_points [OF file_start raw0 file_header_ok _ _ _ _ file_points rawn] survey_storable fits
      default_increasing
    by (auto simp: file_header0_fields format_1 record_len_def length_Suc_conv)
qed

end
