(* ===== verification/Writer_Closing.thy ===== *)
theory Writer_Closing
  imports Writer_Properties File_Bounds
begin

text \<open>
  When a writer can be closed.  An uncompressed writer can be closed in every state whose header
  can still be stored; a point that is out of the range of its transform, although it was
  refused, has grown the box of the header, which then cannot be stored any more.
\<close>

section \<open>Bounds that cannot be stored\<close>

definition finite_point :: "point \<Rightarrow> bool" where
  "finite_point p \<longleftrightarrow>
     \<not> f64_is_infinite (pt_x p) \<and> \<not> f64_is_infinite (pt_y p) \<and> \<not> f64_is_infinite (pt_z p)"

definition out_of_range :: "transform vector \<Rightarrow> point \<Rightarrow> bool" where
  "out_of_range ts p \<longleftrightarrow>
     \<not> is_ok (inverse (vx ts) (pt_x p)) \<or> \<not> is_ok (inverse (vy ts) (pt_y p)) \<or> \<not> is_ok (inverse (vz ts) (pt_z p))"

text \<open>A side of the box is where it started, or a coordinate of a point.\<close>

definition attained :: "point list \<Rightarrow> bounds \<Rightarrow> bool" where
  "attained ps b \<longleftrightarrow>
     vx (b_min b) \<in> insert f64_infinity (pt_x ` set ps) \<and> vy (b_min b) \<in> insert f64_infinity (pt_y ` set ps) \<and>
     vz (b_min b) \<in> insert f64_infinity (pt_z ` set ps) \<and> vx (b_max b) \<in> insert f64_neg_infinity (pt_x ` set ps) \<and>
     vy (b_max b) \<in> insert f64_neg_infinity (pt_y ` set ps) \<and> vz (b_max b) \<in> insert f64_neg_infinity (pt_z ` set ps)"

lemma attained_foldl: "attained ps (foldl grow bounds_default ps)"
proof (induction ps rule: rev_induct)
  case Nil
  then show ?case by (simp add: attained_def bounds_default_def)
next
  case (snoc p ps)
  then show ?case unfolding attained_def grow_def foldl_append foldl.simps set_append
    by (elim conjE, intro conjI; (simp only: bounds.simps vector.simps split: if_split; auto))
qed

lemma infinity_dec: "f64_dec f64_infinity = FInf False" "f64_dec f64_neg_infinity = FInf True"
  by (simp_all add: fp_eval)

lemma f64_lt_le_trans: "f64_lt a b \<Longrightarrow> f64_le b c \<Longrightarrow> f64_lt a c"
  unfolding f64_lt_iff f64_le_def by (cases "f64_dec a"; cases "f64_dec b"; cases "f64_dec c") auto

lemma f64_le_lt_trans: "f64_le a b \<Longrightarrow> f64_lt b c \<Longrightarrow> f64_lt a c"
  unfolding f64_lt_iff f64_le_def by (cases "f64_dec a"; cases "f64_dec b"; cases "f64_dec c") auto

lemma not_infinite_le:
  assumes "\<not> f64_is_infinite x"
  shows "f64_le f64_infinity x \<Longrightarrow> False" "f64_le x f64_neg_infinity \<Longrightarrow> False"
  using assms by (cases "f64_dec x"; simp add: f64_le_def infinity_dec f64_is_infinite_def)+

lemma inverse_not_ok: "\<not> is_ok (inverse t x) \<longleftrightarrow>
    f64_lt (f64_of_int i32_MAX) (f64_round_int Round (f64_div (f64_sub x (offset t)) (scale t))) \<or>
    f64_lt (f64_round_int Round (f64_div (f64_sub x (offset t)) (scale t))) (f64_of_int i32_MIN)"
  by (simp add: inverse_def inverse_with_rounding_mode_def check_i32_range_def)

text \<open>One axis: a coordinate between finite sides that is out of range.\<close>

lemma axis_not_stored:
  assumes t: "increasing t" and x: "\<not> is_ok (inverse t x)" and b: "f64_le l x" "f64_le x u"
    and fin: "\<not> f64_is_infinite l" "\<not> f64_is_infinite u"
  shows "\<not> (is_ok (inner_convert l t Floor) \<and> is_ok (inner_convert u t Ceil))"
proof -
  let ?r = "\<lambda>r x. f64_round_int r (f64_div (f64_sub x (offset t)) (scale t))"
  have m: "f64_le (?r Floor l) (?r Round x)" "f64_le (?r Round x) (?r Ceil u)"
    by (rule f64_round_mono [OF scaled_mono [OF t]], rule b, simp)+
  from x consider "f64_lt (f64_of_int i32_MAX) (?r Round x)" | "f64_lt (?r Round x) (f64_of_int i32_MIN)"
    unfolding inverse_not_ok by blast
  then show ?thesis
  proof cases
    case 1
    then have "f64_lt (f64_of_int i32_MAX) (?r Ceil u)" using m(2) by (rule f64_lt_le_trans)
    then show ?thesis using fin by (simp add: inner_convert_def inverse_with_rounding_mode_def check_i32_range_def)
  next
    case 2
    with m(1) have "f64_lt (?r Floor l) (f64_of_int i32_MIN)" by (rule f64_le_lt_trans)
    then show ?thesis using fin by (simp add: inner_convert_def inverse_with_rounding_mode_def check_i32_range_def)
  qed
qed

lemma side_finite:
  "x \<in> insert f64_infinity (f ` S) \<Longrightarrow> \<forall>p \<in> S. \<not> f64_is_infinite (f p) \<Longrightarrow> f64_le x y \<Longrightarrow> \<not> f64_is_infinite y \<Longrightarrow>
    \<not> f64_is_infinite x"
  "x \<in> insert f64_neg_infinity (f ` S) \<Longrightarrow> \<forall>p \<in> S. \<not> f64_is_infinite (f p) \<Longrightarrow> f64_le y x \<Longrightarrow> \<not> f64_is_infinite y \<Longrightarrow>
    \<not> f64_is_infinite x"
  using not_infinite_le by auto

lemma box_not_stored:
  assumes ts: "increasing_transforms ts" and p: "p \<in> set ps" "out_of_range ts p"
    and ps: "list_all proper_point ps" "list_all finite_point ps"
  shows "\<not> is_ok (adapt (foldl grow bounds_default ps) ts)"
proof
  let ?b = "foldl grow bounds_default ps"
  assume "is_ok (adapt ?b ts)"
  then obtain b' where b': "adapt ?b ts = Ok b'" by (auto simp: is_ok_iff)
  note ad = adapt_fields [OF b']
  have pp: "proper_point p" "finite_point p" and ins: "inside ?b p"
    using p(1) ps inside_foldl [of ps] by (auto simp: list_all_iff)
  note pb = proper_foldl [of ps] and att = attained_foldl [of ps]
  have le: "f64_le (vx (b_min ?b)) (pt_x p)" "f64_le (vy (b_min ?b)) (pt_y p)" "f64_le (vz (b_min ?b)) (pt_z p)"
    "f64_le (pt_x p) (vx (b_max ?b))" "f64_le (pt_y p) (vy (b_max ?b))" "f64_le (pt_z p) (vz (b_max ?b))"
    using ins pp(1) pb by (simp_all add: inside_def proper_point_def proper_bounds_def f64_not_lt)
  have fs: "\<forall>q \<in> set ps. \<not> f64_is_infinite (pt_x q)" "\<forall>q \<in> set ps. \<not> f64_is_infinite (pt_y q)"
    "\<forall>q \<in> set ps. \<not> f64_is_infinite (pt_z q)" using ps(2) by (auto simp: list_all_iff finite_point_def)
  have f: "\<not> f64_is_infinite (pt_x p)" "\<not> f64_is_infinite (pt_y p)" "\<not> f64_is_infinite (pt_z p)"
    using pp(2) by (simp_all add: finite_point_def)
  note a = att [unfolded attained_def]
  have lo: "\<not> f64_is_infinite (vx (b_min ?b))" "\<not> f64_is_infinite (vy (b_min ?b))" "\<not> f64_is_infinite (vz (b_min ?b))"
    using side_finite(1) [OF _ fs(1) le(1) f(1)] side_finite(1) [OF _ fs(2) le(2) f(2)]
      side_finite(1) [OF _ fs(3) le(3) f(3)] a by blast+
  have hi: "\<not> f64_is_infinite (vx (b_max ?b))" "\<not> f64_is_infinite (vy (b_max ?b))" "\<not> f64_is_infinite (vz (b_max ?b))"
    using side_finite(2) [OF _ fs(1) le(4) f(1)] side_finite(2) [OF _ fs(2) le(5) f(2)]
      side_finite(2) [OF _ fs(3) le(6) f(3)] a by blast+
  have t: "increasing (vx ts)" "increasing (vy ts)" "increasing (vz ts)" using ts by (simp_all add: increasing_transforms_def)
  note n = axis_not_stored [OF t(1) _ le(1,4) lo(1) hi(1)] axis_not_stored [OF t(2) _ le(2,5) lo(2) hi(2)]
    axis_not_stored [OF t(3) _ le(3,6) lo(3) hi(3)]
  show False using n p(2) unfolding out_of_range_def ad by auto
qed

section \<open>What closing needs\<close>

lemma triple_with_header:
  fixes f :: "('d, 'u) header \<Rightarrow> (('d, 'u, 'c) file_writer, 'a) io"
  assumes "\<And>x. triple (open_with g b s) (f (g\<lparr>h_start_of_first_evlr := x\<rparr>)) Q R"
  shows "triple (open_with g b s) (io_bind writer_header f) Q R"
  unfolding triple_def
proof (intro allI impI)
  fix w :: "('d, 'u, 'c) file_writer"
  assume w: "open_with g b s w"
  then obtain x where "kind_header (fw_point_writer w) = Ok (g\<lparr>h_start_of_first_evlr := x\<rparr>)" by (auto simp: open_with_def)
  then have "io_bind writer_header f w = f (g\<lparr>h_start_of_first_evlr := x\<rparr>) w"
    by (simp add: writer_header_def io_bind_def)
  then show "case io_bind writer_header f w of (Ok a, t) \<Rightarrow> Q a t | (Err _, t) \<Rightarrow> R t | (Panic, _) \<Rightarrow> True"
    using assms [of x] w by (simp add: triple_def)
qed

lemma triple_next:
  assumes "triple P m Q R" "\<And>a. triple (Q a) (f a) S (\<lambda>_. True)"
  shows "triple P (io_bind m f) S (\<lambda>_. True)"
proof (rule triple_bind)
  show "triple P m Q (\<lambda>_. True)" using assms(1) by (auto simp: triple_def split: prod.splits outcome.splits)
qed (rule assms(2))

text \<open>A close that succeeds has converted the header.\<close>

lemma close_converts:
  assumes "open_with g False s w" "writer_close E L w = (Ok (), w')"
  shows "\<exists>x raw. header_into_raw E (g\<lparr>h_start_of_first_evlr := x\<rparr>) = Ok raw"
proof -
  let ?Q = "\<lambda>_ _. \<exists>x raw. header_into_raw E (g\<lparr>h_start_of_first_evlr := x\<rparr>) = Ok raw"
  have lift: "triple (open_with g False s) (io_bind (io_lift (header_into_raw E (g\<lparr>h_start_of_first_evlr := x\<rparr>))) f) ?Q (\<lambda>_. True)"
    for x and f :: "raw_header \<Rightarrow> (('a, 'b, 'c) file_writer, unit) io"
    by (cases "header_into_raw E (g\<lparr>h_start_of_first_evlr := x\<rparr>)")
      (auto simp: triple_def io_bind_def io_lift_def split: prod.splits outcome.splits)
  have "triple (open_with g False s) (writer_close E L) ?Q (\<lambda>_. True)"
    unfolding writer_close_def
  proof (rule triple_get, goal_cases)
    case (1 w)
    show ?case unfolding 1 if_False
      by (rule triple_next, rule triples, rule triple_next, rule triples, rule triple_next, rule triples,
          rule triple_next, rule triples, rule triple_next, rule triples, rule triple_next, rule triples,
          rule triple_next, rule triples, rule triple_next, rule triples, rule triple_with_header, rule lift)
  qed
  with assms show ?thesis by (auto simp: triple_def dest!: spec [of _ w])
qed

lemma started_kept:
  "started L h = Ok h0 \<Longrightarrow> h_transforms h0 = h_transforms h \<and> h_evlrs h0 = h_evlrs h"
  by (auto simp: started_def add_laz_vlr_def clear_def split: if_splits prod.splits)

lemma run_header:
  assumes "writer_run E L c h tr w" "length tr < 2 ^ 64"
  obtains g where "open_with g (is_closed tr) (word_of_nat (c_pos c)) w"
    "h_bounds g = foldl grow bounds_default (handed (h_point_format h) False tr)"
    "h_transforms g = h_transforms h" "h_evlrs g = h_evlrs h"
proof -
  from writer_run_invariant [OF assms] obtain h0 g where g: "started L h = Ok h0"
    "open_with g (is_closed tr) (word_of_nat (c_pos c)) w"
    "counts_points g (handed (h_point_format h) False tr)" "clear g = h0" by blast
  have "h_transforms g = h_transforms h0" "h_evlrs g = h_evlrs h0" using g(4) by (auto simp: clear_def)
  with g started_kept [OF g(1)] that show thesis by (auto simp: counts_points_def)
qed

definition box_lost :: "transform vector \<Rightarrow> point list \<Rightarrow> bool" where
  "box_lost ts ps \<longleftrightarrow> list_ex (out_of_range ts) ps \<and> list_all proper_point ps \<and> list_all finite_point ps"

lemma close_fails_beyond:
  assumes "writer_run E L c h tr w" "length tr < 2 ^ 64" "increasing_transforms (h_transforms h)"
    and "box_lost (h_transforms h) (handed (h_point_format h) False tr)"
  shows "writer_close E L w \<noteq> (Ok (), w')"
proof
  assume cl: "writer_close E L w = (Ok (), w')"
  obtain g where g: "open_with g (is_closed tr) (word_of_nat (c_pos c)) w"
    "h_bounds g = foldl grow bounds_default (handed (h_point_format h) False tr)" "h_transforms g = h_transforms h"
    using assms(1,2) by (rule run_header)
  have "\<not> is_closed tr" using cl g(1) close_closed [of w E L] by (auto simp: open_with_def)
  with g(1) have "open_with g False (word_of_nat (c_pos c)) w" by simp
  from close_converts [OF this cl] obtain x raw where "header_into_raw E (g\<lparr>h_start_of_first_evlr := x\<rparr>) = Ok raw" by blast
  from header_into_raw_transforms(2) [OF this] g(2,3)
  have "is_ok (adapt (foldl grow bounds_default (handed (h_point_format h) False tr)) (h_transforms h))"
    by (auto simp: is_ok_iff)
  moreover obtain p where "p \<in> set (handed (h_point_format h) False tr)" "out_of_range (h_transforms h) p"
    using assms(4) by (auto simp: box_lost_def list_ex_iff)
  ultimately show False using box_not_stored [OF assms(3)] assms(4) unfolding box_lost_def by blast
qed

lemma never_closed:
  assumes "writer_run E L c h tr w" "length tr < 2 ^ 64" "increasing_transforms (h_transforms h)"
    and "box_lost (h_transforms h) (handed (h_point_format h) False tr)"
  shows "\<not> is_closed tr"
  using assms
proof (induction rule: writer_run.induct)
  case (run_new w)
  then show ?case by (simp add: is_closed_def)
next
  case (run_write tr w p r w')
  have c: "is_closed (tr @ [(WritePoint p, r)]) = is_closed tr" by (simp add: is_closed_def)
  show ?case
  proof (cases "is_closed tr")
    case True
    then have "handed (h_point_format h) False (tr @ [(WritePoint p, r)]) = handed (h_point_format h) False tr"
      by (simp add: handed_snoc)
    then show ?thesis using run_write.IH run_write.prems True c by simp
  qed (simp add: c)
next
  case (run_close tr w r w')
  have "handed (h_point_format h) False (tr @ [(Close, r)]) = handed (h_point_format h) False tr" by (simp add: handed_snoc)
  then have b: "box_lost (h_transforms h) (handed (h_point_format h) False tr)" "length tr < 2 ^ 64"
    using run_close.prems by simp_all
  have "r \<noteq> Ok ()" using close_fails_beyond [OF run_close.hyps(1) b(2) run_close.prems(2) b(1)] run_close.hyps(2) by auto
  then show ?case using run_close.IH b run_close.prems(2) by (simp add: is_closed_def)
qed

section \<open>Writers of uncompressed points\<close>

definition las_kind :: "('d, 'u, 'c) file_writer \<Rightarrow> bool" where
  "las_kind w \<longleftrightarrow> (\<exists>x. fw_point_writer w = LasWriter x)"

named_theorems las_triples \<open>calls that keep an uncompressed writer\<close>

lemma las_on_kind [las_triples]:
  "triple las_kind (on_kind (get_mut L m)) (\<lambda>_. las_kind) las_kind"
  "triple las_kind (on_kind (kind_done L)) (\<lambda>_. las_kind) las_kind"
  "triple las_kind (on_kind (kind_header_mut f)) (\<lambda>_. las_kind) las_kind"
  "triple las_kind (on_kind (kind_write_point L p)) (\<lambda>_. las_kind) las_kind"
  "triple las_kind writer_header (\<lambda>_. las_kind) las_kind"
  "triple las_kind (io_modify (\<lambda>w. w\<lparr>fw_closed := True\<rparr>)) (\<lambda>_. las_kind) las_kind"
  by (auto simp: triple_def las_kind_def on_kind_def get_mut_def kind_done_def kind_header_mut_def kind_write_point_def
      writer_header_def io_defs split: prod.splits outcome.splits)

lemma las_evlrs [las_triples]: "triple las_kind (write_evlrs L rs) (\<lambda>_. las_kind) las_kind"
  unfolding write_evlrs_def by (rule triple_each) (rule triple_bind [OF triple_lift], rule las_triples)

lemma triple_get_any: "(\<And>w. triple P (f w) Q R) \<Longrightarrow> triple P (io_bind io_get f) Q R"
  by (simp add: triple_def)

lemma triple_guard: "triple P m Q P \<Longrightarrow> triple P (if b then io_lift (Err e) else m) Q P"
  by (simp add: triple_def io_lift_def)

lemma las_close: "triple las_kind (writer_close E L) (\<lambda>_. las_kind) las_kind"
  unfolding writer_close_def
  by (rule triple_get_any, rule triple_guard, (rule triple_bind, (rule las_triples | rule triple_lift))+, rule las_triples)

lemma las_write: "triple las_kind (writer_write_point L p) (\<lambda>_. las_kind) las_kind"
  unfolding writer_write_point_def
  by (rule triple_get_any, rule triple_guard, rule triple_bind, rule las_triples, rule triple_guard, rule las_triples)

lemma tripleD: "triple P m Q P \<Longrightarrow> P s \<Longrightarrow> m s = (r, t) \<Longrightarrow> r \<noteq> Panic \<Longrightarrow> (\<And>a. Q a t \<Longrightarrow> P t) \<Longrightarrow> P t"
  by (cases r) (auto simp: triple_def dest!: spec [of _ s])

lemma run_las_kind:
  assumes "writer_run E L c h tr w" "\<not> is_compressed (h_point_format h)"
  shows "las_kind w"
  using assms
proof (induction rule: writer_run.induct)
  case (run_new w)
  then show ?case
    by (auto simp: writer_new_def Let_def stream_position_def las_kind_def las_writer_new_def clear_def split: prod.splits)
next
  case (run_write tr w p r w')
  from tripleD [OF las_write run_write.IH [OF run_write.prems] run_write.hyps(2,3)] show ?case .
next
  case (run_close tr w r w')
  from tripleD [OF las_close run_close.IH [OF run_close.prems] run_close.hyps(2,3)] show ?case .
qed

section \<open>Properties\<close>

text \<open>
  C7. A writer of uncompressed points can be closed after any sequence of calls, failed writes
  among them, as long as the header it has then can be stored: closing succeeds, the writer is
  closed, and dropping it does not panic.
\<close>

theorem writer_can_be_closed:
  assumes "writer_run E L c h tr w" "length tr < 2 ^ 64" "\<not> is_closed tr"
    and "\<not> is_compressed (h_point_format h)" "list_all (vlr_ok True) (h_evlrs h)"
    and "kind_header (fw_point_writer w) = Ok g" "header_into_raw E g = Ok raw"
  shows "\<exists>w'. writer_run E L c h (tr @ [(Close, Ok ())]) w' \<and> fw_closed w' \<and> writer_drop E L w' = Ok ()"
proof -
  let ?s = "word_of_nat (c_pos c) :: u64"
  obtain g' where g': "open_with g' (is_closed tr) ?s w" "h_evlrs g' = h_evlrs h" using assms(1,2) by (rule run_header)
  then have w: "fw_closed w = False" "fw_start w = ?s" and "h_evlrs g = h_evlrs g'"
    using assms(3,6) by (auto simp: open_with_def)
  then have ev: "list_all (vlr_ok True) (h_evlrs g)" using g'(2) assms(5) by simp
  obtain x where x: "fw_point_writer w = LasWriter x" using run_las_kind [OF assms(1,4)] by (auto simp: las_kind_def)
  have at: "writer_at L False ?s w (lw_write x) g"
    using w assms(6) by (simp add: writer_at_def kind_at_def x kind_header_def)
  have dn: "on_kind (kind_done L) w = (Ok (), w)"
    by (simp add: on_kind_def kind_done_def x io_defs)
  let ?n = "word_of_nat (c_pos (lw_write x) + length (h_point_padding g)) :: u64"
  from writer_close_steps [OF at dn w ev, of E] obtain w1 c1 where
    w1: "writer_close E L w = rewrite_header L ?s (header_into_raw E (set_start_of_first_evlr g ?n)) w1"
      "writer_at L False ?s w1 c1 (set_start_of_first_evlr g ?n)" by blast
  obtain raw1 where raw1: "header_into_raw E (set_start_of_first_evlr g ?n) = Ok raw1"
    using header_into_raw_start [OF assms(7), of ?n] by blast
  from rewrite_header_Ok [OF w1(2), of raw1] obtain w2 c2 where
    w2: "rewrite_header L ?s (Ok raw1) w1 = (Ok (), w2)" "writer_at L True ?s w2 c2 (set_start_of_first_evlr g ?n)" by blast
  have "writer_close E L w = (Ok (), w2)" using w1(1) raw1 w2(1) by simp
  moreover have "fw_closed w2" using w2(2) by (simp add: writer_at_def)
  ultimately show ?thesis using run_close [OF assms(1)] by (auto simp: writer_drop_def)
qed

lemma file_header_kept: "h_transforms (file_header b) = vector_transform_default" "h_point_format (file_header b) = format_of_id b 1"
  "h_evlrs (file_header b) = []"
  using writer_start_fields [OF file_start [of b]] by (simp_all add: file_header0_fields)

lemma new_survey_writer:
  "\<exists>w x base. writer_new file_env stored_laz \<lparr>c_data = [], c_pos = 0\<rparr> (file_header False) = Ok w \<and>
     fw_point_writer w = LasWriter x \<and> fw_closed w = False \<and> las_wrote (file_header0 False) base x []"
proof -
  obtain raw0 where raw0: "header_into_raw file_env (file_header0 False) = Ok raw0" using file_raw0 by blast
  have "vlrs_ok (file_header0 False)" using file_header_ok by (simp add: header_ok_def)
  from writer_new_wrote [OF file_start raw0 this, of "[]"] obtain w where
    w: "writer_new file_env stored_laz \<lparr>c_data = [], c_pos = 0\<rparr> (file_header False) = Ok w"
      "writer_wrote stored_laz stored_holds stored_packs (\<lambda>v. v) 28 0 (file_header0 False)
        (header_bytes raw0 (file_header0 False)) w []" by auto
  then show ?thesis
    by (cases "fw_point_writer w") (auto simp: writer_wrote_def kind_wrote_def file_header0_fields format_1)
qed

theorem writer_can_be_closed_witness:
  "\<exists>w w'. writer_run file_env stored_laz \<lparr>c_data = [], c_pos = 0\<rparr> (file_header False) [] w \<and>
     writer_run file_env stored_laz \<lparr>c_data = [], c_pos = 0\<rparr> (file_header False) [(Close, Ok ())] w' \<and>
     fw_closed w' \<and> writer_drop file_env stored_laz w' = Ok ()"
proof -
  let ?c = "\<lparr>c_data = [], c_pos = 0\<rparr>"
  obtain w x base where w: "writer_new file_env stored_laz ?c (file_header False) = Ok w"
    "fw_point_writer w = LasWriter x" "las_wrote (file_header0 False) base x []" using new_survey_writer by blast
  obtain raw0 where raw0: "header_into_raw file_env (file_header0 False) = Ok raw0" using file_raw0 by blast
  have run: "writer_run file_env stored_laz ?c (file_header False) [] w" by (rule run_new [OF w(1)])
  have "kind_header (fw_point_writer w) = Ok (file_header0 False)"
    using w(2,3) writer_start_fields(3) [OF file_start [of False]] by (simp add: kind_header_def las_wrote_def Let_def)
  from writer_can_be_closed [OF run _ _ _ _ this raw0] run show ?thesis
    by (auto simp: is_closed_def file_header_kept format_1)
qed

text \<open>
  C8. A point out of range makes a writer impossible to close.  A point whose coordinate does not
  fit in the file is refused with an error, but the header has already been grown by it; from
  then on, whatever is written, every close fails, because the box cannot be stored, and
  dropping the writer panics.  The points have coordinates that are finite numbers, and the
  transforms have positive scales.
\<close>

theorem out_of_range_point_blocks_close:
  assumes "writer_run E L c h tr w" "length tr < 2 ^ 64" "increasing_transforms (h_transforms h)"
    and "box_lost (h_transforms h) (handed (h_point_format h) False tr)"
  shows "\<not> is_closed tr \<and> fst (writer_close E L w) \<noteq> Ok () \<and> writer_drop E L w = Panic"
proof -
  have "\<not> fw_closed w"
    using run_header [OF assms(1,2)] never_closed [OF assms] by (metis (mono_tags) open_with_def)
  moreover have "fst (writer_close E L w) \<noteq> Ok ()"
    using close_fails_beyond [OF assms] by (cases "writer_close E L w") auto
  ultimately show ?thesis using never_closed [OF assms]
    by (cases "fst (writer_close E L w)") (auto simp: writer_drop_def)
qed

text \<open>The survey point moved ten million kilometres away.\<close>

definition far_point :: point where
  "far_point = survey_point\<lparr>pt_x := 0x4202A05F20000000\<rparr>"

lemma far_point_raw:
  "\<exists>e. inverse transform_default (pt_x far_point) = Err e \<and> into_raw far_point vector_transform_default = Err e"
proof -
  have "\<exists>e. inverse transform_default (pt_x far_point) = Err e"
    by (simp add: far_point_def scale_bits inverse_def inverse_with_rounding_mode_def check_i32_range_def i32_MAX_def
        i32_MIN_def fp_eval)
  then show ?thesis by (auto simp: into_raw_def vector_transform_default_def)
qed

lemma far_point_box: "box_lost vector_transform_default [far_point]"
proof -
  have "proper_point far_point" "finite_point far_point"
    by (simp_all add: proper_point_def finite_point_def far_point_def survey_point_def fp_eval)
  moreover have "out_of_range vector_transform_default far_point"
    using far_point_raw by (auto simp: out_of_range_def vector_transform_default_def)
  ultimately show ?thesis by (simp add: box_lost_def)
qed

lemma far_point_matches: "point_matches far_point (format_of_id False 1)"
  by (simp add: point_matches_def far_point_def survey_point_def format_1)

theorem out_of_range_point_blocks_close_witness:
  "\<exists>e w. writer_run file_env stored_laz \<lparr>c_data = [], c_pos = 0\<rparr> (file_header False) [(WritePoint far_point, Err e)] w \<and>
     fst (writer_close file_env stored_laz w) \<noteq> Ok () \<and> writer_drop file_env stored_laz w = Panic"
proof -
  let ?c = "\<lparr>c_data = [], c_pos = 0\<rparr>"
  obtain w x base where w: "writer_new file_env stored_laz ?c (file_header False) = Ok w"
    "fw_point_writer w = LasWriter x" "fw_closed w = False" "las_wrote (file_header0 False) base x []"
    using new_survey_writer by blast
  obtain e where e: "inverse transform_default (pt_x far_point) = Err e"
    "into_raw far_point vector_transform_default = Err e" using far_point_raw by blast
  obtain x' where x': "las_write_point far_point x = (Err e, x')"
    using write_fails_counted [OF w(4), of far_point e] e(2) by (auto simp: file_header0_fields)
  have pm: "point_matches far_point (h_point_format (lw_header x))"
    using w(4) writer_start_fields(3) [OF file_start [of False]] far_point_matches
    by (simp add: las_wrote_def Let_def file_header0_fields(1)) (metis file_header0_fields(1))
  have "writer_write_point stored_laz far_point w = (Err e, w\<lparr>fw_point_writer := LasWriter x'\<rparr>)"
    using w(2,3) x' pm by (simp add: writer_write_point_def writer_header_def kind_header_def on_kind_def kind_write_point_def io_defs)
  from run_write [OF run_new [OF w(1)] this] obtain w' where
    run: "writer_run file_env stored_laz ?c (file_header False) [(WritePoint far_point, Err e)] w'" by auto
  have "box_lost (h_transforms (file_header False)) (handed (h_point_format (file_header False)) False [(WritePoint far_point, Err e)])"
    using far_point_box far_point_matches by (simp add: file_header_kept)
  moreover have "increasing_transforms (h_transforms (file_header False))" using default_increasing by (simp add: file_header_kept)
  ultimately show ?thesis using out_of_range_point_blocks_close [OF run] run by fastforce
qed

end
