(* ===== verification/File_Offsets.thy ===== *)
theory File_Offsets
  imports Whole_File
begin

text \<open>
  Files that do not start at the beginning of their stream: what the writer and the reader take
  the offsets in the header to mean.
\<close>

section \<open>Reading the header\<close>

text \<open>
  Reading the header of an uncompressed file that starts behind other data: the header and its
  records come out, with the wrong point padding, and the stream is left at the offset to the
  points, counted from the beginning of the stream.
\<close>

lemma header_read_behind:
  assumes raw: "header_into_raw E h = Ok raw" and ok: "header_ok E h"
    and start: "h_start_of_first_evlr h \<noteq> Some 0" and f: "\<not> is_compressed (h_point_format h)"
    and pts: "length pts = unat (h_number_of_points h) * record_len (h_point_format h)"
    and fit: "length (d @ header_bytes raw h @ pts) < 2 ^ 64"
    and evlr: "case rh_evlr raw of
        Some e \<Rightarrow> unat (start_of_first_evlr e)
          = length (d @ header_bytes raw h @ pts) + length (h_point_padding h)
      | None \<Rightarrow> True"
  shows "\<exists>h'. header_new E \<lparr>c_data = d @ file_layout raw h pts [], c_pos = length d\<rparr>
       = (Ok h', \<lparr>c_data = d @ file_layout raw h pts [], c_pos = length (header_bytes raw h)\<rparr>) \<and>
     h_number_of_points h' = h_number_of_points h \<and> h_point_format h' = h_point_format h \<and>
     h_transforms h' = h_transforms h"
proof -
  have inv: "header_inv h" "uuid_laws E" "vlrs_ok h" using ok by (auto simp: header_ok_def)
  note len = length_header_bytes(2) [OF raw inv(1,2) start inv(3)]
  let ?data = "d @ file_layout raw h pts []"
  let ?n = "unat (rh_offset_to_point_data raw) + unat (h_number_of_points h) * record_len (h_point_format h)"
  define pad where "pad = (if h_evlrs h = [] then []
    else take (length d + length (h_point_padding h)) (drop ?n ?data))"
  have n: "?n = length (header_bytes raw h @ pts)" using len pts by simp
  have "\<exists>bnds m. adapt (h_bounds h) (h_transforms h) = Ok bnds \<and>
     builder_points_by_return (stored_header raw) = Ok m \<and>
     header_new E \<lparr>c_data = ?data, c_pos = length d\<rparr> =
       (Ok (h\<lparr>h_bounds := bnds, h_number_of_points_by_return := m,
             h_evlrs := take 1 (h_evlrs h),
             h_point_padding := kept_padding (h_point_format h) pad,
             h_start_of_first_evlr := None\<rparr>),
        \<lparr>c_data = ?data, c_pos = length d\<rparr>\<lparr>c_pos := length (header_bytes raw h)\<rparr>)"
  proof (rule header_read_at [OF raw ok start refl])
    show "?n < 2 ^ 64" using fit n by simp
    show "ahead (header_bytes raw h) \<lparr>c_data = ?data, c_pos = length d\<rparr>"
      by (simp add: ahead_def file_layout_def)
    show "pad = []" if "h_evlrs h = []" using that by (simp add: pad_def)
    fix e v vs
    assume e: "rh_evlr raw = Some e" "h_evlrs h = v # vs"
    then have s: "unat (start_of_first_evlr e) = length (d @ header_bytes raw h @ pts @ h_point_padding h)"
      using evlr by simp
    have "?n + (length d + length (h_point_padding h)) \<le> length ?data"
      using n by (simp add: file_layout_def)
    then have "length pad = length d + length (h_point_padding h)"
      "ahead pad \<lparr>c_data = ?data, c_pos = ?n\<rparr>"
      using e(2) by (simp_all add: pad_def ahead_def)
        (metis append_take_drop_id)
    moreover have "ahead (vlr_bytes True v) \<lparr>c_data = ?data, c_pos = unat (start_of_first_evlr e)\<rparr>"
      unfolding s using e(2) by (simp add: ahead_def file_layout_def)
    ultimately show "ahead (vlr_bytes True v) (\<lparr>c_data = ?data, c_pos = length d\<rparr>\<lparr>c_pos := unat (start_of_first_evlr e)\<rparr>) \<and>
      (\<not> is_compressed (h_point_format h) \<longrightarrow>
        unat (start_of_first_evlr e) = ?n + length pad \<and>
        ahead pad (\<lparr>c_data = ?data, c_pos = length d\<rparr>\<lparr>c_pos := ?n\<rparr>))"
      using s n by simp
  qed
  then show ?thesis by fastforce
qed

section \<open>Writing the file\<close>

text \<open>The file of an uncompressed writer that was started behind other data.\<close>

lemma written_behind:
  fixes g :: "('d, 'u) header" and L :: "('v, 'c, 'z) laz"
  assumes "\<not> is_compressed (h_point_format g)" "header_into_raw E (clear g) = Ok raw0"
    and "header_ok E (clear g)" "h_start_of_first_evlr g \<noteq> Some 0"
    and "list_all (writable (h_point_format g) (h_transforms g)) ps"
    and "add_points (clear g) ps = Ok h" "header_into_raw E h = Ok rawn"
    and "length d + unat (rh_offset_to_point_data raw0) + length ps * record_len (h_point_format g)
      + length (h_point_padding g) < 2 ^ 64"
  defines "recs \<equiv> concat (map (record_bytes (h_point_format g) (h_transforms g)) ps)"
  shows "\<exists>w0 w1 raw h1.
     writer_new E L \<lparr>c_data = d, c_pos = length d\<rparr> g = Ok w0 \<and>
     io_each (writer_write_point L) ps w0 = (Ok (), w1) \<and>
     writer_into_inner E L w1 = Ok \<lparr>c_data = d @ file_layout raw h1 recs [], c_pos = length d\<rparr> \<and>
     (\<exists>k. h1 = set_start_of_first_evlr h k) \<and>
     header_into_raw E h1 = Ok raw \<and> header_ok E h1 \<and> h_start_of_first_evlr h1 \<noteq> Some 0 \<and>
     h_point_format h1 = h_point_format g \<and> h_point_padding h1 = h_point_padding g \<and>
     h_evlrs h1 = h_evlrs g \<and> unat (h_number_of_points h1) = length ps \<and>
     length recs = length ps * record_len (h_point_format g) \<and>
     length (d @ header_bytes raw h1 @ recs) + length (h_point_padding g) < 2 ^ 64 \<and>
     (case rh_evlr raw of
        Some e \<Rightarrow> unat (start_of_first_evlr e)
          = length (d @ header_bytes raw h1 @ recs) + length (h_point_padding g)
      | None \<Rightarrow> True)"
proof -
  let ?h0 = "clear g" and ?c0 = "\<lparr>c_data = d, c_pos = length d\<rparr>"
  let ?holds = "\<lambda>_ _ _. False :: bool" and ?packs = "\<lambda>_ _ _ _. False :: bool" and ?sz = "\<lambda>_. 0 :: nat"
  have f: "h_point_format ?h0 = h_point_format g" "h_transforms ?h0 = h_transforms g"
    "h_start_of_first_evlr ?h0 = h_start_of_first_evlr g" "h_evlrs ?h0 = h_evlrs g"
    "h_point_padding ?h0 = h_point_padding g" by (simp_all add: clear_def)
  have s: "writer_start E L ?holds ?packs ?sz undefined g ?h0" using assms(1) by (simp add: writer_start_def)
  have ok0: "header_inv ?h0" "uuid_laws E" "vlrs_ok ?h0" using assms(3) by (auto simp: header_ok_def)
  have st: "h_start_of_first_evlr ?h0 \<noteq> Some 0" using assms(4) f by simp
  note len0 = length_header_bytes(2) [OF assms(2) ok0(1,2) st ok0(3)]
  have wr: "list_all (writable (h_point_format ?h0) (h_transforms ?h0)) ps" using assms(5) f by simp
  have "length ps \<le> length ps * record_len (h_point_format g)" using record_len_pos [of "h_point_format g"] by simp
  then have n: "length ps < 2 ^ 64" "length d < 2 ^ 64" using assms(8) by linarith+
  from writer_new_wrote [OF s assms(2) ok0(3), of d] obtain w0 where
    w0: "writer_new E L ?c0 g = Ok w0"
      "writer_wrote L ?holds ?packs ?sz undefined (word_of_nat (length d)) ?h0 (d @ header_bytes raw0 ?h0) w0 []"
    by blast
  from writer_sink.write_many [OF w0(2) wr] n(1) obtain w1 where
    w1: "io_each (writer_write_point L) ps w0 = (Ok (), w1)"
      "writer_wrote L ?holds ?packs ?sz undefined (word_of_nat (length d)) ?h0 (d @ header_bytes raw0 ?h0) w1 ps"
    by auto
  from writer_layout_behind [OF s assms(2,3) st w1(2) n(2,1) assms(6,7)] obtain c body h1 raw where
    c: "writer_into_inner E L w1 = Ok c"
    and body: "packed L ?holds undefined ?h0 (length (d @ header_bytes raw0 ?h0)) body ps"
    and h1: "h1 = set_start_of_first_evlr h
       (word_of_nat (length (d @ header_bytes raw0 ?h0 @ body) + length (h_point_padding ?h0)))"
    and small: "length (d @ header_bytes raw0 ?h0 @ body) + length (h_point_padding ?h0) < 2 ^ 64 \<Longrightarrow>
        header_into_raw E h1 = Ok raw \<and> length (header_bytes raw h1) = length (header_bytes raw0 ?h0) \<and>
        h_start_of_first_evlr h1 \<noteq> Some 0 \<and>
        (case rh_evlr raw of
           Some e \<Rightarrow> unat (start_of_first_evlr e)
             = length (d @ header_bytes raw0 ?h0 @ body) + length (h_point_padding ?h0)
         | None \<Rightarrow> True) \<and>
        c = \<lparr>c_data = d @ file_layout raw h1 body [], c_pos = length d\<rparr>" by blast
  have b: "body = recs" using body assms(1) f by (simp add: packed_def Let_def recs_def)
  have lb: "length recs = length ps * record_len (h_point_format g)"
    using length_record_bytes [OF wr] f by (simp add: recs_def)
  have fits: "length (d @ header_bytes raw0 ?h0 @ body) + length (h_point_padding ?h0) < 2 ^ 64"
    using assms(8) len0 lb b f by (simp add: add.assoc)
  note sm = small [OF fits]
  have cp: "counts_points h ps" "clear h = clear ?h0"
    using add_points_clear [of ?h0 ps h] assms(6) n(1) by (simp_all add: clear_clear)
  note fl = clear_fields [OF cp(2)]
  have raw: "header_into_raw E h1 = Ok raw" "h_start_of_first_evlr h1 \<noteq> Some 0" using sm by simp_all
  have ok1: "header_ok E h1" unfolding h1 by (rule header_ok_fields [OF assms(3) cp(2)])
  have h1f: "h_point_format h1 = h_point_format g" "h_point_padding h1 = h_point_padding g"
    "h_evlrs h1 = h_evlrs g" "unat (h_number_of_points h1) = length ps"
    using fl f cp(1) by (simp_all add: h1 set_start_fields counts_points_def)
  have "length (d @ header_bytes raw h1 @ recs) + length (h_point_padding g) < 2 ^ 64"
    "case rh_evlr raw of
        Some e \<Rightarrow> unat (start_of_first_evlr e)
          = length (d @ header_bytes raw h1 @ recs) + length (h_point_padding g)
      | None \<Rightarrow> True"
    using fits sm b f by (simp_all split: option.splits)
  with w0(1) w1(1) c sm b raw ok1 h1 h1f lb show ?thesis by blast
qed

section \<open>Properties\<close>

text \<open>
  C34. Offsets are counted from the start of the file by the writer and from the beginning of the
  stream by the reader.  An uncompressed file is written, point by point, and closed on a stream
  that already holds the data \<open>d\<close>.  The stream then holds \<open>d\<close>, the header block, the records of
  the points, the padding and the extended records.  The offset to the points in the header is
  the length of the header block, relative to the end of \<open>d\<close>; the start of the extended
  records is absolute and counts \<open>d\<close>, too.  Opening a reader where the file starts succeeds
  and gives the number of points, but the reader stands at the offset itself: as many bytes before
  the first point as \<open>d\<close> has, so that the last bytes of the header block are taken for the
  beginning of the first point, and all records are read out of place.
\<close>

theorem file_behind_other_data:
  fixes g :: "('d, 'u) header" and L :: "('v, 'c, 'z) laz"
  assumes "\<not> is_compressed (h_point_format g)" "header_into_raw E (clear g) = Ok raw0"
    and "header_ok E (clear g)" "h_start_of_first_evlr g \<noteq> Some 0"
    and "list_all (writable (h_point_format g) (h_transforms g)) ps"
    and "add_points (clear g) ps = Ok h" "header_into_raw E h = Ok rawn"
    and "length d + unat (rh_offset_to_point_data raw0) + length ps * record_len (h_point_format g)
      + length (h_point_padding g) < 2 ^ 64"
  defines "recs \<equiv> concat (map (record_bytes (h_point_format g) (h_transforms g)) ps)"
  shows "\<exists>w0 w1 c raw h1 r.
     writer_new E L \<lparr>c_data = d, c_pos = length d\<rparr> g = Ok w0 \<and>
     io_each (writer_write_point L) ps w0 = (Ok (), w1) \<and> writer_into_inner E L w1 = Ok c \<and>
     c = \<lparr>c_data = d @ file_layout raw h1 recs [], c_pos = length d\<rparr> \<and>
     header_into_raw E h1 = Ok raw \<and> (\<exists>k. h1 = set_start_of_first_evlr h k) \<and>
     unat (rh_offset_to_point_data raw) = length (header_bytes raw h1) \<and>
     (h_evlrs g \<noteq> [] \<longrightarrow>
        (\<exists>e. rh_evlr raw = Some e \<and> unat (start_of_first_evlr e) =
           length d + unat (rh_offset_to_point_data raw) + length recs + length (h_point_padding g))) \<and>
     reader_new E L c = Ok \<lparr>fr_point_reader = LasReader r\<rparr> \<and>
     unat (h_number_of_points (lr_header r)) = length ps \<and>
     lr_read r = c\<lparr>c_pos := unat (rh_offset_to_point_data raw)\<rparr> \<and>
     unat (lr_start r) = unat (rh_offset_to_point_data raw) \<and>
     (length d \<le> unat (rh_offset_to_point_data raw) \<longrightarrow>
        (\<exists>rest. drop (c_pos (lr_read r)) (c_data (lr_read r)) =
           drop (unat (rh_offset_to_point_data raw) - length d) (header_bytes raw h1) @ recs @ rest))"
proof -
  from written_behind [OF assms(1-8), of L, folded recs_def] obtain w0 w1 raw h1 where
    w: "writer_new E L \<lparr>c_data = d, c_pos = length d\<rparr> g = Ok w0"
      "io_each (writer_write_point L) ps w0 = (Ok (), w1)"
      "writer_into_inner E L w1 = Ok \<lparr>c_data = d @ file_layout raw h1 recs [], c_pos = length d\<rparr>"
    and k: "\<exists>k. h1 = set_start_of_first_evlr h k"
    and raw: "header_into_raw E h1 = Ok raw" "header_ok E h1" "h_start_of_first_evlr h1 \<noteq> Some 0"
    and f: "h_point_format h1 = h_point_format g" "h_point_padding h1 = h_point_padding g"
      "h_evlrs h1 = h_evlrs g" "unat (h_number_of_points h1) = length ps"
    and len: "length recs = length ps * record_len (h_point_format g)"
      "length (d @ header_bytes raw h1 @ recs) + length (h_point_padding g) < 2 ^ 64"
    and ev: "case rh_evlr raw of
        Some e \<Rightarrow> unat (start_of_first_evlr e)
          = length (d @ header_bytes raw h1 @ recs) + length (h_point_padding g)
      | None \<Rightarrow> True" by blast
  let ?c = "\<lparr>c_data = d @ file_layout raw h1 recs [], c_pos = length d\<rparr>"
  have off: "unat (rh_offset_to_point_data raw) = length (header_bytes raw h1)"
    using length_header_bytes(2) [OF raw(1) _ _ raw(3)] raw(2) by (simp add: header_ok_def)
  have evlr: "\<exists>e. rh_evlr raw = Some e \<and> unat (start_of_first_evlr e) =
      length d + unat (rh_offset_to_point_data raw) + length recs + length (h_point_padding g)"
    if "h_evlrs g \<noteq> []"
    using ev off that header_evlr_None [OF header_into_raw_fields(15) [OF raw(1)]] f(3)
    by (cases "rh_evlr raw") simp_all
  from header_read_behind [OF raw, of recs d] assms(1) f len ev [folded f(2)] obtain h' where
    h': "header_new E ?c = (Ok h', ?c\<lparr>c_pos := unat (rh_offset_to_point_data raw)\<rparr>)"
      "h_number_of_points h' = h_number_of_points h1" "h_point_format h' = h_point_format g"
    unfolding off by auto
  obtain r where r: "reader_new E L ?c = Ok \<lparr>fr_point_reader = LasReader r\<rparr>" "lr_header r = h'"
    "lr_read r = ?c\<lparr>c_pos := unat (rh_offset_to_point_data raw)\<rparr>"
    "lr_start r = word_of_nat (unat (rh_offset_to_point_data raw))"
    using h'(1,3) assms(1) by (simp add: reader_new_def las_reader_new_def stream_position_def)
  have "\<exists>rest. drop (c_pos (lr_read r)) (c_data (lr_read r)) =
      drop (unat (rh_offset_to_point_data raw) - length d) (header_bytes raw h1) @ recs @ rest"
    if "length d \<le> unat (rh_offset_to_point_data raw)"
    using that off by (simp add: r(3) file_layout_def)
  moreover have "unat (lr_start r) = unat (rh_offset_to_point_data raw)"
    "unat (h_number_of_points (lr_header r)) = length ps"
    using r(2) h'(2) f(4) by (simp_all add: r(4) unat_ucast_up)
  ultimately show ?thesis using w k raw(1) off evlr r(1,3) by blast
qed

lemma drop_last_byte: "length bs = Suc n \<Longrightarrow> drop n bs = [last bs]"
  by (cases bs rule: rev_cases) simp_all

theorem file_behind_other_data_witness:
  "\<exists>w0 w1 c r b rest. writer_new file_env stored_laz \<lparr>c_data = [42], c_pos = 1\<rparr> (file_header False) = Ok w0 \<and>
     io_each (writer_write_point stored_laz) [survey_point] w0 = (Ok (), w1) \<and>
     writer_into_inner file_env stored_laz w1 = Ok c \<and>
     reader_new file_env stored_laz c = Ok \<lparr>fr_point_reader = LasReader r\<rparr> \<and> c_pos (lr_read r) = 375 \<and>
     drop 375 (c_data c) =
       b # record_bytes (format_of_id False 1) vector_transform_default survey_point @ rest"
proof -
  let ?g = "file_header False"
  have h0: "clear ?g = file_header0 False"
    by (simp add: file_header0_def file_header_def clear_def header_default_def)
  obtain raw0 where raw0: "header_into_raw file_env (file_header0 False) = Ok raw0" using file_raw0 by blast
  obtain rawn where rawn: "header_into_raw file_env ((file_header0 False)\<lparr>h_number_of_points := 1,
      h_number_of_points_by_return := [(1, 1)], h_bounds := grow bounds_default survey_point\<rparr>) = Ok rawn"
    (is "header_into_raw _ ?h = _") using file_raw [OF refl _ survey_adapt] by blast
  have off0: "unat (rh_offset_to_point_data raw0) = 375"
    using offset_to_point_data_Ok [OF header_into_raw_fields(9) [OF raw0]]
    by (simp add: file_header0_fields version_header_size_simps)
  have g: "\<not> is_compressed (h_point_format ?g)" "h_start_of_first_evlr ?g \<noteq> Some 0"
    "h_point_format ?g = format_of_id False 1" "h_transforms ?g = vector_transform_default" "h_point_padding ?g = []"
    by (simp_all add: file_header_def header_default_def format_1)
  have wr: "list_all (writable (h_point_format ?g) (h_transforms ?g)) [survey_point]"
    using survey_storable [of False] g by (simp add: storable_def)
  have pts: "add_points (clear ?g) [survey_point] = Ok ?h" unfolding h0 by (rule file_points)
  have fits: "length [42 :: u8] + unat (rh_offset_to_point_data raw0)
      + length [survey_point] * record_len (h_point_format ?g) + length (h_point_padding ?g) < 2 ^ 64"
    using off0 g by (simp add: record_len_def format_1)
  from file_behind_other_data [OF g(1) raw0 [folded h0] file_header_ok [of False, folded h0] g(2) wr
      pts rawn fits, of stored_laz]
  obtain w0 w1 c raw h1 r k where
    w: "writer_new file_env stored_laz \<lparr>c_data = [42], c_pos = length [42 :: u8]\<rparr> ?g = Ok w0"
      "io_each (writer_write_point stored_laz) [survey_point] w0 = (Ok (), w1)"
      "writer_into_inner file_env stored_laz w1 = Ok c"
      "reader_new file_env stored_laz c = Ok \<lparr>fr_point_reader = LasReader r\<rparr>"
    and raw: "header_into_raw file_env h1 = Ok raw" "h1 = set_start_of_first_evlr ?h k"
    and r: "lr_read r = c\<lparr>c_pos := unat (rh_offset_to_point_data raw)\<rparr>"
      "unat (rh_offset_to_point_data raw) = length (header_bytes raw h1)"
      "length [42 :: u8] \<le> unat (rh_offset_to_point_data raw) \<longrightarrow>
        (\<exists>rest. drop (c_pos (lr_read r)) (c_data (lr_read r)) =
           drop (unat (rh_offset_to_point_data raw) - length [42 :: u8]) (header_bytes raw h1)
           @ concat (map (record_bytes (h_point_format ?g) (h_transforms ?g)) [survey_point]) @ rest)"
    by blast
  have off: "unat (rh_offset_to_point_data raw) = 375"
    using offset_to_point_data_Ok [OF header_into_raw_fields(9) [OF raw(1)]]
    by (simp add: raw(2) set_start_fields file_header0_fields version_header_size_simps)
  moreover have "drop 374 (header_bytes raw h1) = [last (header_bytes raw h1)]"
    using r(2) off by (intro drop_last_byte) simp
  ultimately obtain rest where "drop 375 (c_data c) = last (header_bytes raw h1)
      # record_bytes (format_of_id False 1) vector_transform_default survey_point @ rest"
    using r g by auto
  then show ?thesis using w r(1) off by auto
qed

end
