(* ===== verification/Copc.thy ===== *)
theory Copc
  imports Las_Reader
begin

text \<open>
  COPC data (\<^verbatim>\<open>src/copc.rs\<close>): the info record, the keys of the octree, hierarchy entries and
  pages, the iterator over the entries of a hierarchy, and the reader of the points of an
  entry.  The decompressor of layered records is code of the \<^verbatim>\<open>laz\<close> crate and a parameter,
  the record \<open>layered\<close>.  A hash map is a partial map; where its iteration order shows, the order
  of its keys is an argument.
\<close>

section \<open>The info record\<close>

definition COPC_USER_ID :: bytes where "COPC_USER_ID = [0x63, 0x6F, 0x70, 0x63]"

record copc_info_vlr =
  ci_center_x :: f64
  ci_center_y :: f64
  ci_center_z :: f64
  ci_halfsize :: f64
  ci_spacing :: f64
  ci_root_hier_offset :: u64
  ci_root_hier_size :: u64
  ci_gpstime_minimum :: f64
  ci_gpstime_maximum :: f64
  ci_reserved :: "u64 list"

definition COPC_INFO_RECORD_ID :: u16 where "COPC_INFO_RECORD_ID = 1"

definition copc_info_read_from :: "copc_info_vlr reader" where
  "copc_info_read_from =
     io_bind read_u64 (\<lambda>center_x. io_bind read_u64 (\<lambda>center_y. io_bind read_u64 (\<lambda>center_z.
     io_bind read_u64 (\<lambda>halfsize. io_bind read_u64 (\<lambda>spacing.
     io_bind read_u64 (\<lambda>root_hier_offset. io_bind read_u64 (\<lambda>root_hier_size.
     io_bind read_u64 (\<lambda>gpstime_minimum. io_bind read_u64 (\<lambda>gpstime_maximum.
     io_bind (io_times 11 read_u64) (\<lambda>reserved.
     io_return \<lparr>ci_center_x = center_x, ci_center_y = center_y, ci_center_z = center_z,
       ci_halfsize = halfsize, ci_spacing = spacing, ci_root_hier_offset = root_hier_offset,
       ci_root_hier_size = root_hier_size, ci_gpstime_minimum = gpstime_minimum,
       ci_gpstime_maximum = gpstime_maximum, ci_reserved = reserved\<rparr>))))))))))"

definition copc_info_write_to :: "copc_info_vlr \<Rightarrow> writer" where
  "copc_info_write_to v =
     io_bind (write_u64 (ci_center_x v)) (\<lambda>_. io_bind (write_u64 (ci_center_y v)) (\<lambda>_.
     io_bind (write_u64 (ci_center_z v)) (\<lambda>_. io_bind (write_u64 (ci_halfsize v)) (\<lambda>_.
     io_bind (write_u64 (ci_spacing v)) (\<lambda>_. io_bind (write_u64 (ci_root_hier_offset v)) (\<lambda>_.
     io_bind (write_u64 (ci_root_hier_size v)) (\<lambda>_. io_bind (write_u64 (ci_gpstime_minimum v)) (\<lambda>_.
     io_bind (write_u64 (ci_gpstime_maximum v)) (\<lambda>_. io_each write_u64 (ci_reserved v))))))))))"

text \<open>Reading from a slice, the rest of which is dropped.\<close>

definition read_slice :: "'a reader \<Rightarrow> bytes \<Rightarrow> 'a outcome" where
  "read_slice m bs = fst (m \<lparr>c_data = bs, c_pos = 0\<rparr>)"

definition copc_info_of_vlr :: "vlr \<Rightarrow> copc_info_vlr outcome" where
  "copc_info_of_vlr v = read_slice copc_info_read_from (v_data v)"

section \<open>Voxel keys\<close>

text \<open>Checked arithmetic and the arithmetic shift of signed integers.\<close>

definition checked_sadd :: "'a::len word \<Rightarrow> 'a word \<Rightarrow> 'a word outcome" where
  "checked_sadd a b =
     (if - (2 ^ (LENGTH('a) - 1)) \<le> sint a + sint b \<and> sint a + sint b < 2 ^ (LENGTH('a) - 1)
      then Ok (a + b) else Panic)"

definition checked_ssub :: "'a::len word \<Rightarrow> 'a word \<Rightarrow> 'a word outcome" where
  "checked_ssub a b =
     (if - (2 ^ (LENGTH('a) - 1)) \<le> sint a - sint b \<and> sint a - sint b < 2 ^ (LENGTH('a) - 1)
      then Ok (a - b) else Panic)"

definition child :: "voxel_key \<Rightarrow> i32 \<Rightarrow> voxel_key outcome" where
  "child k direction =
     (if \<not> (0 \<le> sint direction \<and> sint direction < 8) then Err (InvalidDirection direction)
      else and_then (checked_sadd (vk_l k) 1) (\<lambda>l.
        Ok \<lparr>vk_l = l,
            vk_x = push_bit 1 (vk_x k) OR (direction AND 1),
            vk_y = push_bit 1 (vk_y k) OR (signed_drop_bit 1 direction AND 1),
            vk_z = push_bit 1 (vk_z k) OR (signed_drop_bit 2 direction AND 1)\<rparr>))"

definition parent :: "voxel_key \<Rightarrow> voxel_key outcome" where
  "parent k =
     and_then (checked_ssub (vk_l k) 1) (\<lambda>l.
     Ok \<lparr>vk_l = (if sint l < 0 then 0 else l),
         vk_x = signed_drop_bit 1 (vk_x k),
         vk_y = signed_drop_bit 1 (vk_y k),
         vk_z = signed_drop_bit 1 (vk_z k)\<rparr>)"

definition VOXEL_ROOT :: voxel_key where
  "VOXEL_ROOT = \<lparr>vk_l = 0, vk_x = 0, vk_y = 0, vk_z = 0\<rparr>"

definition voxel_key_read_from :: "voxel_key reader" where
  "voxel_key_read_from =
     io_bind read_u32 (\<lambda>l. io_bind read_u32 (\<lambda>x. io_bind read_u32 (\<lambda>y. io_bind read_u32 (\<lambda>z.
     io_return \<lparr>vk_l = l, vk_x = x, vk_y = y, vk_z = z\<rparr>))))"

definition voxel_key_write_to :: "voxel_key \<Rightarrow> writer" where
  "voxel_key_write_to k =
     io_bind (write_u32 (vk_l k)) (\<lambda>_. io_bind (write_u32 (vk_x k)) (\<lambda>_.
     io_bind (write_u32 (vk_y k)) (\<lambda>_. write_u32 (vk_z k))))"

section \<open>Entries and pages\<close>

definition entry_read_from :: "entry reader" where
  "entry_read_from =
     io_bind voxel_key_read_from (\<lambda>key. io_bind read_u64 (\<lambda>offset.
     io_bind read_u32 (\<lambda>byte_size. io_bind read_u32 (\<lambda>point_count.
     io_return \<lparr>e_key = key, e_offset = offset, e_byte_size = byte_size,
       e_point_count = point_count\<rparr>))))"

definition entry_write_to :: "entry \<Rightarrow> writer" where
  "entry_write_to e =
     io_bind (voxel_key_write_to (e_key e)) (\<lambda>_. io_bind (write_u64 (e_offset e)) (\<lambda>_.
     io_bind (write_u32 (e_byte_size e)) (\<lambda>_. write_u32 (e_point_count e))))"

definition is_referencing_page :: "entry \<Rightarrow> bool" where
  "is_referencing_page e \<longleftrightarrow> e_point_count e = - 1"

record page =
  p_entries :: "entry list"

definition page_read_from :: "bytes \<Rightarrow> page outcome" where
  "page_read_from data =
     and_then (read_slice (io_times (length data div 32) entry_read_from) data) (\<lambda>es.
     Ok \<lparr>p_entries = es\<rparr>)"

definition page_write_to :: "page \<Rightarrow> writer" where
  "page_write_to p = io_each entry_write_to (p_entries p)"

section \<open>Hierarchies\<close>

record copc_hierarchy_vlr =
  ch_root :: page
  ch_sub_pages :: "voxel_key \<Rightarrow> page option"

definition COPC_HIERARCHY_RECORD_ID :: u16 where "COPC_HIERARCHY_RECORD_ID = 1000"

text \<open>The hash map of the pages is written in the order in which it yields its keys.\<close>

definition hierarchy_write_to :: "voxel_key list \<Rightarrow> copc_hierarchy_vlr \<Rightarrow> writer" where
  "hierarchy_write_to order h =
     io_bind (page_write_to (ch_root h)) (\<lambda>_.
     io_each (\<lambda>k. case ch_sub_pages h k of Some p \<Rightarrow> page_write_to p | None \<Rightarrow> io_return ()) order)"

text \<open>Indexing with a range panics when the range is not within the slice.\<close>

definition slice :: "bytes \<Rightarrow> u64 \<Rightarrow> u64 \<Rightarrow> bytes outcome" where
  "slice bs start end =
     (if start \<le> end \<and> unat end \<le> length bs
      then Ok (take (unat end - unat start) (drop (unat start) bs)) else Panic)"

definition sub_page :: "vlr \<Rightarrow> copc_info_vlr \<Rightarrow> entry \<Rightarrow> (voxel_key \<times> page) outcome" where
  "sub_page v info e =
     and_then (checked_sub (e_offset e) (ci_root_hier_offset info)) (\<lambda>start.
     and_then (checked_add start (scast (e_byte_size e))) (\<lambda>end.
     and_then (slice (v_data v) start end) (\<lambda>data.
     and_then (page_read_from data) (\<lambda>p.
     Ok (e_key e, p)))))"

definition hierarchy_read_from_with :: "vlr \<Rightarrow> copc_info_vlr \<Rightarrow> copc_hierarchy_vlr outcome" where
  "hierarchy_read_from_with v info =
     and_then (slice (v_data v) 0 (ci_root_hier_size info)) (\<lambda>data.
     and_then (page_read_from data) (\<lambda>root.
     and_then (collect_results (map (sub_page v info) (filter is_referencing_page (p_entries root))))
       (\<lambda>pages.
     Ok \<lparr>ch_root = root, ch_sub_pages = map_of (rev pages)\<rparr>)))"

section \<open>Iterating over the entries\<close>

record entry_iterator =
  ei_root_iter :: "entry list"
  ei_ref_iter :: "entry list option"
  ei_sub_pages :: "voxel_key \<Rightarrow> page option"

definition iter_entries :: "copc_hierarchy_vlr \<Rightarrow> entry_iterator" where
  "iter_entries h =
     \<lparr>ei_root_iter = p_entries (ch_root h), ei_ref_iter = None, ei_sub_pages = ch_sub_pages h\<rparr>"

function entry_next :: "entry_iterator \<Rightarrow> entry outcome option \<times> entry_iterator" where
  "entry_next it =
     (case ei_ref_iter it of
        None \<Rightarrow>
          (case ei_root_iter it of
             [] \<Rightarrow> (None, it)
           | e # es \<Rightarrow>
               if is_referencing_page e
               then (case ei_sub_pages it (e_key e) of
                       None \<Rightarrow> (Some (Err (ReferencedPageMissingFromEvlr e)), it\<lparr>ei_root_iter := es\<rparr>)
                     | Some p \<Rightarrow> entry_next (it\<lparr>ei_root_iter := es, ei_ref_iter := Some (p_entries p)\<rparr>))
               else (Some (Ok e), it\<lparr>ei_root_iter := es\<rparr>))
      | Some [] \<Rightarrow> entry_next (it\<lparr>ei_ref_iter := None\<rparr>)
      | Some (e # es) \<Rightarrow> (Some (Ok e), it\<lparr>ei_ref_iter := Some es\<rparr>))"
  by auto
termination
  by (relation "measure (\<lambda>it. 2 * length (ei_root_iter it) + (if ei_ref_iter it = None then 0 else 1))")
    auto

declare entry_next.simps [simp del]

section \<open>Records of a header\<close>

definition is_copc_info :: "vlr \<Rightarrow> bool" where
  "is_copc_info v \<longleftrightarrow> v_user_id v = COPC_USER_ID \<and> v_record_id v = COPC_INFO_RECORD_ID"

definition is_copc_hierarchy :: "vlr \<Rightarrow> bool" where
  "is_copc_hierarchy v \<longleftrightarrow> v_user_id v = COPC_USER_ID \<and> v_record_id v = COPC_HIERARCHY_RECORD_ID"

text \<open>\<^verbatim>\<open>Result::ok\<close>; a panic stays one.\<close>

fun ok_opt :: "'a outcome \<Rightarrow> 'a option outcome" where
  "ok_opt (Ok a) = Ok (Some a)"
| "ok_opt (Err _) = Ok None"
| "ok_opt Panic = Panic"

definition copc_info_vlr_of :: "('d, 'u) header \<Rightarrow> copc_info_vlr option outcome" where
  "copc_info_vlr_of h =
     (case find is_copc_info (h_vlrs h) of
        None \<Rightarrow> Ok None
      | Some v \<Rightarrow> ok_opt (copc_info_of_vlr v))"

definition copc_hierarchy_evlr :: "('d, 'u) header \<Rightarrow> copc_hierarchy_vlr option outcome" where
  "copc_hierarchy_evlr h =
     and_then (copc_info_vlr_of h) (\<lambda>info.
     case info of
       None \<Rightarrow> Ok None
     | Some info \<Rightarrow>
         (case find is_copc_hierarchy (h_evlrs h) of
            None \<Rightarrow> Ok None
          | Some v \<Rightarrow> ok_opt (hierarchy_read_from_with v info)))"

section \<open>What an iterator has still to yield\<close>

text \<open>\<open>n\<close> successive calls of an iterator.\<close>

fun pull :: "nat \<Rightarrow> ('s \<Rightarrow> 'a option \<times> 's) \<Rightarrow> 's \<Rightarrow> 'a option list \<times> 's" where
  "pull 0 nxt s = ([], s)"
| "pull (Suc n) nxt s =
     (case nxt s of (x, s1) \<Rightarrow> case pull n nxt s1 of (xs, s2) \<Rightarrow> (x # xs, s2))"

text \<open>
  The contract of an iterator over a list of items: a call yields the next of them, and at the
  end nothing, however often it is called.
\<close>

locale item_iterator =
  fixes nxt :: "'s \<Rightarrow> 'a option \<times> 's" and pending :: "'s \<Rightarrow> 'a list"
  assumes yields_next: "nxt s = (Some x, t) \<Longrightarrow> pending s = x # pending t"
    and yields_end: "nxt s = (None, t) \<Longrightarrow> pending s = [] \<and> pending t = []"
begin

lemma shrinks: "nxt s = (Some x, t) \<Longrightarrow> length (pending t) < length (pending s)"
  using yields_next [of s x t] by simp

lemma pull_items:
  "pull n nxt s = (xs, t) \<Longrightarrow>
   xs = map Some (take n (pending s)) @ replicate (n - length (pending s)) None \<and>
   pending t = drop n (pending s)"
proof (induction n arbitrary: s xs t)
  case 0
  then show ?case by simp
next
  case (Suc n)
  obtain x s1 where x: "nxt s = (x, s1)" by force
  obtain ys where ys: "pull n nxt s1 = (ys, t)" "xs = x # ys"
    using Suc.prems x by (auto split: prod.splits)
  show ?case
  proof (cases x)
    case None
    then show ?thesis using Suc.IH [OF ys(1)] ys(2) yields_end [of s s1] x by simp
  next
    case (Some a)
    then show ?thesis using Suc.IH [OF ys(1)] ys(2) yields_next [of s a s1] x by simp
  qed
qed

end

definition resolve :: "(voxel_key \<Rightarrow> page option) \<Rightarrow> entry \<Rightarrow> entry outcome list" where
  "resolve pages e =
     (if is_referencing_page e
      then (case pages (e_key e) of
              None \<Rightarrow> [Err (ReferencedPageMissingFromEvlr e)]
            | Some p \<Rightarrow> map Ok (p_entries p))
      else [Ok e])"

definition entries_left :: "entry_iterator \<Rightarrow> entry outcome list" where
  "entries_left it =
     (case ei_ref_iter it of None \<Rightarrow> [] | Some es \<Rightarrow> map Ok es)
     @ concat (map (resolve (ei_sub_pages it)) (ei_root_iter it))"

lemma entry_next_left:
  "entries_left it =
     (case fst (entry_next it) of None \<Rightarrow> [] | Some x \<Rightarrow> [x]) @ entries_left (snd (entry_next it)) \<and>
   (fst (entry_next it) = None \<longrightarrow> entries_left it = [])"
proof (induction it rule: entry_next.induct)
  case (1 it)
  show ?case
  proof (cases "ei_ref_iter it")
    case None
    show ?thesis
    proof (cases "ei_root_iter it")
      case Nil
      with None show ?thesis by (subst (1 2 3) entry_next.simps) (simp add: entries_left_def)
    next
      case (Cons e es)
      with None 1(1) [OF None Cons] show ?thesis
        by (subst (1 2 3) entry_next.simps)
          (auto simp: entries_left_def resolve_def split: option.splits)
    qed
  next
    case (Some es)
    show ?thesis
    proof (cases es)
      case Nil
      have "entry_next it = entry_next (it\<lparr>ei_ref_iter := None\<rparr>)"
        using Some Nil by (subst entry_next.simps) simp
      moreover have "entries_left (it\<lparr>ei_ref_iter := None\<rparr>) = entries_left it"
        using Some Nil by (simp add: entries_left_def)
      ultimately show ?thesis using 1(2) [OF Some Nil] by metis
    next
      case (Cons e es')
      with Some show ?thesis by (subst (1 2 3) entry_next.simps) (simp add: entries_left_def)
    qed
  qed
qed

interpretation entries: item_iterator entry_next entries_left
proof
  show "entries_left s = x # entries_left t" if "entry_next s = (Some x, t)" for s x t
    using entry_next_left [of s] that by simp
  show "entries_left s = [] \<and> entries_left t = []" if "entry_next s = (None, t)" for s t
    using entry_next_left [of s] that by auto
qed

text \<open>Collecting the items of the iterator.\<close>

function entries_collect :: "entry_iterator \<Rightarrow> entry outcome list" where
  "entries_collect it =
     (case entry_next it of (None, _) \<Rightarrow> [] | (Some x, it') \<Rightarrow> x # entries_collect it')"
  by auto
termination
  by (relation "measure (\<lambda>it. length (entries_left it))") (auto intro: entries.shrinks [OF sym])

declare entries_collect.simps [simp del]

lemma entries_collect_left: "entries_collect it = entries_left it"
proof (induction it rule: entries_collect.induct)
  case (1 it)
  then show ?case
    using entries.yields_next [of it] entries.yields_end [of it]
    by (subst entries_collect.simps) (auto split: prod.splits option.splits)
qed

section \<open>Reading the points of an entry\<close>

record ('v, 'i, 'y) layered =
  lay_items :: "'v \<Rightarrow> 'i"
  lay_new :: "cursor \<Rightarrow> 'y"
  lay_set_fields_from :: "'i \<Rightarrow> ('y, unit) io"
  lay_get :: "'y \<Rightarrow> cursor"
  lay_set :: "cursor \<Rightarrow> 'y \<Rightarrow> 'y"
  lay_decompress_many :: "('y \<times> bytes, unit) io"

record ('d, 'u, 'y) entry_reader =
  er_decompressor :: 'y
  er_buffer :: cursor
  er_header :: "('d, 'u) header"

definition entry_reader_new ::
  "('d, 'u) env \<Rightarrow> ('v, 'c, 'z) laz \<Rightarrow> ('v, 'i, 'y) layered \<Rightarrow> cursor \<Rightarrow> ('d, 'u, 'y) entry_reader outcome" where
  "entry_reader_new E L Y read =
     (case header_new E read of
        (r, c) \<Rightarrow>
          and_then r (\<lambda>h.
          and_then (laz_vlr L h) (\<lambda>v.
          case lay_set_fields_from Y (lay_items Y v) (lay_new Y c) of
            (r, y) \<Rightarrow>
              and_then r (\<lambda>_.
              Ok \<lparr>er_decompressor = y, er_buffer = \<lparr>c_data = [], c_pos = 0\<rparr>, er_header = h\<rparr>))))"

fun ok_items :: "'a outcome list \<Rightarrow> 'a list" where
  "ok_items [] = []"
| "ok_items (Ok a # xs) = a # ok_items xs"
| "ok_items (_ # xs) = ok_items xs"

definition hierarchy_entries :: "('d, 'u, 'y) entry_reader \<Rightarrow> entry list option outcome" where
  "hierarchy_entries r =
     and_then (copc_hierarchy_evlr (er_header r)) (\<lambda>v.
     Ok (map_option (\<lambda>v. ok_items (entries_collect (iter_entries v))) v))"

text \<open>A call of the decompressor with the bytes of the buffer, and a read from the buffer.\<close>

definition layered_decompress :: "('y \<times> bytes, unit) io \<Rightarrow> (('d, 'u, 'y) entry_reader, unit) io" where
  "layered_decompress =
     io_zoom (\<lambda>r. (er_decompressor r, c_data (er_buffer r)))
       (\<lambda>(y, bs) r. r\<lparr>er_decompressor := y, er_buffer := (er_buffer r)\<lparr>c_data := bs\<rparr>\<rparr>)"

definition entry_point :: "(('d, 'u, 'y) entry_reader, point) io" where
  "entry_point =
     io_bind io_get (\<lambda>r.
     io_bind (io_zoom er_buffer (\<lambda>c r. r\<lparr>er_buffer := c\<rparr>)
       (raw_point_read_from (h_point_format (er_header r)))) (\<lambda>p.
     io_lift (point_new p (h_transforms (er_header r)))))"

fun push_entry_points :: "nat \<Rightarrow> (('d, 'u, 'y) entry_reader \<times> point list, unit) io" where
  "push_entry_points 0 = io_return ()"
| "push_entry_points (Suc n) =
     io_bind (alone entry_point) (\<lambda>p.
     io_bind (io_modify (\<lambda>(r, ps). (r, ps @ [p]))) (\<lambda>_.
     push_entry_points n))"

definition read_entry_points ::
  "('d, 'u) env \<Rightarrow> ('v, 'i, 'y) layered \<Rightarrow> entry \<Rightarrow>
   (('d, 'u, 'y) entry_reader \<times> point list, u64) io" where
  "read_entry_points E Y e =
     (let n = scast (e_point_count e) :: u64 in
     io_bind io_get (\<lambda>(r, _).
     io_bind (alone (io_zoom (\<lambda>r. lay_get Y (er_decompressor r))
       (\<lambda>c r. r\<lparr>er_decompressor := lay_set Y c (er_decompressor r)\<rparr>)
       (seek_start (unat (e_offset e))))) (\<lambda>_.
     io_bind (reserve E (unat n)) (\<lambda>_.
     io_bind (io_lift (and_then (format_len (h_point_format (er_header r))) (\<lambda>len.
       checked_mul n (ucast len)))) (\<lambda>resized.
     io_bind (alone (
        io_bind (io_lift (resize_zeroed (unat resized))) (\<lambda>_.
        io_bind (io_modify (\<lambda>r. r\<lparr>er_buffer := (er_buffer r)
          \<lparr>c_data := resize (unat resized) (c_data (er_buffer r))\<rparr>\<rparr>)) (\<lambda>_.
        io_bind (layered_decompress (lay_decompress_many Y)) (\<lambda>_.
        io_modify (\<lambda>r. r\<lparr>er_buffer := (er_buffer r)\<lparr>c_pos := 0\<rparr>\<rparr>)))))) (\<lambda>_.
     io_bind (reserve E (unat n)) (\<lambda>_.
     io_bind (push_entry_points (unat n)) (\<lambda>_.
     io_return n))))))))"

end
