(* ===== verification/Octree.thy ===== *)
theory Octree
  imports Copc
begin

text \<open>
  The octree of the voxel keys (\<^verbatim>\<open>VoxelKey\<close> of \<^verbatim>\<open>src/copc.rs\<close>): the keys of a level are reached
  from the root by exactly one path each, and the parent undoes a step.
\<close>

section \<open>The octree\<close>

definition direction :: "i32 \<Rightarrow> bool" where
  "direction d \<longleftrightarrow> 0 \<le> sint d \<and> sint d < 8"

text \<open>The keys of a level: every coordinate is a number of that many bits.\<close>

definition coordinate :: "nat \<Rightarrow> i32 \<Rightarrow> bool" where
  "coordinate l c \<longleftrightarrow> 0 \<le> sint c \<and> sint c < 2 ^ l"

definition key_at :: "nat \<Rightarrow> voxel_key \<Rightarrow> bool" where
  "key_at l k \<longleftrightarrow>
     sint (vk_l k) = int l \<and> coordinate l (vk_x k) \<and> coordinate l (vk_y k) \<and> coordinate l (vk_z k)"

fun descend :: "voxel_key \<Rightarrow> i32 list \<Rightarrow> voxel_key outcome" where
  "descend k [] = Ok k"
| "descend k (d # ds) = and_then (child k d) (\<lambda>c. descend c ds)"

lemma i32_eq_iff: "a = b \<longleftrightarrow> sint (a :: i32) = sint b"
  by (rule word_eq_iff_signed)

lemma sint_and_1: "sint (w AND 1 :: i32) = sint w mod 2"
  unfolding signed_and_eq by (simp add: and_one_eq)

lemma sint_half: "sint (signed_drop_bit n (x :: i32)) = sint x div 2 ^ n"
  by (simp add: sint_signed_drop_bit_eq drop_bit_eq_div)

lemma sint_interleave:
  assumes "- (2 ^ 30) \<le> sint (x :: i32)" "sint x < 2 ^ 30"
  shows "sint (push_bit 1 x OR (d AND 1)) = 2 * sint x + sint d mod 2"
proof -
  have "sint (push_bit 1 x) = 2 * sint x"
    unfolding signed_push_bit_eq using assms by (simp add: signed_take_bit_int_eq_self push_bit_eq_mult)
  then have "sint (push_bit 1 x OR (d AND 1)) = (2 * sint x) OR (sint d mod 2)"
    unfolding signed_or_eq by (simp only: sint_and_1)
  also have "\<dots> = 2 * sint x + sint d mod 2"
    by (cases "even (sint d)") (simp_all add: or_one_eq odd_iff_mod_2_eq_one)
  finally show ?thesis .
qed

lemma half_interleave:
  assumes "- (2 ^ 30) \<le> sint (x :: i32)" "sint x < 2 ^ 30"
  shows "signed_drop_bit 1 (push_bit 1 x OR (d AND 1)) = x"
  unfolding i32_eq_iff sint_half sint_interleave [OF assms] by simp

lemma sint_succ: "sint (l :: i32) < 2 ^ 31 - 1 \<Longrightarrow> sint (l + 1) = sint l + 1"
  using sint_ge [of l] by (simp add: sint_word_ariths(1) signed_take_bit_int_eq_self)

lemma checked_sadd_1: "checked_sadd (l :: i32) 1 = (if sint l < 2 ^ 31 - 1 then Ok (l + 1) else Panic)"
  using sint_ge [of l] by (simp add: checked_sadd_def)

text \<open>The parent of a child is the key itself, as long as no bit is shifted out.\<close>

lemma parent_child:
  assumes "direction d" "0 \<le> sint (vk_l k)" "sint (vk_l k) < 2 ^ 31 - 1"
    and "\<And>c. c \<in> {vk_x k, vk_y k, vk_z k} \<Longrightarrow> - (2 ^ 30) \<le> sint c \<and> sint c < 2 ^ 30"
  shows "\<exists>c. child k d = Ok c \<and> parent c = Ok k \<and> sint (vk_l c) = sint (vk_l k) + 1 \<and>
     sint (vk_x c) = 2 * sint (vk_x k) + sint d mod 2 \<and>
     sint (vk_y c) = 2 * sint (vk_y k) + sint d div 2 mod 2 \<and>
     sint (vk_z c) = 2 * sint (vk_z k) + sint d div 4 mod 2"
proof -
  let ?c = "\<lparr>vk_l = vk_l k + 1, vk_x = push_bit 1 (vk_x k) OR (d AND 1),
     vk_y = push_bit 1 (vk_y k) OR (signed_drop_bit 1 d AND 1),
     vk_z = push_bit 1 (vk_z k) OR (signed_drop_bit 2 d AND 1)\<rparr>"
  have c: "child k d = Ok ?c"
    using assms(1,3) by (simp add: child_def direction_def checked_sadd_1)
  have l: "sint (vk_l k + 1) = sint (vk_l k) + 1" using assms(3) by (rule sint_succ)
  note range = assms(4) [of "vk_x k", simplified] assms(4) [of "vk_y k", simplified]
    assms(4) [of "vk_z k", simplified]
  have "parent ?c = Ok k"
    using assms(2,3) l range by (cases k) (simp add: parent_def checked_ssub_def half_interleave del: One_nat_def)
  then show ?thesis
    using c l range by (simp add: sint_interleave sint_half del: One_nat_def)
qed

lemma direction_bits: "direction d \<Longrightarrow> sint d = sint d mod 2 + 2 * (sint d div 2 mod 2) + 4 * (sint d div 4 mod 2)"
proof -
  have "n = n mod 2 + 2 * (n div 2 mod 2) + 4 * (n div 4 mod 2)" if "0 \<le> n" "n < 8" for n :: int
  proof -
    have "n \<in> {0, 1, 2, 3, 4, 5, 6, 7}" using that by auto
    then show ?thesis by (elim insertE) auto
  qed
  then show "direction d \<Longrightarrow> ?thesis" unfolding direction_def by blast
qed

lemma three_bits:
  fixes a b c :: int
  assumes "a mod 2 + 2 * (b mod 2) + 4 * (c mod 2) = a' mod 2 + 2 * (b' mod 2) + 4 * (c' mod 2)"
  shows "a mod 2 = a' mod 2 \<and> b mod 2 = b' mod 2 \<and> c mod 2 = c' mod 2"
proof -
  have bit: "n mod 2 = 0 \<or> n mod 2 = 1" for n :: int by presburger
  show ?thesis
    using assms bit [of a] bit [of b] bit [of c] bit [of a'] bit [of b'] bit [of c'] by auto
qed

lemma coordinate_double:
  assumes "coordinate l c" "sint c' = 2 * sint c + n mod 2"
  shows "coordinate (Suc l) c'"
proof -
  have "0 \<le> n mod 2 \<and> n mod 2 \<le> 1" by simp
  then show ?thesis using assms unfolding coordinate_def power_Suc by linarith
qed

lemma coordinate_half:
  assumes "coordinate (Suc l) c"
  shows "coordinate l (signed_drop_bit 1 c)"
  using assms unfolding coordinate_def sint_half by (auto simp: div_pos_pos_trivial)

lemma coordinate_range: "coordinate l c \<Longrightarrow> l \<le> 30 \<Longrightarrow> - (2 ^ 30) \<le> sint c \<and> sint c < 2 ^ 30"
proof -
  assume c: "coordinate l c" and "l \<le> 30"
  then have "(2 :: int) ^ l \<le> 2 ^ 30" by (intro power_increasing) auto
  with c show ?thesis unfolding coordinate_def by linarith
qed

lemma child_key_at:
  assumes "key_at l k" "l \<le> 30" "direction d"
  shows "\<exists>c. child k d = Ok c \<and> key_at (Suc l) c \<and> parent c = Ok k \<and>
    sint d = sint (vk_x c) mod 2 + 2 * (sint (vk_y c) mod 2) + 4 * (sint (vk_z c) mod 2)"
proof -
  have l: "sint (vk_l k) = int l" and cs: "coordinate l (vk_x k)" "coordinate l (vk_y k)" "coordinate l (vk_z k)"
    using assms(1) by (auto simp: key_at_def)
  have "0 \<le> sint (vk_l k)" "sint (vk_l k) < 2 ^ 31 - 1" using l assms(2) by auto
  moreover have "- (2 ^ 30) \<le> sint c \<and> sint c < 2 ^ 30" if "c \<in> {vk_x k, vk_y k, vk_z k}" for c
    using that cs coordinate_range [OF _ assms(2)] by blast
  ultimately obtain c where c: "child k d = Ok c" "parent c = Ok k" "sint (vk_l c) = sint (vk_l k) + 1"
     and cc: "sint (vk_x c) = 2 * sint (vk_x k) + sint d mod 2"
     "sint (vk_y c) = 2 * sint (vk_y k) + sint d div 2 mod 2"
     "sint (vk_z c) = 2 * sint (vk_z k) + sint d div 4 mod 2"
    using parent_child [OF assms(3)] by blast
  have "key_at (Suc l) c"
    using coordinate_double [OF cs(1) cc(1)] coordinate_double [OF cs(2) cc(2)]
      coordinate_double [OF cs(3) cc(3)] c(3) l by (auto simp: key_at_def)
  moreover have "sint d = sint (vk_x c) mod 2 + 2 * (sint (vk_y c) mod 2) + 4 * (sint (vk_z c) mod 2)"
  proof -
    have even_add: "(2 * a + n mod 2) mod 2 = n mod 2" for a n :: int by presburger
    show ?thesis unfolding cc even_add by (rule direction_bits [OF assms(3)])
  qed
  ultimately show ?thesis using c by blast
qed

text \<open>Every key below the root is a child of a key of the level above.\<close>

lemma key_at_child:
  assumes "key_at (Suc l) c" "l \<le> 30"
  shows "\<exists>k d. key_at l k \<and> direction d \<and> child k d = Ok c"
proof -
  let ?b = "\<lambda>c :: i32. sint c mod 2"
  let ?d = "word_of_int (?b (vk_x c) + 2 * ?b (vk_y c) + 4 * ?b (vk_z c)) :: i32"
  let ?k = "\<lparr>vk_l = vk_l c - 1, vk_x = signed_drop_bit 1 (vk_x c), vk_y = signed_drop_bit 1 (vk_y c),
     vk_z = signed_drop_bit 1 (vk_z c)\<rparr>"
  have l: "sint (vk_l c) = int (Suc l)" and cs: "coordinate (Suc l) (vk_x c)" "coordinate (Suc l) (vk_y c)"
    "coordinate (Suc l) (vk_z c)" using assms(1) by (auto simp: key_at_def)
  have "sint (vk_l c - 1) = int l"
    using l assms(2) by (simp add: sint_word_ariths(2) signed_take_bit_int_eq_self)
  then have k: "key_at l ?k" using coordinate_half [OF cs(1)] coordinate_half [OF cs(2)] coordinate_half [OF cs(3)]
    by (simp add: key_at_def)
  have b: "0 \<le> ?b c \<and> ?b c \<le> 1" for c by simp
  have sd: "sint ?d = ?b (vk_x c) + 2 * ?b (vk_y c) + 4 * ?b (vk_z c)"
    using b [of "vk_x c"] b [of "vk_y c"] b [of "vk_z c"]
    unfolding sint_sbintrunc' by (intro signed_take_bit_int_eq_self) simp_all
  then have d: "direction ?d" unfolding direction_def
    using b [of "vk_x c"] b [of "vk_y c"] b [of "vk_z c"] by linarith
  from child_key_at [OF k assms(2) d] obtain c' where
    c': "child ?k ?d = Ok c'" "key_at (Suc l) c'" "parent c' = Ok ?k"
    "sint ?d = ?b (vk_x c') + 2 * ?b (vk_y c') + 4 * ?b (vk_z c')" by blast
  have halves: "sint (vk_x c') div 2 = sint (vk_x c) div 2" "sint (vk_y c') div 2 = sint (vk_y c) div 2"
    "sint (vk_z c') div 2 = sint (vk_z c) div 2"
    using c'(3) by (auto simp: parent_def sint_half dest!: arg_cong [of _ _ sint] simp del: One_nat_def)
  have bits: "?b (vk_x c') = ?b (vk_x c)" "?b (vk_y c') = ?b (vk_y c)" "?b (vk_z c') = ?b (vk_z c)"
    using three_bits [OF c'(4) [unfolded sd]] by simp_all
  have lv: "sint (vk_l c') = sint (vk_l c)" using c'(2) l by (simp add: key_at_def)
  have parity: "a = b" if "a div 2 = b div 2" "a mod 2 = b mod 2" for a b :: int
    using that by (metis div_mult_mod_eq)
  note eqs = lv parity [OF halves(1) bits(1)] parity [OF halves(2) bits(2)] parity [OF halves(3) bits(3)]
  have "c' = c" using eqs [folded i32_eq_iff] by simp
  with k d c'(1) show ?thesis by blast
qed

lemma and_then_Ok [simp]: "and_then r Ok = r"
  by (cases r) simp_all

lemma descend_snoc: "descend k (ds @ [d]) = and_then (descend k ds) (\<lambda>c. child c d)"
  by (induction ds arbitrary: k) (auto simp: and_then_assoc)

abbreviation paths :: "nat \<Rightarrow> i32 list set" where
  "paths l \<equiv> {ds. length ds = l \<and> list_all direction ds}"

lemma paths_Suc: "ds \<in> paths (Suc l) \<Longrightarrow> \<exists>ds' d. ds = ds' @ [d] \<and> ds' \<in> paths l \<and> direction d"
  by (cases ds rule: rev_cases) auto

lemma descend_key_at: "ds \<in> paths l \<Longrightarrow> l \<le> 31 \<Longrightarrow> \<exists>k. descend VOXEL_ROOT ds = Ok k \<and> key_at l k"
proof (induction l arbitrary: ds)
  case 0
  then show ?case by (simp add: key_at_def coordinate_def VOXEL_ROOT_def)
next
  case (Suc l)
  from paths_Suc [OF Suc.prems(1)] obtain ds' d
    where ds: "ds = ds' @ [d]" "ds' \<in> paths l" "direction d" by blast
  from Suc.IH [OF ds(2)] Suc.prems(2) obtain k where k: "descend VOXEL_ROOT ds' = Ok k" "key_at l k" by auto
  from child_key_at [OF k(2) _ ds(3)] Suc.prems(2) k(1) ds(1) show ?case by (auto simp: descend_snoc)
qed

lemma descend_inj: "l \<le> 31 \<Longrightarrow> inj_on (descend VOXEL_ROOT) (paths l)"
proof (induction l)
  case 0
  then show ?case by (simp add: inj_on_def)
next
  case (Suc l)
  show ?case
  proof (rule inj_onI)
    fix p q
    assume p: "p \<in> paths (Suc l)" and q: "q \<in> paths (Suc l)" and eq: "descend VOXEL_ROOT p = descend VOXEL_ROOT q"
    from paths_Suc [OF p] obtain p' d where p': "p = p' @ [d]" "p' \<in> paths l" "direction d" by blast
    from paths_Suc [OF q] obtain q' e where q': "q = q' @ [e]" "q' \<in> paths l" "direction e" by blast
    have l: "l \<le> 30" "l \<le> 31" using Suc.prems by simp_all
    from descend_key_at [OF p'(2) l(2)] obtain j where j: "descend VOXEL_ROOT p' = Ok j" "key_at l j" by blast
    from descend_key_at [OF q'(2) l(2)] obtain k where k: "descend VOXEL_ROOT q' = Ok k" "key_at l k" by blast
    have c: "child j d = child k e" using eq p'(1) q'(1) j(1) k(1) by (simp add: descend_snoc)
    obtain c where c1: "parent c = Ok j" "parent c = Ok k" "sint d = sint e"
      using child_key_at [OF j(2) l(1) p'(3)] child_key_at [OF k(2) l(1) q'(3)] c by auto
    have "j = k" using c1(1,2) by simp
    moreover have "d = e" using c1(3) unfolding i32_eq_iff .
    moreover have "p' = q'" if "j = k"
      using inj_onD [OF Suc.IH [OF l(2)] _ p'(2) q'(2)] j(1) k(1) that by simp
    ultimately show "p = q" using p'(1) q'(1) by simp
  qed
qed

lemma descend_onto: "key_at l k \<Longrightarrow> l \<le> 31 \<Longrightarrow> \<exists>ds \<in> paths l. descend VOXEL_ROOT ds = Ok k"
proof (induction l arbitrary: k)
  case 0
  then have "sint (vk_l k) = sint (0 :: i32)" "sint (vk_x k) = sint (0 :: i32)"
    "sint (vk_y k) = sint (0 :: i32)" "sint (vk_z k) = sint (0 :: i32)"
    by (auto simp: key_at_def coordinate_def)
  then have "k = VOXEL_ROOT" unfolding i32_eq_iff [symmetric] by (simp add: VOXEL_ROOT_def)
  then show ?case by simp
next
  case (Suc l)
  then obtain p d where "key_at l p" "direction d" "child p d = Ok k" using key_at_child by force
  with Suc obtain ds where "ds \<in> paths l" "descend VOXEL_ROOT ds = Ok p" by auto
  with \<open>direction d\<close> \<open>child p d = Ok k\<close> have "ds @ [d] \<in> paths (Suc l)" "descend VOXEL_ROOT (ds @ [d]) = Ok k"
    by (auto simp: descend_snoc)
  then show ?case by blast
qed

text \<open>
  C21. Down to level 31, descending from the root key along the eight directions is a bijection
  between the paths of length \<open>l\<close> and the keys of level \<open>l\<close> whose coordinates are numbers of
  \<open>l\<close> bits, and the parent of a child is the key it was made from.  A direction that is not
  in 0 to 7 is refused.  One level further down, coordinates overflow.
\<close>

theorem octree_keys:
  assumes "l \<le> 31"
  shows "bij_betw (descend VOXEL_ROOT) {ds. length ds = l \<and> list_all direction ds} (Ok ` {k. key_at l k}) \<and>
    (\<forall>k d c. key_at l k \<and> l < 31 \<and> child k d = Ok c \<longrightarrow> parent c = Ok k) \<and>
    (\<forall>k d. \<not> direction d \<longrightarrow> child k d = Err (InvalidDirection d))"
proof (intro conjI allI impI)
  have "descend VOXEL_ROOT ` paths l = Ok ` {k. key_at l k}"
    using descend_key_at descend_onto assms by (fastforce simp: image_iff)
  then show "bij_betw (descend VOXEL_ROOT) (paths l) (Ok ` {k. key_at l k})"
    using descend_inj [OF assms] by (simp add: bij_betw_def)
next
  fix k d c
  assume a: "key_at l k \<and> l < 31 \<and> child k d = Ok c"
  then have "direction d" by (auto simp: child_def direction_def split: if_splits)
  with child_key_at [of l k d] a show "parent c = Ok k" by auto
next
  show "child k d = Err (InvalidDirection d)" if "\<not> direction d" for k d
    using that by (simp add: child_def direction_def)
qed

theorem octree_keys_witness:
  "(\<exists>ds. length ds = 2 \<and> list_all direction ds \<and>
      descend VOXEL_ROOT ds = Ok \<lparr>vk_l = 2, vk_x = 3, vk_y = 0, vk_z = 1\<rparr>) \<and>
   child VOXEL_ROOT 8 = Err (InvalidDirection 8)"
proof -
  let ?k = "\<lparr>vk_l = 2, vk_x = 3, vk_y = 0, vk_z = 1\<rparr>"
  have "key_at 2 ?k" by (simp add: key_at_def coordinate_def)
  then have "Ok ?k \<in> descend VOXEL_ROOT ` paths 2"
    using octree_keys [of 2] by (simp only: bij_betw_def) blast
  moreover have "\<not> direction 8" by (simp add: direction_def)
  then have "child VOXEL_ROOT 8 = Err (InvalidDirection 8)" using octree_keys [of 2] by simp
  ultimately show ?thesis by fastforce
qed

end
