(* ===== verification/Copc_Properties.thy ===== *)
theory Copc_Properties
  imports Octree Whole_File
begin

text \<open>
  Properties of the COPC data: the info record survives being written and read, and a hierarchy
  does when its pages are written in the order that its entries describe, the entry iterator refines the flattened list of entries, and reading an entry yields the
  points of its chunk.
\<close>

section \<open>Codecs\<close>

definition enc_info :: "copc_info_vlr \<Rightarrow> bytes" where
  "enc_info v =
     to_le 8 (ci_center_x v) @ to_le 8 (ci_center_y v) @ to_le 8 (ci_center_z v)
     @ to_le 8 (ci_halfsize v) @ to_le 8 (ci_spacing v) @ to_le 8 (ci_root_hier_offset v)
     @ to_le 8 (ci_root_hier_size v) @ to_le 8 (ci_gpstime_minimum v) @ to_le 8 (ci_gpstime_maximum v)
     @ concat (map (to_le 8) (ci_reserved v))"

definition enc_voxel_key :: "voxel_key \<Rightarrow> bytes" where
  "enc_voxel_key k = to_le 4 (vk_l k) @ to_le 4 (vk_x k) @ to_le 4 (vk_y k) @ to_le 4 (vk_z k)"

definition enc_entry :: "entry \<Rightarrow> bytes" where
  "enc_entry e =
     enc_voxel_key (e_key e) @ to_le 8 (e_offset e) @ to_le 4 (e_byte_size e) @ to_le 4 (e_point_count e)"

definition enc_page :: "page \<Rightarrow> bytes" where
  "enc_page p = concat (map enc_entry (p_entries p))"

lemma reads_info: "length (ci_reserved v) = 11 \<Longrightarrow> reads copc_info_read_from (enc_info v) v"
  unfolding copc_info_read_from_def enc_info_def
  by (rule reads_bind, rule prim_reads)+ (rule reads_map, rule u64.reads_list_len, simp, simp)

lemma reads_voxel_key: "reads voxel_key_read_from (enc_voxel_key k) k"
  unfolding voxel_key_read_from_def enc_voxel_key_def
  by (rule reads_bind, rule prim_reads)+ (rule reads_map, rule prim_reads, simp)

lemma reads_entry: "reads entry_read_from (enc_entry e) e"
  unfolding entry_read_from_def enc_entry_def
  by (rule reads_bind, rule reads_voxel_key) ((rule reads_bind, rule prim_reads)+, rule reads_map, rule prim_reads, simp)

lemma length_enc_voxel_key: "length (enc_voxel_key k) = 16"
  by (simp add: enc_voxel_key_def)

lemma length_enc_entry: "length (enc_entry e) = 32"
  by (simp add: enc_entry_def length_enc_voxel_key)

lemma length_enc_page: "length (enc_page p) = 32 * length (p_entries p)"
  by (simp add: enc_page_def length_concat comp_def length_enc_entry sum_list_triv mult.commute)

interpretation info: serial copc_info_read_from copc_info_write_to enc_info
  "\<lambda>v. length (ci_reserved v) = 11"
proof
  show "writes (copc_info_write_to v) (enc_info v)" for v
    unfolding copc_info_write_to_def enc_info_def by (intro stream u64.writes_list)
  have "0 < length (enc_info v)" for v by (simp add: enc_info_def)
  then show "enc_info v \<noteq> []" for v by auto
qed (rule reads_info)

interpretation entry: serial entry_read_from entry_write_to enc_entry "\<lambda>_. True"
proof
  have "writes (voxel_key_write_to k) (enc_voxel_key k)" for k
    unfolding voxel_key_write_to_def enc_voxel_key_def by (intro stream)
  then show "writes (entry_write_to e) (enc_entry e)" for e
    unfolding entry_write_to_def enc_entry_def by (intro stream)
  show "enc_entry e \<noteq> []" for e using length_enc_entry [of e] by auto
qed (rule reads_entry)

lemma read_slice_reads: "reads m bs v \<Longrightarrow> read_slice m (bs @ rest) = Ok v"
  by (simp add: read_slice_def reads_def ahead_def)

lemma page_read_enc: "page_read_from (enc_page p) = Ok p"
proof -
  have "reads (io_times (length (p_entries p)) entry_read_from) (enc_page p) (p_entries p)"
    unfolding enc_page_def by (rule entry.reads_many) (simp_all add: list_all_iff)
  from read_slice_reads [OF this, of "[]"] show ?thesis
    by (simp add: page_read_from_def length_enc_page)
qed

lemma writes_page: "writes (page_write_to p) (enc_page p)"
  unfolding page_write_to_def enc_page_def by (rule entry.writes_many) (simp add: list_all_iff)

text \<open>Reading a page never fails: it takes as many entries as there are.\<close>

lemma page_read_total: "\<exists>es. page_read_from data = Ok \<lparr>p_entries = es\<rparr> \<and> length es = length data div 32"
proof -
  have "consumes entry_read_from (4 + (4 + (4 + (4 + 0))) + (8 + (4 + (4 + 0))))"
    unfolding entry_read_from_def voxel_key_read_from_def by (intro stream)
  then have "consumes (io_times (length data div 32) entry_read_from) (length data div 32 * 32)"
    by (intro consumes_times) simp
  moreover have "length data div 32 * 32 \<le> remaining \<lparr>c_data = data, c_pos = 0\<rparr>"
    by (simp add: remaining_def)
  ultimately obtain es c where
    es: "io_times (length data div 32) entry_read_from \<lparr>c_data = data, c_pos = 0\<rparr> = (Ok es, c)"
    unfolding consumes_def by blast
  with yieldsD [OF yields_times es] show ?thesis by (simp add: page_read_from_def read_slice_def)
qed

lemma enc_entry_surj:
  assumes "length bs = 32"
  shows "\<exists>e. enc_entry e = bs"
proof -
  obtain l b1 where 1: "bs = to_le 4 (l :: u32) @ b1" "length b1 = 28" using u32.split_enc [of bs] assms by auto
  obtain x b2 where 2: "b1 = to_le 4 (x :: u32) @ b2" "length b2 = 24" using u32.split_enc [of b1] 1(2) by auto
  obtain y b3 where 3: "b2 = to_le 4 (y :: u32) @ b3" "length b3 = 20" using u32.split_enc [of b2] 2(2) by auto
  obtain z b4 where 4: "b3 = to_le 4 (z :: u32) @ b4" "length b4 = 16" using u32.split_enc [of b3] 3(2) by auto
  obtain off b5 where 5: "b4 = to_le 8 (off :: u64) @ b5" "length b5 = 8" using u64.split_enc [of b4] 4(2) by auto
  obtain size b6 where 6: "b5 = to_le 4 (size :: u32) @ b6" "length b6 = 4" using u32.split_enc [of b5] 5(2) by auto
  obtain cnt where 7: "to_le 4 (cnt :: u32) = b6" using u32.enc_surj 6(2) by blast
  have "enc_entry \<lparr>e_key = \<lparr>vk_l = l, vk_x = x, vk_y = y, vk_z = z\<rparr>, e_offset = off, e_byte_size = size,
      e_point_count = cnt\<rparr> = bs"
    by (simp add: enc_entry_def enc_voxel_key_def 1 2 3 4 5 6 7)
  then show ?thesis by blast
qed

lemma enc_page_surj: "length bs = 32 * n \<Longrightarrow> \<exists>p. enc_page p = bs"
proof (induction n arbitrary: bs)
  case 0
  then show ?case by (intro exI [of _ "\<lparr>p_entries = []\<rparr>"]) (simp add: enc_page_def)
next
  case (Suc n)
  have "length (take 32 bs) = 32" using Suc.prems by simp
  from enc_entry_surj [OF this] obtain e where e: "enc_entry e = take 32 bs" by blast
  have "length (drop 32 bs) = 32 * n" using Suc.prems by simp
  from Suc.IH [OF this] obtain p where p: "enc_page p = drop 32 bs" by blast
  have "enc_page \<lparr>p_entries = e # p_entries p\<rparr> = enc_entry e @ enc_page p"
    unfolding enc_page_def page.simps list.map concat.simps ..
  also have "\<dots> = bs" unfolding e p by (rule append_take_drop_id)
  finally show ?case by blast
qed

lemma enc_page_inj: "enc_page p = enc_page q \<Longrightarrow> p = q"
  by (metis outcome.inject(1) page_read_enc)

section \<open>Hierarchies through their records\<close>

definition enc_pages :: "voxel_key list \<Rightarrow> copc_hierarchy_vlr \<Rightarrow> bytes" where
  "enc_pages ks h = concat (map (\<lambda>k. case ch_sub_pages h k of Some p \<Rightarrow> enc_page p | None \<Rightarrow> []) ks)"

definition enc_hierarchy :: "voxel_key list \<Rightarrow> copc_hierarchy_vlr \<Rightarrow> bytes" where
  "enc_hierarchy ks h = enc_page (ch_root h) @ enc_pages ks h"

text \<open>
  A hierarchy whose entries point to where its pages are written: the root page has the size
  that the info record declares, the pages are those that the root entries reference, and each
  of these entries has the place and the size of its page.
\<close>

definition page_place :: "copc_info_vlr \<Rightarrow> voxel_key list \<Rightarrow> copc_hierarchy_vlr \<Rightarrow> entry \<Rightarrow> bool" where
  "page_place info order h e =
     (case ch_sub_pages h (e_key e) of
        None \<Rightarrow> False
      | Some p \<Rightarrow>
          unat (e_offset e) =
            unat (ci_root_hier_offset info) + length (enc_hierarchy (takeWhile (\<lambda>k. k \<noteq> e_key e) order) h) \<and>
          sint (e_byte_size e) = int (length (enc_page p)))"

definition hierarchy_ok :: "copc_info_vlr \<Rightarrow> voxel_key list \<Rightarrow> copc_hierarchy_vlr \<Rightarrow> bool" where
  "hierarchy_ok info order h \<longleftrightarrow>
     (let refs = filter is_referencing_page (p_entries (ch_root h)) in
      unat (ci_root_hier_size info) = length (enc_page (ch_root h)) \<and>
      unat (ci_root_hier_offset info) + length (enc_hierarchy order h) < 2 ^ 64 \<and>
      distinct order \<and> set order = dom (ch_sub_pages h) \<and> e_key ` set refs = dom (ch_sub_pages h) \<and>
      list_all (page_place info order h) refs)"

lemma writes_hierarchy: "writes (hierarchy_write_to order h) (enc_hierarchy order h)"
proof -
  have "writes (case ch_sub_pages h k of Some p \<Rightarrow> page_write_to p | None \<Rightarrow> io_return ())
     (case ch_sub_pages h k of Some p \<Rightarrow> enc_page p | None \<Rightarrow> [])" for k
    by (auto split: option.split intro: writes_page writes_return)
  then show ?thesis
    unfolding hierarchy_write_to_def enc_hierarchy_def enc_pages_def
    by (intro writes_bind writes_page writes_each)
qed

lemma collect_results_map:
  "(\<And>x. x \<in> set xs \<Longrightarrow> f x = Ok (g x)) \<Longrightarrow> collect_results (map f xs) = Ok (map g xs)"
  by (induction xs) auto

lemma unat_scast_i32: "0 \<le> sint (n :: i32) \<Longrightarrow> unat (scast n :: u64) = nat (sint n)"
proof -
  assume n: "0 \<le> sint n"
  have "uint (scast n :: u64) = sint n"
    using n sint_lt [of n]
    by (simp add: signed_scast_eq uint_sint take_bit_int_eq_self signed_take_bit_int_eq_self)
  then show ?thesis by (simp flip: nat_uint_eq)
qed

lemma slice_middle:
  assumes "unat a = length pre" "unat b = length pre + length mid"
  shows "slice (pre @ mid @ post) a b = Ok mid"
  using assms by (simp add: slice_def word_le_nat_alt)

lemma enc_pages_split:
  assumes "k \<in> set order" "ch_sub_pages h k = Some p"
  obtains post where "enc_hierarchy order h = enc_hierarchy (takeWhile (\<lambda>j. j \<noteq> k) order) h @ enc_page p @ post"
proof -
  have "dropWhile (\<lambda>j. j \<noteq> k) order = k # tl (dropWhile (\<lambda>j. j \<noteq> k) order)"
    using assms(1) by (metis (mono_tags, lifting) dropWhile_eq_Nil_conv hd_dropWhile list.exhaust_sel)
  then have "order = takeWhile (\<lambda>j. j \<noteq> k) order @ k # tl (dropWhile (\<lambda>j. j \<noteq> k) order)"
    by (metis takeWhile_dropWhile_id)
  then have "enc_pages order h = enc_pages (takeWhile (\<lambda>j. j \<noteq> k) order) h @ enc_page p
      @ enc_pages (tl (dropWhile (\<lambda>j. j \<noteq> k) order)) h"
    using assms(2) by (metis (no_types, lifting) concat.simps(2) concat_append enc_pages_def list.simps(9)
        map_append option.simps(5))
  then show ?thesis using that by (simp add: enc_hierarchy_def)
qed

text \<open>A run of bytes is known from its pieces.\<close>

lemma map_of_keys:
  "map_of (map (\<lambda>x. (f x, g (f x))) xs) = (\<lambda>k. if k \<in> f ` set xs then Some (g k) else None)"
  by (induction xs) (auto simp: fun_eq_iff)

lemma pieces_tile:
  assumes "distinct ks" "length bs = length (concat (map f ks))"
    and "\<And>k. k \<in> set ks \<Longrightarrow>
      take (length (f k)) (drop (length (concat (map f (takeWhile (\<lambda>j. j \<noteq> k) ks)))) bs) = f k"
  shows "bs = concat (map f ks)"
  using assms
proof (induction ks arbitrary: bs)
  case (Cons k ks)
  have "take (length (f k)) bs = f k" using Cons.prems(3) [of k] by simp
  then have bs: "bs = f k @ drop (length (f k)) bs" by (metis append_take_drop_id)
  have "take (length (f j)) (drop (length (concat (map f (takeWhile (\<lambda>i. i \<noteq> j) ks)))) (drop (length (f k)) bs)) = f j"
    if "j \<in> set ks" for j
  proof -
    have "k \<noteq> j" using Cons.prems(1) that by auto
    with Cons.prems(3) [of j] that show ?thesis by (simp add: add.commute)
  qed
  with Cons.IH [of "drop (length (f k)) bs"] Cons.prems(1,2) bs show ?case by simp
qed simp

lemma slice_part:
  "unat a \<le> unat b \<Longrightarrow> unat b \<le> length bs \<Longrightarrow> slice bs a b = Ok (take (unat b - unat a) (drop (unat a) bs))"
  by (simp add: slice_def word_le_nat_alt)

text \<open>The bytes of a page, and where they start among the bytes of all pages in an order.\<close>

definition page_bytes :: "copc_hierarchy_vlr \<Rightarrow> voxel_key \<Rightarrow> bytes" where
  "page_bytes h k = enc_page (the (ch_sub_pages h k))"

definition page_start :: "voxel_key list \<Rightarrow> copc_hierarchy_vlr \<Rightarrow> voxel_key \<Rightarrow> nat" where
  "page_start layout h k = length (enc_pages (takeWhile (\<lambda>j. j \<noteq> k) layout) h)"

lemma sub_page_read:
  assumes "page_place info layout h e" "e_key e \<in> set layout"
    and "v_data v = enc_page (ch_root h) @ bs" "length bs = length (enc_pages layout h)"
    and "unat (ci_root_hier_offset info) + length (enc_hierarchy layout h) < 2 ^ 64"
    and "enc_page q = take (length (page_bytes h (e_key e))) (drop (page_start layout h (e_key e)) bs)"
  shows "sub_page v info e = Ok (e_key e, q)"
proof -
  let ?pre = "enc_hierarchy (takeWhile (\<lambda>j. j \<noteq> e_key e) layout) h"
  obtain p where p: "ch_sub_pages h (e_key e) = Some p"
    and off: "unat (e_offset e) = unat (ci_root_hier_offset info) + length ?pre"
    and size: "sint (e_byte_size e) = int (length (enc_page p))"
    using assms(1) by (auto simp: page_place_def split: option.splits)
  obtain post where data: "enc_hierarchy layout h = ?pre @ enc_page p @ post"
    using enc_pages_split [OF assms(2) p] .
  let ?start = "e_offset e - ci_root_hier_offset info"
  have start: "checked_sub (e_offset e) (ci_root_hier_offset info) = Ok ?start" "unat ?start = length ?pre"
    using off by (simp_all add: checked_sub_def word_le_nat_alt unat_sub)
  have "unat (scast (e_byte_size e) :: u64) = length (enc_page p)" using size by (simp add: unat_scast_i32)
  moreover have "length ?pre + length (enc_page p) < 2 ^ 64" using assms(5) unfolding data by simp
  ultimately have fin: "checked_add ?start (scast (e_byte_size e)) = Ok (?start + scast (e_byte_size e))"
    "unat (?start + scast (e_byte_size e)) = length ?pre + length (enc_page p)"
    using start(2) by (simp_all add: checked_add_def unat_word_ariths)
  have "length ?pre + length (enc_page p) \<le> length (v_data v)"
    using arg_cong [OF data, of length] assms(3,4) by (simp add: enc_hierarchy_def)
  then have "slice (v_data v) ?start (?start + scast (e_byte_size e)) = Ok (enc_page q)"
    using start(2) fin(2) assms(3,6) p
    by (subst slice_part) (simp_all add: enc_hierarchy_def page_bytes_def page_start_def)
  then show ?thesis using start(1) fin(1) by (simp add: sub_page_def page_read_enc)
qed

lemma length_enc_pages_mset:
  "mset ks = mset js \<Longrightarrow> length (enc_pages ks h) = length (enc_pages js h)"
  unfolding enc_pages_def length_concat by (simp flip: sum_mset_sum_list)

lemma enc_pages_bytes: "set ks \<subseteq> dom (ch_sub_pages h) \<Longrightarrow> enc_pages ks h = concat (map (page_bytes h) ks)"
  by (induction ks) (auto simp: enc_pages_def page_bytes_def)

lemma page_bytes_split:
  assumes k: "k \<in> set layout" and dom: "set layout = dom (ch_sub_pages h)"
  obtains pre post where "enc_pages layout h = pre @ page_bytes h k @ post" "length pre = page_start layout h k"
proof -
  obtain p where p: "ch_sub_pages h k = Some p" using k dom by auto
  from enc_pages_split [OF k p] obtain post where
    "enc_hierarchy layout h = enc_hierarchy (takeWhile (\<lambda>j. j \<noteq> k) layout) h @ enc_page p @ post" .
  with p that show ?thesis by (simp add: enc_hierarchy_def page_bytes_def page_start_def)
qed

lemma pages_known:
  assumes dist: "distinct layout" and dom: "set layout = dom (ch_sub_pages h)"
    and len: "length bs = length (enc_pages layout h)"
  shows "(\<forall>k \<in> set layout. take (length (page_bytes h k)) (drop (page_start layout h k) bs) = page_bytes h k)
     \<longleftrightarrow> bs = enc_pages layout h"
proof
  assume at: "\<forall>k \<in> set layout. take (length (page_bytes h k)) (drop (page_start layout h k) bs) = page_bytes h k"
  have "page_start layout h k = length (concat (map (page_bytes h) (takeWhile (\<lambda>j. j \<noteq> k) layout)))" for k
  proof -
    have "set (takeWhile (\<lambda>j. j \<noteq> k) layout) \<subseteq> dom (ch_sub_pages h)" using dom set_takeWhileD by fast
    then show ?thesis by (simp add: page_start_def enc_pages_bytes)
  qed
  with at have "bs = concat (map (page_bytes h) layout)"
    using len dom by (intro pieces_tile [OF dist]) (simp_all add: enc_pages_bytes)
  then show "bs = enc_pages layout h" using dom by (simp add: enc_pages_bytes)
next
  assume eq: "bs = enc_pages layout h"
  show "\<forall>k \<in> set layout. take (length (page_bytes h k)) (drop (page_start layout h k) bs) = page_bytes h k"
  proof
    fix k assume "k \<in> set layout"
    from page_bytes_split [OF this dom] show "take (length (page_bytes h k)) (drop (page_start layout h k) bs) = page_bytes h k"
      unfolding eq by (metis append_eq_conv_conj)
  qed
qed

text \<open>
  A hierarchy whose entries fit one order of its pages, read from a record that was written in
  any order.
\<close>

lemma hierarchy_read_any_order:
  assumes ok: "hierarchy_ok info layout h"
    and order: "distinct order" "set order = set layout"
    and v: "v_data v = enc_hierarchy order h"
  shows "\<exists>t. hierarchy_read_from_with v info = Ok t \<and> ch_root t = ch_root h \<and>
     dom (ch_sub_pages t) = dom (ch_sub_pages h) \<and>
     (t = h \<longleftrightarrow> enc_pages order h = enc_pages layout h)"
proof -
  let ?refs = "filter is_referencing_page (p_entries (ch_root h))" and ?bs = "enc_pages order h"
  note ok = ok [unfolded hierarchy_ok_def Let_def]
  have dist: "distinct layout"
    and dom: "set layout = dom (ch_sub_pages h)" "e_key ` set ?refs = dom (ch_sub_pages h)" using ok by auto
  have "mset order = mset layout" using order dist by (simp add: set_eq_iff_mset_eq_distinct)
  then have len: "length ?bs = length (enc_pages layout h)" by (rule length_enc_pages_mset)
  have "\<exists>q. enc_page q = take (length (page_bytes h k)) (drop (page_start layout h k) ?bs)"
    if "k \<in> set layout" for k
  proof -
    have "page_start layout h k + length (page_bytes h k) \<le> length ?bs"
      using page_bytes_split [OF that dom(1)] len by (metis le_add1 length_append add.assoc)
    then show ?thesis
      by (intro enc_page_surj [where n = "length (p_entries (the (ch_sub_pages h k)))"])
        (simp add: page_bytes_def length_enc_page)
  qed
  then obtain q where q: "\<And>k. k \<in> set layout \<Longrightarrow>
      enc_page (q k) = take (length (page_bytes h k)) (drop (page_start layout h k) ?bs)" by metis
  let ?t = "\<lparr>ch_root = ch_root h, ch_sub_pages = \<lambda>k. if k \<in> set layout then Some (q k) else None\<rparr>"
  have "slice (v_data v) 0 (ci_root_hier_size info) = Ok (enc_page (ch_root h))"
    using slice_middle [of 0 "[]" "ci_root_hier_size info" "enc_page (ch_root h)" ?bs] ok v
    by (simp add: enc_hierarchy_def)
  moreover have "sub_page v info e = Ok (e_key e, q (e_key e))" if "e \<in> set ?refs" for e
  proof (rule sub_page_read [of info layout h e v ?bs])
    show k: "e_key e \<in> set layout" using that dom by blast
    show "enc_page (q (e_key e)) = take (length (page_bytes h (e_key e))) (drop (page_start layout h (e_key e)) ?bs)"
      by (rule q [OF k])
  qed (use that ok v len in \<open>auto simp: list_all_iff enc_hierarchy_def\<close>)
  then have "collect_results (map (sub_page v info) ?refs) = Ok (map (\<lambda>e. (e_key e, q (e_key e))) ?refs)"
    by (rule collect_results_map)
  moreover have "map_of (rev (map (\<lambda>e. (e_key e, q (e_key e))) ?refs)) = ch_sub_pages ?t"
    unfolding rev_map using dom by (simp add: map_of_keys)
  ultimately have read: "hierarchy_read_from_with v info = Ok ?t"
    by (simp add: hierarchy_read_from_with_def page_read_enc)
  have "ch_sub_pages ?t k = ch_sub_pages h k \<longleftrightarrow> (k \<in> set layout \<longrightarrow> enc_page (q k) = page_bytes h k)" for k
    using dom(1) by (cases "ch_sub_pages h k") (auto simp: page_bytes_def dest: enc_page_inj)
  moreover have "?t = h \<longleftrightarrow> (\<forall>k. ch_sub_pages ?t k = ch_sub_pages h k)" by (cases h) (auto simp: fun_eq_iff)
  ultimately have "?t = h \<longleftrightarrow> ?bs = enc_pages layout h"
    using pages_known [OF dist dom(1) len] q by auto
  then show ?thesis using read dom(1) by (auto simp: dom_def)
qed

lemma hierarchy_read_back:
  assumes "hierarchy_ok info order h" "v_data v = enc_hierarchy order h"
  shows "hierarchy_read_from_with v info = Ok h"
  using hierarchy_read_any_order [OF assms(1) _ refl assms(2)] assms(1) by (auto simp: hierarchy_ok_def Let_def)

text \<open>
  C13. Reading the COPC records that were written from an info record and a hierarchy.  The
  entries of the root page say where the pages are, in the order \<open>layout\<close>; the pages are
  written in the order in which a hash map yields its keys, which may be any.  The info record
  is read back, and so is a hierarchy with the same root page and the same keys,
  whatever the order; but its pages are the ones that were written exactly when writing them in
  that order gives the same bytes as the order of the entries.  Otherwise the entries of
  other pages are read, without an error.
\<close>

theorem copc_records_read_back:
  assumes "find is_copc_info (h_vlrs h) = Some v" "find is_copc_hierarchy (h_evlrs h) = Some w"
    and "copc_info_write_to info \<lparr>c_data = [], c_pos = 0\<rparr> = (Ok (), c1)" "v_data v = c_data c1"
    and "hierarchy_write_to order t \<lparr>c_data = [], c_pos = 0\<rparr> = (Ok (), c2)" "v_data w = c_data c2"
    and "length (ci_reserved info) = 11" "hierarchy_ok info layout t"
    and "distinct order" "set order = dom (ch_sub_pages t)"
  shows "copc_info_vlr_of h = Ok (Some info) \<and> length (v_data v) = 160 \<and>
     (\<exists>t'. copc_hierarchy_evlr h = Ok (Some t') \<and> ch_root t' = ch_root t \<and>
        dom (ch_sub_pages t') = dom (ch_sub_pages t) \<and>
        (t' = t \<longleftrightarrow> enc_pages order t = enc_pages layout t))"
proof -
  have start: "c_data (put bs \<lparr>c_data = [], c_pos = 0\<rparr>) = bs" for bs by (simp add: put_def)
  have v: "v_data v = enc_info info"
    using info.writes_ok [OF assms(7)] assms(3,4) start by (auto simp: writes_def)
  have w: "v_data w = enc_hierarchy order t"
    using writes_hierarchy [of order t] assms(5,6) start by (auto simp: writes_def)
  have "copc_info_of_vlr v = Ok info"
    using read_slice_reads [OF info.reads_ok [OF assms(7)], of "[]"] by (simp add: copc_info_of_vlr_def v)
  moreover have "length (enc_info info) = 160" using assms(7)
    by (simp add: enc_info_def u64.length_list)
  moreover have "set order = set layout" using assms(8,10) by (simp add: hierarchy_ok_def Let_def)
  note hierarchy_read_any_order [OF assms(8,9) this w]
  ultimately show ?thesis
    using assms(1,2) v by (auto simp: copc_info_vlr_of_def copc_hierarchy_evlr_def)
qed

definition demo_info :: copc_info_vlr where
  "demo_info = \<lparr>ci_center_x = 0, ci_center_y = 0, ci_center_z = 0, ci_halfsize = 0, ci_spacing = 0,
     ci_root_hier_offset = 1000, ci_root_hier_size = 64, ci_gpstime_minimum = 0, ci_gpstime_maximum = 0,
     ci_reserved = replicate 11 0\<rparr>"

definition demo_key :: voxel_key where
  "demo_key = \<lparr>vk_l = 1, vk_x = 0, vk_y = 0, vk_z = 1\<rparr>"

definition demo_chunk :: "voxel_key \<Rightarrow> entry" where
  "demo_chunk k = \<lparr>e_key = k, e_offset = 500, e_byte_size = 40, e_point_count = 2\<rparr>"

definition demo_link :: entry where
  "demo_link = \<lparr>e_key = demo_key, e_offset = 1064, e_byte_size = 32, e_point_count = - 1\<rparr>"

definition demo_hierarchy :: copc_hierarchy_vlr where
  "demo_hierarchy = \<lparr>ch_root = \<lparr>p_entries = [demo_chunk VOXEL_ROOT, demo_link]\<rparr>,
     ch_sub_pages = [demo_key \<mapsto> \<lparr>p_entries = [demo_chunk demo_key]\<rparr>]\<rparr>"

definition copc_vlr :: "u16 \<Rightarrow> bytes \<Rightarrow> vlr" where
  "copc_vlr n bs = \<lparr>v_user_id = COPC_USER_ID, v_record_id = n, v_description = [], v_data = bs\<rparr>"

definition copc_header :: "(int \<times> day_of_year, 128 word) header" where
  "copc_header = (file_header True)
     \<lparr>h_vlrs := [copc_vlr 1 (enc_info demo_info)],
      h_evlrs := [copc_vlr 1000 (enc_hierarchy [demo_key] demo_hierarchy)]\<rparr>"

lemma demo_hierarchy_ok: "hierarchy_ok demo_info [demo_key] demo_hierarchy"
proof -
  have "is_referencing_page demo_link" "\<not> is_referencing_page (demo_chunk k)" for k
    by (simp_all add: is_referencing_page_def demo_link_def demo_chunk_def)
  then show ?thesis
    by (simp add: hierarchy_ok_def page_place_def demo_hierarchy_def demo_info_def demo_link_def
        length_enc_page enc_hierarchy_def enc_pages_def)
qed

lemma copc_header_finds:
  "find is_copc_info (h_vlrs copc_header) = Some (copc_vlr 1 (enc_info demo_info))"
  "find is_copc_hierarchy (h_evlrs copc_header)
     = Some (copc_vlr 1000 (enc_hierarchy [demo_key] demo_hierarchy))"
  by (simp_all add: copc_header_def is_copc_info_def is_copc_hierarchy_def copc_vlr_def
      COPC_INFO_RECORD_ID_def COPC_HIERARCHY_RECORD_ID_def)

lemma copc_header_hierarchy: "copc_hierarchy_evlr copc_header = Ok (Some demo_hierarchy)"
proof -
  have "length (ci_reserved demo_info) = 11" by (simp add: demo_info_def)
  from read_slice_reads [OF info.reads_ok [OF this], of "[]"]
  have "copc_info_of_vlr (copc_vlr 1 (enc_info demo_info)) = Ok demo_info"
    by (simp add: copc_info_of_vlr_def copc_vlr_def)
  then show ?thesis
    using hierarchy_read_back [OF demo_hierarchy_ok, of "copc_vlr 1000 (enc_hierarchy [demo_key] demo_hierarchy)"]
    by (simp add: copc_hierarchy_evlr_def copc_info_vlr_of_def copc_header_finds) (simp add: copc_vlr_def)
qed

text \<open>A hierarchy with two pages of one entry each, written in either order.\<close>

definition fork_key :: "u32 \<Rightarrow> voxel_key" where
  "fork_key n = \<lparr>vk_l = 1, vk_x = n, vk_y = 0, vk_z = 0\<rparr>"

definition fork_link :: "u32 \<Rightarrow> u64 \<Rightarrow> entry" where
  "fork_link n off = \<lparr>e_key = fork_key n, e_offset = off, e_byte_size = 32, e_point_count = - 1\<rparr>"

definition fork_page :: "u32 \<Rightarrow> page" where
  "fork_page n = \<lparr>p_entries = [demo_chunk (fork_key n)]\<rparr>"

definition fork_info :: copc_info_vlr where
  "fork_info = demo_info\<lparr>ci_root_hier_size := 96\<rparr>"

definition fork_hierarchy :: copc_hierarchy_vlr where
  "fork_hierarchy = \<lparr>ch_root = \<lparr>p_entries = [demo_chunk VOXEL_ROOT, fork_link 0 1096, fork_link 1 1128]\<rparr>,
     ch_sub_pages = [fork_key 0 \<mapsto> fork_page 0, fork_key 1 \<mapsto> fork_page 1]\<rparr>"

definition fork_header :: "voxel_key list \<Rightarrow> (int \<times> day_of_year, 128 word) header" where
  "fork_header order = copc_header\<lparr>h_vlrs := [copc_vlr 1 (enc_info fork_info)],
     h_evlrs := [copc_vlr 1000 (enc_hierarchy order fork_hierarchy)]\<rparr>"

lemma fork_hierarchy_ok: "hierarchy_ok fork_info [fork_key 0, fork_key 1] fork_hierarchy"
proof -
  have "is_referencing_page (fork_link n off)" "\<not> is_referencing_page (demo_chunk k)" for n off k
    by (simp_all add: is_referencing_page_def fork_link_def demo_chunk_def)
  moreover have "fork_key 0 \<noteq> fork_key 1" by (simp add: fork_key_def)
  ultimately show ?thesis
    by (simp add: hierarchy_ok_def page_place_def fork_hierarchy_def fork_info_def demo_info_def fork_link_def
        fork_page_def length_enc_page enc_hierarchy_def enc_pages_def insert_commute)
qed

lemma fork_pages_differ:
  "enc_pages [fork_key 1, fork_key 0] fork_hierarchy \<noteq> enc_pages [fork_key 0, fork_key 1] fork_hierarchy"
proof -
  have k: "fork_key 0 \<noteq> fork_key 1" by (simp add: fork_key_def)
  then have "fork_page 1 \<noteq> fork_page 0" by (simp add: fork_page_def demo_chunk_def)
  then have "enc_page (fork_page 1) \<noteq> enc_page (fork_page 0)" using enc_page_inj by blast
  moreover have "length (enc_page (fork_page 1)) = length (enc_page (fork_page 0))"
    by (simp add: length_enc_page fork_page_def)
  ultimately show ?thesis using k by (simp add: enc_pages_def fork_hierarchy_def)
qed

theorem copc_records_read_back_witness:
  "copc_hierarchy_evlr (fork_header [fork_key 0, fork_key 1]) = Ok (Some fork_hierarchy) \<and>
   (\<exists>t. copc_hierarchy_evlr (fork_header [fork_key 1, fork_key 0]) = Ok (Some t) \<and> t \<noteq> fork_hierarchy)"
proof -
  let ?c = "\<lparr>c_data = [], c_pos = 0\<rparr>"
  have res: "length (ci_reserved fork_info) = 11" by (simp add: fork_info_def demo_info_def)
  have finds: "find is_copc_info (h_vlrs (fork_header order)) = Some (copc_vlr 1 (enc_info fork_info))"
    "find is_copc_hierarchy (h_evlrs (fork_header order))
       = Some (copc_vlr 1000 (enc_hierarchy order fork_hierarchy))" for order
    by (simp_all add: fork_header_def is_copc_info_def is_copc_hierarchy_def copc_vlr_def
        COPC_INFO_RECORD_ID_def COPC_HIERARCHY_RECORD_ID_def)
  have wr: "copc_info_write_to fork_info ?c = (Ok (), put (enc_info fork_info) ?c)"
    "hierarchy_write_to order fork_hierarchy ?c = (Ok (), put (enc_hierarchy order fork_hierarchy) ?c)" for order
    using info.writes_ok [OF res] writes_hierarchy by (simp_all add: writes_def)
  have data: "v_data (copc_vlr n bs) = c_data (put bs ?c)" for n bs by (simp add: copc_vlr_def put_def)
  note at = copc_records_read_back [OF finds wr(1) data wr(2) data res fork_hierarchy_ok]
  have k: "fork_key 0 \<noteq> fork_key 1" "dom (ch_sub_pages fork_hierarchy) = {fork_key 0, fork_key 1}"
    by (auto simp: fork_key_def fork_hierarchy_def)
  show ?thesis
    using at [of "[fork_key 0, fork_key 1]"] at [of "[fork_key 1, fork_key 0]"] k fork_pages_differ by auto
qed

section \<open>Iterating over the entries\<close>

text \<open>
  C12. The entry iterator refines the flattened list of the entries of a hierarchy: \<open>n\<close> calls
  yield its first \<open>n\<close> items and nothing after its end, however often it is called.  An entry
  of the root page that references a page is replaced by the entries of that page, or by an
  error if the page is missing.  References inside those pages are not followed: they are
  yielded as entries.  The entries of an entry reader are the items that are not errors.
\<close>

theorem entries_refine_flattened:
  "(let items = concat (map (resolve (ch_sub_pages t)) (p_entries (ch_root t))) in
    fst (pull n entry_next (iter_entries t))
      = map Some (take n items) @ replicate (n - length items) None \<and>
    entries_collect (iter_entries t) = items \<and>
    (copc_hierarchy_evlr (er_header r) = Ok (Some t) \<longrightarrow>
       hierarchy_entries r = Ok (Some (ok_items items))))"
proof -
  have left: "entries_left (iter_entries t) = concat (map (resolve (ch_sub_pages t)) (p_entries (ch_root t)))"
    by (simp add: entries_left_def iter_entries_def)
  obtain xs s where p: "pull n entry_next (iter_entries t) = (xs, s)" by force
  show ?thesis
    using entries.pull_items [OF p] p
    by (simp add: left Let_def entries_collect_left hierarchy_entries_def)
qed

theorem entries_refine_flattened_witness:
  "fst (pull 3 entry_next (iter_entries demo_hierarchy))
     = [Some (Ok (demo_chunk VOXEL_ROOT)), Some (Ok (demo_chunk demo_key)), None] \<and>
   (let r = \<lparr>er_decompressor = (), er_buffer = \<lparr>c_data = [], c_pos = 0\<rparr>, er_header = copc_header\<rparr> in
    hierarchy_entries r = Ok (Some [demo_chunk VOXEL_ROOT, demo_chunk demo_key]))"
proof -
  have "concat (map (resolve (ch_sub_pages demo_hierarchy)) (p_entries (ch_root demo_hierarchy)))
      = [Ok (demo_chunk VOXEL_ROOT), Ok (demo_chunk demo_key)]"
    by (simp add: demo_hierarchy_def resolve_def is_referencing_page_def demo_link_def demo_chunk_def)
  then show ?thesis
    using entries_refine_flattened [of demo_hierarchy 3
        "\<lparr>er_decompressor = (), er_buffer = \<lparr>c_data = [], c_pos = 0\<rparr>, er_header = copc_header\<rparr>"]
      copc_header_hierarchy
    by (simp add: Let_def numeral_3_eq_3)
qed

section \<open>Reading the points of an entry\<close>

text \<open>
  The documented behaviour of the layered decompressor: with the stream at the start of a
  chunk, it fills a buffer of the size of the chunk with the records of the chunk.
\<close>

definition chunk_at :: "('v, 'i, 'y) layered \<Rightarrow> 'y \<Rightarrow> nat \<Rightarrow> bytes \<Rightarrow> bool" where
  "chunk_at Y y n bs \<longleftrightarrow>
     (\<forall>buf. length buf = length bs \<longrightarrow>
        (\<exists>y'. lay_decompress_many Y (lay_set Y ((lay_get Y y)\<lparr>c_pos := n\<rparr>) y, buf) = (Ok (), y', bs)))"

lemma entry_point_record:
  assumes "record_of (h_point_format (er_header r)) (h_transforms (er_header r)) bs p" "ahead bs (er_buffer r)"
  shows "entry_point r = (Ok p, r\<lparr>er_buffer := skip (length bs) (er_buffer r)\<rparr>)"
  using assms by (auto simp: entry_point_def record_of_def reads_def io_defs)

lemma push_entry_records:
  assumes "list_all2 (record_of (h_point_format h) (h_transforms h)) recs ps"
    and "er_header r = h" "ahead (concat recs) (er_buffer r)"
  shows "push_entry_points (length ps) (r, acc) =
     (Ok (), r\<lparr>er_buffer := skip (length (concat recs)) (er_buffer r)\<rparr>, acc @ ps)"
  using assms
proof (induction recs ps arbitrary: r acc rule: list_all2_induct)
  case Nil
  then show ?case by (simp add: io_return_def)
next
  case (Cons bs recs p ps)
  then have a: "ahead bs (er_buffer r)" "ahead (concat recs) (skip (length bs) (er_buffer r))"
    by (simp_all add: ahead_append)
  let ?r = "r\<lparr>er_buffer := skip (length bs) (er_buffer r)\<rparr>"
  have "push_entry_points (length (p # ps)) (r, acc) = push_entry_points (length ps) (?r, acc @ [p])"
    using entry_point_record [OF Cons.hyps(1) [folded Cons.prems(1)] a(1)] by (simp add: alone_def io_defs)
  with Cons.IH [of ?r "acc @ [p]"] Cons.prems(1) a(2) show ?case by simp
qed

text \<open>
  C27. Reading an entry whose chunk holds the records of a list of points appends exactly these
  points to the vector, returns their number and leaves the header alone.  An entry with a
  negative count, as one that references a page and is yielded by the entry iterator from
  within a page, panics: the count becomes the capacity of a vector.
\<close>

theorem entry_points_read:
  assumes "chunk_at Y (er_decompressor r) (unat (e_offset e)) (concat recs)"
    and "list_all2 (record_of (h_point_format (er_header r)) (h_transforms (er_header r))) recs ps"
    and "sint (e_point_count e) = int (length ps)" "record_len (h_point_format (er_header r)) < 65536"
    and "(length acc + length ps) * env_point_size E < 2 ^ 63" "0 < env_point_size E"
  shows "(\<exists>r'. read_entry_points E Y e (r, acc) = (Ok (word_of_nat (length ps)), r', acc @ ps) \<and>
       er_header r' = er_header r) \<and>
     (\<forall>e'. sint (e_point_count e') < 0 \<longrightarrow> fst (read_entry_points E Y e' (r, acc)) = Panic)"
proof (intro conjI allI impI)
  let ?f = "h_point_format (er_header r)"
  let ?n = "scast (e_point_count e) :: u64"
  have n: "unat ?n = length ps" using assms(3) by (simp add: unat_scast_i32)
  have len: "unat (word_of_nat (record_len ?f) :: u16) = record_len ?f" using assms(4) by (intro unat_of_nat_eq) simp
  have few: "length ps < 2 ^ 31" using sint_lt [of "e_point_count e"] assms(3) by simp
  have "length ps * record_len ?f \<le> 2 ^ 31 * 65536"
    using few assms(4) by (intro mult_le_mono) simp_all
  then have small: "length ps * record_len ?f < 2 ^ 63" by simp
  let ?len = "ucast (word_of_nat (record_len ?f) :: u16) :: u64"
  have mul: "checked_mul ?n ?len = Ok (?n * ?len)" "unat (?n * ?len) = length (concat recs)"
    using n len small by (simp_all add: checked_mul_def unat_word_ariths unat_ucast_up length_records [OF assms(2)])
  let ?y = "lay_set Y ((lay_get Y (er_decompressor r))\<lparr>c_pos := unat (e_offset e)\<rparr>) (er_decompressor r)"
  have "length (resize (length (concat recs)) (c_data (er_buffer r))) = length (concat recs)" by (simp add: resize_def)
  then obtain y' where y': "lay_decompress_many Y (?y, resize (length (concat recs)) (c_data (er_buffer r)))
      = (Ok (), y', concat recs)" using assms(1) unfolding chunk_at_def by blast
  let ?r1 = "r\<lparr>er_decompressor := y', er_buffer := \<lparr>c_data = concat recs, c_pos = 0\<rparr>\<rparr>"
  have "read_entry_points E Y e (r, acc) = io_bind (push_entry_points (length ps)) (\<lambda>_. io_return ?n) (?r1, acc)"
    using n mul y' assms(4,5) small length_records [OF assms(2)]
    by (cases "er_buffer r") (simp add: read_entry_points_def Let_def alone_def io_defs seek_start_def
        reserve_def format_len_eq resize_zeroed_def layered_decompress_def)
  moreover have "push_entry_points (length ps) (?r1, acc) =
      (Ok (), ?r1\<lparr>er_buffer := skip (length (concat recs)) (er_buffer ?r1)\<rparr>, acc @ ps)"
    by (rule push_entry_records [OF assms(2)]) (simp_all add: ahead_def)
  moreover have "?n = word_of_nat (length ps)" by (simp flip: n)
  ultimately show "\<exists>r'. read_entry_points E Y e (r, acc) = (Ok (word_of_nat (length ps)), r', acc @ ps) \<and>
     er_header r' = er_header r" by (auto simp: io_bind_def io_return_def)
next
  fix e' :: entry
  assume neg: "sint (e_point_count e') < 0"
  let ?n = "scast (e_point_count e') :: u64"
  have "2 ^ 63 \<le> unat ?n"
  proof -
    let ?x = "sint (e_point_count e')"
    have "sint ?n = ?x" using neg sint_ge [of "e_point_count e'"]
      by (simp add: signed_scast_eq signed_take_bit_int_eq_self)
    then have "uint ?n = (?x + 2 ^ 64) mod 2 ^ 64" by (simp add: uint_sint take_bit_eq_mod)
    also have "\<dots> = ?x + 2 ^ 64"
      using neg sint_ge [of "e_point_count e'"] by (intro mod_pos_pos_trivial) simp_all
    finally have "2 ^ 63 \<le> uint ?n" using sint_ge [of "e_point_count e'"] by simp
    then show ?thesis by (simp flip: nat_uint_eq)
  qed
  then have "2 ^ 63 * 1 \<le> (length acc + unat ?n) * env_point_size E"
    using assms(6) by (intro mult_le_mono) simp_all
  then show "fst (read_entry_points E Y e' (r, acc)) = Panic"
    by (simp add: read_entry_points_def Let_def alone_def io_defs seek_start_def reserve_def)
qed

text \<open>A decompressor of chunks that are stored as they are.\<close>

definition stored_layered :: "(nat, unit, cursor) layered" where
  "stored_layered =
     \<lparr>lay_items = (\<lambda>_. ()), lay_new = id, lay_set_fields_from = (\<lambda>_. io_return ()), lay_get = id,
      lay_set = (\<lambda>c _. c),
      lay_decompress_many = (\<lambda>(c, buf).
        case read_exact (length buf) c of
          (Ok bs, c) \<Rightarrow> (Ok (), c, bs) | (Err e, c) \<Rightarrow> (Err e, c, buf) | (Panic, c) \<Rightarrow> (Panic, c, buf))\<rparr>"

lemma stored_chunk_at:
  assumes "n + length bs \<le> length (c_data c)" "take (length bs) (drop n (c_data c)) = bs"
  shows "chunk_at stored_layered c n bs"
  using assms by (simp add: chunk_at_def stored_layered_def read_exact_def)

theorem entry_points_read_witness:
  "\<exists>p r'. read_entry_points file_env stored_layered
       \<lparr>e_key = VOXEL_ROOT, e_offset = 2, e_byte_size = 20, e_point_count = 1\<rparr>
       (\<lparr>er_decompressor = \<lparr>c_data = [1, 2] @ zero_record, c_pos = 0\<rparr>,
         er_buffer = \<lparr>c_data = [], c_pos = 0\<rparr>, er_header = demo_header\<rparr>, []) = (Ok 1, r', [p])"
proof -
  let ?r = "\<lparr>er_decompressor = \<lparr>c_data = [1, 2] @ zero_record, c_pos = 0\<rparr>,
         er_buffer = \<lparr>c_data = [], c_pos = 0\<rparr>, er_header = demo_header\<rparr>"
  let ?e = "\<lparr>e_key = VOXEL_ROOT, e_offset = 2, e_byte_size = 20, e_point_count = 1\<rparr>"
  have f: "h_point_format demo_header = format_default" by (simp add: demo_header_def header_default_def)
  obtain p where p: "record_of format_default (h_transforms demo_header) zero_record p"
    using zero_record_of by blast
  have "chunk_at stored_layered (er_decompressor ?r) (unat (e_offset ?e)) (concat [zero_record])"
    by (rule stored_chunk_at) simp_all
  moreover have "list_all2 (record_of (h_point_format (er_header ?r)) (h_transforms (er_header ?r)))
      [zero_record] [p]" using p f by simp
  moreover have "record_len (h_point_format (er_header ?r)) < 65536"
    using p f by (simp add: record_of_def zero_record_def)
  moreover have "env_point_size file_env < 2 ^ 63" "0 < env_point_size file_env"
    by (simp_all add: file_env_def demo_env_def)
  ultimately show ?thesis
    using entry_points_read [of stored_layered ?r ?e "[zero_record]" "[p]" "[]" file_env] by auto
qed

text \<open>
  C40. A hierarchy record that is shorter than the root page declared in the info record, or whose
  root page has a first reference to a page outside of the record, is not treated as a
  hierarchy that cannot be parsed: looking for the hierarchy panics.
\<close>

theorem malformed_hierarchy_panics:
  assumes "copc_info_vlr_of h = Ok (Some info)" "find is_copc_hierarchy (h_evlrs h) = Some v"
    and "length (v_data v) < unat (ci_root_hier_size info) \<or>
      (\<exists>root e es. slice (v_data v) 0 (ci_root_hier_size info) = Ok (enc_page root) \<and>
         filter is_referencing_page (p_entries root) = e # es \<and>
         (e_offset e < ci_root_hier_offset info \<or>
          length (v_data v) < unat (e_offset e) - unat (ci_root_hier_offset info)))"
  shows "copc_hierarchy_evlr h = Panic"
  using assms(3)
proof
  assume "length (v_data v) < unat (ci_root_hier_size info)"
  then show ?thesis using assms(1,2)
    by (simp add: copc_hierarchy_evlr_def hierarchy_read_from_with_def slice_def)
next
  assume "\<exists>root e es. slice (v_data v) 0 (ci_root_hier_size info) = Ok (enc_page root) \<and>
         filter is_referencing_page (p_entries root) = e # es \<and>
         (e_offset e < ci_root_hier_offset info \<or>
          length (v_data v) < unat (e_offset e) - unat (ci_root_hier_offset info))"
  then obtain root e es where root: "slice (v_data v) 0 (ci_root_hier_size info) = Ok (enc_page root)"
    "filter is_referencing_page (p_entries root) = e # es"
    and e: "e_offset e < ci_root_hier_offset info \<or>
       length (v_data v) < unat (e_offset e) - unat (ci_root_hier_offset info)" by blast
  have "sub_page v info e = Panic"
  proof (cases "ci_root_hier_offset info \<le> e_offset e")
    case True
    let ?s = "e_offset e - ci_root_hier_offset info"
    have "length (v_data v) < unat ?s" using e True by (auto simp: unat_sub)
    then have "slice (v_data v) ?s b = Panic" for b by (auto simp: slice_def word_le_nat_alt)
    with True show ?thesis by (cases "checked_add ?s (scast (e_byte_size e))")
        (auto simp: sub_page_def checked_sub_def checked_add_def split: if_splits)
  qed (simp add: sub_page_def checked_sub_def)
  with root assms(1,2) show ?thesis
    by (simp add: copc_hierarchy_evlr_def hierarchy_read_from_with_def page_read_enc)
qed

theorem malformed_hierarchy_panics_witness:
  "copc_hierarchy_evlr (copc_header\<lparr>h_evlrs := [copc_vlr 1000 []]\<rparr>) = Panic"
proof -
  let ?h = "copc_header\<lparr>h_evlrs := [copc_vlr 1000 []]\<rparr>"
  have "length (ci_reserved demo_info) = 11" by (simp add: demo_info_def)
  from read_slice_reads [OF info.reads_ok [OF this], of "[]"]
  have "copc_info_of_vlr (copc_vlr 1 (enc_info demo_info)) = Ok demo_info"
    by (simp add: copc_info_of_vlr_def copc_vlr_def)
  then have "copc_info_vlr_of ?h = Ok (Some demo_info)"
    by (simp add: copc_info_vlr_of_def copc_header_finds)
  moreover have "find is_copc_hierarchy (h_evlrs ?h) = Some (copc_vlr 1000 [])"
    by (simp add: is_copc_hierarchy_def copc_vlr_def COPC_HIERARCHY_RECORD_ID_def)
  moreover have "length (v_data (copc_vlr 1000 [])) < unat (ci_root_hier_size demo_info)"
    by (simp add: copc_vlr_def demo_info_def)
  ultimately show ?thesis using malformed_hierarchy_panics by blast
qed

end
