(* ===== verification/Crs.thy ===== *)
theory Crs
  imports Las_Header
begin

text \<open>
  Coordinate reference systems (\<^verbatim>\<open>src/crs.rs\<close>): well-known text and GeoTIFF keys in the records
  of a header, and the EPSG codes in them.  Log messages are left out.
\<close>

record epsg_crs =
  ec_horizontal :: u16
  ec_vertical :: "u16 option"

record geo_tiff_key_entry =
  gk_id :: u16
  gk_data :: geo_tiff_data

record geo_tiff_crs =
  gt_entries :: "geo_tiff_key_entry list"

section \<open>Records of a header\<close>

definition remove_crs_vlrs :: "('d, 'u) header \<Rightarrow> ('d, 'u) header" where
  "remove_crs_vlrs h =
     h\<lparr>h_vlrs := filter (\<lambda>v. \<not> is_projection v) (h_vlrs h),
       h_evlrs := filter (\<lambda>v. \<not> is_projection v) (h_evlrs h),
       h_has_wkt_crs := False\<rparr>"

text \<open>\<^verbatim>\<open>LASF_Projection\<close> in an array of 16 bytes.\<close>

definition projection_user_id :: bytes where
  "projection_user_id =
     [0x4C, 0x41, 0x53, 0x46, 0x5F, 0x50, 0x72, 0x6F, 0x6A, 0x65, 0x63, 0x74, 0x69, 0x6F, 0x6E, 0]"

definition set_wkt_crs :: "bytes \<Rightarrow> ('d, 'u) header \<Rightarrow> ('d, 'u) header outcome" where
  "set_wkt_crs wkt h =
     (if h_version h < Version 1 4 then Err (UnsupportedFeature (h_version h) ''WKT CRS VLR'')
      else if list_ex is_projection (all_vlrs h) then Err HeaderContainsCrsVlr
      else if u16_MAX < length wkt
      then Ok (h\<lparr>h_evlrs := h_evlrs h @ [vlr_new \<lparr>rv_reserved = 0, rv_user_id = projection_user_id,
                  rv_record_id = 2112, rv_record_length_after_header = REvlr (word_of_nat (length wkt)),
                  rv_description = replicate 32 0, rv_data = wkt\<rparr>],
               h_has_wkt_crs := True\<rparr>)
      else Ok (h\<lparr>h_vlrs := h_vlrs h @ [vlr_new \<lparr>rv_reserved = 0, rv_user_id = projection_user_id,
                  rv_record_id = 2112, rv_record_length_after_header = RVlr (word_of_nat (length wkt)),
                  rv_description = replicate 32 0, rv_data = wkt\<rparr>],
               h_has_wkt_crs := True\<rparr>))"

definition is_wkt_vlr :: "vlr \<Rightarrow> bool" where
  "is_wkt_vlr v \<longleftrightarrow> map ascii_lower (v_user_id v) = LASF_PROJECTION \<and> v_record_id v = 2112"

definition get_wkt_crs_bytes :: "('d, 'u) header \<Rightarrow> bytes option" where
  "get_wkt_crs_bytes h = map_option v_data (find is_wkt_vlr (all_vlrs h))"

section \<open>GeoTIFF keys\<close>

definition read_doubles :: "u16 \<Rightarrow> u16 \<Rightarrow> bytes \<Rightarrow> f64 list outcome" where
  "read_doubles start count bs =
     fst (io_bind (seek_start (unat start * 8)) (\<lambda>_. io_times (unat count) read_u64)
       \<lparr>c_data = bs, c_pos = 0\<rparr>)"

definition read_chars :: "u16 \<Rightarrow> u16 \<Rightarrow> bytes \<Rightarrow> nat list outcome" where
  "read_chars start count bs =
     and_then (fst (io_bind (seek_start (unat start)) (\<lambda>_. io_times (unat count) read_u8)
       \<lparr>c_data = bs, c_pos = 0\<rparr>)) (\<lambda>cs. Ok (map unat cs))"

fun ok_or :: "'a option \<Rightarrow> error \<Rightarrow> 'a outcome" where
  "ok_or (Some a) e = Ok a"
| "ok_or None e = Err e"

definition geo_key_read_from :: "bytes option \<Rightarrow> bytes option \<Rightarrow> geo_tiff_key_entry reader" where
  "geo_key_read_from double_vlr ascii_vlr =
     io_bind read_u16 (\<lambda>ident. io_bind read_u16 (\<lambda>location. io_bind read_u16 (\<lambda>count.
     io_bind read_u16 (\<lambda>offset.
     io_bind (io_lift
       (if location = 0 then Ok (GU16 offset)
        else if location = 34736
        then and_then (ok_or double_vlr UnreadableGeoTiffCrs) (\<lambda>bs.
             and_then (read_doubles offset count bs) (\<lambda>ds. Ok (GDoubles ds)))
        else if location = 34737
        then and_then (ok_or ascii_vlr UnreadableGeoTiffCrs) (\<lambda>bs.
             and_then (read_chars offset count bs) (\<lambda>cs. Ok (GString cs)))
        else Err (UndefinedDataForGeoTiffKey ident))) (\<lambda>data.
     io_return \<lparr>gk_id = ident, gk_data = data\<rparr>)))))"

definition geo_tiff_read_from ::
  "bytes \<Rightarrow> bytes option \<Rightarrow> bytes option \<Rightarrow> geo_tiff_crs outcome" where
  "geo_tiff_read_from main_vlr double_vlr ascii_vlr =
     fst (io_bind read_u16 (\<lambda>_. io_bind read_u16 (\<lambda>_. io_bind read_u16 (\<lambda>_.
          io_bind read_u16 (\<lambda>num_keys.
          io_bind (io_times (unat num_keys) (geo_key_read_from double_vlr ascii_vlr)) (\<lambda>entries.
          io_return \<lparr>gt_entries = entries\<rparr>))))) \<lparr>c_data = main_vlr, c_pos = 0\<rparr>)"

text \<open>The three records of GeoTIFF data; a later record replaces an earlier one.\<close>

definition place_geotiff ::
  "vlr \<Rightarrow> bytes option \<times> bytes option \<times> bytes option \<Rightarrow> bytes option \<times> bytes option \<times> bytes option" where
  "place_geotiff v = (\<lambda>(main, double, ascii).
     if is_projection v
     then (if v_record_id v = 34735 then (Some (v_data v), double, ascii)
           else if v_record_id v = 34736 then (main, Some (v_data v), ascii)
           else if v_record_id v = 34737 then (main, double, Some (v_data v))
           else (main, double, ascii))
     else (main, double, ascii))"

definition get_geotiff_crs :: "('d, 'u) header \<Rightarrow> geo_tiff_crs option outcome" where
  "get_geotiff_crs h =
     (case fold place_geotiff (all_vlrs h) (None, None, None) of
        (Some main, double, ascii) \<Rightarrow>
          and_then (geo_tiff_read_from main double ascii) (\<lambda>crs. Ok (Some crs))
      | (None, _, _) \<Rightarrow> Ok None)"

fun geotiff_codes ::
  "geo_tiff_key_entry list \<Rightarrow> u16 option \<times> u16 option \<Rightarrow> (u16 option \<times> u16 option) outcome" where
  "geotiff_codes [] out = Ok out"
| "geotiff_codes (e # es) out =
     (if gk_id e = 1024
      then (case gk_data e of
              GU16 n \<Rightarrow>
                if n = 0 then Err UnreadableGeoTiffCrs
                else if n = 1 \<or> n = 2 \<or> n = 3 then geotiff_codes es out
                else if n = 32767 then Err UserDefinedCrs
                else Err (UnimplementedForGeoTiffStringAndDoubleData (GU16 n))
            | p \<Rightarrow> Err (UnimplementedForGeoTiffStringAndDoubleData p))
      else if gk_id e = 2048 \<or> gk_id e = 3072
      then (case gk_data e of
              GU16 v \<Rightarrow> geotiff_codes es (Some v, snd out)
            | p \<Rightarrow> Err (UnimplementedForGeoTiffStringAndDoubleData p))
      else if gk_id e = 4096
      then (case gk_data e of
              GU16 v \<Rightarrow> geotiff_codes es (fst out, Some v)
            | _ \<Rightarrow> geotiff_codes es out)
      else geotiff_codes es out)"

definition get_epsg_from_geotiff_crs :: "geo_tiff_crs \<Rightarrow> epsg_crs option outcome" where
  "get_epsg_from_geotiff_crs crs =
     and_then (geotiff_codes (gt_entries crs) (None, None)) (\<lambda>out.
     case out of
       (None, _) \<Rightarrow> Err UnreadableGeoTiffCrs
     | (Some h, v) \<Rightarrow> Ok (Some \<lparr>ec_horizontal = h, ec_vertical = v\<rparr>))"

section \<open>Well-known text\<close>

definition VERT :: bytes where "VERT = [0x56, 0x45, 0x52, 0x54]"

fun split_once :: "bytes \<Rightarrow> bytes \<Rightarrow> (bytes \<times> bytes) option" where
  "split_once pat [] = (if pat = [] then Some ([], []) else None)"
| "split_once pat (c # cs) =
     (if take (length pat) (c # cs) = pat then Some ([], drop (length pat) (c # cs))
      else map_option (\<lambda>(a, b). (c # a, b)) (split_once pat cs))"

definition checked_pow :: "'a::len word \<Rightarrow> nat \<Rightarrow> 'a word outcome" where
  "checked_pow b n = (if unat b ^ n < 2 ^ LENGTH('a) then Ok (b ^ n) else Panic)"

definition is_digit :: "u8 \<Rightarrow> bool" where
  "is_digit b \<longleftrightarrow> 48 \<le> b \<and> b \<le> 57"

text \<open>The loop over the bytes of a piece, from its end.\<close>

fun scan_code :: "bytes \<Rightarrow> nat \<Rightarrow> bool \<Rightarrow> nat \<Rightarrow> u16 \<Rightarrow> u16 outcome" where
  "scan_code [] i started pow code = Ok code"
| "scan_code (b # bs) i started pow code =
     (if is_digit b
      then and_then (checked_pow 10 pow) (\<lambda>p.
           and_then (checked_mul p (ucast (b - 48))) (\<lambda>d.
           and_then (checked_add code d) (\<lambda>code.
           if 7 < i then Ok code else scan_code bs (i + 1) True (pow + 1) code)))
      else if started then Ok code
      else if 7 < i then Ok code
      else scan_code bs (i + 1) started pow code)"

definition piece_code :: "bytes \<Rightarrow> u16 option outcome" where
  "piece_code piece =
     and_then (scan_code (rev piece) 0 False 0 0) (\<lambda>code.
     Ok (if code \<noteq> 0 then Some code else None))"

definition get_epsg_from_wkt_crs_bytes :: "bytes \<Rightarrow> epsg_crs option outcome" where
  "get_epsg_from_wkt_crs_bytes bs =
     (let wkt = from_utf8_lossy bs in
      and_then
        (case split_once VERT wkt of
           Some (hor, ver) \<Rightarrow>
             and_then (piece_code hor) (\<lambda>h. and_then (piece_code ver) (\<lambda>v. Ok (h, v)))
         | None \<Rightarrow> and_then (piece_code wkt) (\<lambda>h. Ok (h, None)))
        (\<lambda>epsg.
         case epsg of
           (None, _) \<Rightarrow> Err UnreadableWktCrs
         | (Some h, v) \<Rightarrow> Ok (Some \<lparr>ec_horizontal = h, ec_vertical = v\<rparr>)))"

definition get_epsg_crs :: "('d, 'u) header \<Rightarrow> epsg_crs option outcome" where
  "get_epsg_crs h =
     (case get_wkt_crs_bytes h of
        Some wkt \<Rightarrow> get_epsg_from_wkt_crs_bytes wkt
      | None \<Rightarrow>
          and_then (get_geotiff_crs h) (\<lambda>geotiff.
          case geotiff of
            Some crs \<Rightarrow> get_epsg_from_geotiff_crs crs
          | None \<Rightarrow> Ok None))"

end
