(* ===== verification/Crs_Properties.thy ===== *)
theory Crs_Properties
  imports Crs Whole_File
begin

text \<open>
  Properties of the coordinate reference systems: the scan for an EPSG code finds the last
  number of a text and panics when it is too large, a text set in a header is found again with
  its code, and the codes of a GeoTIFF directory are read.
\<close>

section \<open>The code in a piece of text\<close>

fun dec :: "bytes \<Rightarrow> nat" where
  "dec [] = 0"
| "dec (b # bs) = unat b - 48 + 10 * dec bs"

text \<open>The last digits of a piece of text within its last nine bytes, least significant first.\<close>

definition code_digits :: "bytes \<Rightarrow> bytes" where
  "code_digits piece = takeWhile is_digit (dropWhile (\<lambda>b. \<not> is_digit b) (take 9 (rev piece)))"

lemma digit_value:
  assumes "is_digit b"
  shows "unat (ucast (b - 48) :: u16) = unat b - 48" "unat b - 48 \<le> 9"
proof -
  have le: "48 \<le> b" "unat b \<le> 57" using assms by (auto simp: is_digit_def word_le_nat_alt)
  have "unat (b - 48) = unat b - 48" using unat_sub [OF le(1)] by simp
  then show "unat (ucast (b - 48) :: u16) = unat b - 48" by (simp add: unat_ucast_up)
  show "unat b - 48 \<le> 9" using le(2) by simp
qed

lemma pow_10_u16: "unat (10 ^ n :: u16) = 10 ^ n" if "10 ^ n < (65536 :: nat)"
  using that by (induction n) (auto simp: unat_word_ariths)

lemma scan_started:
  fixes bs :: bytes
  assumes "i \<le> 8"
  defines "ds \<equiv> takeWhile is_digit (take (9 - i) bs)"
  shows "scan_code bs i True p c =
    (if ds = [] \<or> 10 ^ (p + length ds - 1) < (65536 :: nat) \<and> unat c + 10 ^ p * dec ds < 65536
     then Ok (word_of_nat (unat c + 10 ^ p * dec ds)) else Panic)"
  using assms(1) unfolding ds_def
proof (induction bs arbitrary: i p c)
  case Nil
  then show ?case by simp
next
  case (Cons b bs)
  show ?case
  proof (cases "is_digit b")
    case False
    then show ?thesis using Cons.prems by (simp add: take_Cons')
  next
    case True
    note v = digit_value [OF True]
    let ?ds = "takeWhile is_digit (take (8 - i) bs)"
    have ds: "takeWhile is_digit (take (9 - i) (b # bs)) = b # ?ds"
      using Cons.prems True by (simp add: take_Cons')
    let ?d = "unat b - 48"
    let ?sum = "unat c + 10 ^ p * ?d"
    show ?thesis
    proof (cases "10 ^ p < (65536 :: nat) \<and> ?sum < 65536")
      case False
      have "(10 :: nat) ^ p \<le> 10 ^ (p + length (b # ?ds) - 1)" by (intro power_increasing) auto
      moreover have "?sum \<le> unat c + 10 ^ p * dec (b # ?ds)" by simp
      ultimately have "\<not> (10 ^ (p + length (b # ?ds) - 1) < (65536 :: nat) \<and>
          unat c + 10 ^ p * dec (b # ?ds) < 65536)" using False by linarith
      moreover have "scan_code (b # bs) i True p c = Panic"
        using True False pow_10_u16 [of p] v(1)
        by (auto simp: checked_pow_def checked_mul_def checked_add_def unat_word_ariths and_then_eq_Panic)
      ultimately show ?thesis unfolding ds by simp
    next
      case ok: True
      let ?c = "c + 10 ^ p * ucast (b - 48)"
      have c: "unat ?c = ?sum" using ok pow_10_u16 [of p] v(1) by (simp add: unat_word_ariths)
      have step: "scan_code (b # bs) i True p c = (if 7 < i then Ok ?c else scan_code bs (i + 1) True (p + 1) ?c)"
        using True ok pow_10_u16 [of p] v(1)
        by (simp add: checked_pow_def checked_mul_def checked_add_def unat_word_ariths)
      have cw: "?c = word_of_nat ?sum" by (simp flip: c)
      show ?thesis
      proof (cases "7 < i")
        case True
        then have "?ds = []" using Cons.prems by simp
        then show ?thesis unfolding ds step using True ok cw by simp
      next
        case False
        let ?v = "unat c + 10 ^ p * dec (b # ?ds)"
        have eq: "unat ?c + 10 ^ (p + 1) * dec ?ds = ?v" "p + 1 + length ?ds - 1 = p + length (b # ?ds) - 1"
          unfolding c by (simp_all add: algebra_simps)
        have idx: "9 - (i + 1) = 8 - i" and le: "i + 1 \<le> 8" using False by simp_all
        have rec: "scan_code (b # bs) i True p c =
          (if ?ds = [] \<or> 10 ^ (p + length (b # ?ds) - 1) < (65536 :: nat) \<and> ?v < 65536
           then Ok (word_of_nat ?v) else Panic)"
          unfolding step if_not_P [OF False] Cons.IH [OF le] idx eq ..
        have "10 ^ (p + length (b # ?ds) - 1) < (65536 :: nat) \<and> ?v < 65536" if "?ds = []"
          using ok that by simp
        then show ?thesis unfolding ds rec by (metis list.distinct(1))
      qed
    qed
  qed
qed

lemma scan_not_started:
  assumes "i \<le> 8"
  shows "scan_code bs i False 0 0 =
    scan_code (dropWhile (\<lambda>b. \<not> is_digit b) (take (9 - i) bs)) 0 True 0 0"
  using assms
proof (induction bs arbitrary: i)
  case Nil
  then show ?case by simp
next
  case (Cons b bs)
  show ?case
  proof (cases "is_digit b")
    case True
    have "length (dropWhile (\<lambda>b. \<not> is_digit b) (take (9 - i) (b # bs))) \<le> 9"
      by (rule le_trans [OF length_dropWhile_le]) simp
    have "takeWhile is_digit (take (9 - i) (b # bs)) =
        takeWhile is_digit (take (9 - 0) (take (9 - i) (b # bs)))" by simp
    moreover have "scan_code (b # bs) i False 0 0 = scan_code (b # bs) i True 0 0" using True by simp
    ultimately show ?thesis
      using True Cons.prems scan_started [of i "b # bs" 0 0] scan_started [of 0 "take (9 - i) (b # bs)" 0 0]
      by (simp add: take_Cons')
  next
    case False
    show ?thesis
    proof (cases "7 < i")
      case True
      then show ?thesis using False Cons.prems by (simp add: take_Cons')
    next
      case less: False
      then have "take (9 - i) (b # bs) = b # take (9 - (i + 1)) bs" by (simp add: take_Cons')
      then show ?thesis using False less Cons.IH [of "i + 1"] by simp
    qed
  qed
qed

lemma pow_10_bound: "10 ^ n < (65536 :: nat) \<longleftrightarrow> n \<le> 4"
proof -
  have "(10 :: nat) ^ 5 \<le> 10 ^ n" if "\<not> n \<le> 4" using that by (intro power_increasing) auto
  moreover have "(10 :: nat) ^ n \<le> 10 ^ 4" if "n \<le> 4" using that by (intro power_increasing) auto
  ultimately show ?thesis by (cases "n \<le> 4") auto
qed

lemma length_code_digits: "length (code_digits piece) \<le> 9"
proof -
  have "length (code_digits piece) \<le> length (take 9 (rev piece))"
    unfolding code_digits_def by (meson le_trans length_dropWhile_le length_takeWhile_le)
  then show ?thesis by simp
qed

lemma piece_code_exact:
  "piece_code piece =
     (let ds = code_digits piece in
      if length ds \<le> 5 \<and> dec ds < 65536
      then Ok (if dec ds = 0 then None else Some (word_of_nat (dec ds))) else Panic)"
proof -
  let ?bs = "dropWhile (\<lambda>b. \<not> is_digit b) (take 9 (rev piece))"
  let ?ds = "code_digits piece"
  have "length ?bs \<le> 9" by (rule le_trans [OF length_dropWhile_le]) simp
  then have ds: "takeWhile is_digit (take (9 - 0) ?bs) = ?ds" by (simp add: code_digits_def)
  have five: "?ds = [] \<or> 10 ^ (0 + length ?ds - 1) < (65536 :: nat) \<longleftrightarrow> length ?ds \<le> 5"
    unfolding pow_10_bound by (cases ?ds) auto
  have "scan_code (rev piece) 0 False 0 0 = scan_code ?bs 0 True 0 0"
    using scan_not_started [of 0 "rev piece"] by simp
  also have "\<dots> = (if length ?ds \<le> 5 \<and> dec ?ds < 65536 then Ok (word_of_nat (dec ?ds)) else Panic)"
    using five scan_started [of 0 ?bs 0 0, unfolded ds] by (cases "?ds = []") auto
  finally have scan: "scan_code (rev piece) 0 False 0 0 =
      (if length ?ds \<le> 5 \<and> dec ?ds < 65536 then Ok (word_of_nat (dec ?ds)) else Panic)" .
  have "word_of_nat (dec ?ds) = (0 :: u16) \<longleftrightarrow> dec ?ds = 0" if "dec ?ds < 65536"
    using that by (simp add: word_unat_eq_iff unat_of_nat)
  then show ?thesis unfolding piece_code_def scan Let_def by simp
qed

text \<open>
  C20. The scan for a code agrees with its specification on every text: it finds the last run of
  digits within the last nine bytes, and returns its decimal value if that is not zero.  A
  value that does not fit 16 bits, or more than five digits, panics instead of being reported
  as an unreadable reference system.
\<close>

theorem epsg_scan_exact:
  "get_epsg_from_wkt_crs_bytes wkt =
     (let text = from_utf8_lossy wkt;
          pieces = (case split_once VERT text of Some (h, v) \<Rightarrow> [h, v] | None \<Rightarrow> [text]);
          runs = map code_digits pieces;
          code = (\<lambda>ds. if dec ds = 0 then None else Some (word_of_nat (dec ds)))
      in if list_ex (\<lambda>ds. 5 < length ds \<or> 65536 \<le> dec ds) runs then Panic
         else case code (hd runs) of
                None \<Rightarrow> Err UnreadableWktCrs
              | Some c \<Rightarrow> Ok (Some \<lparr>ec_horizontal = c,
                  ec_vertical = (case tl runs of [] \<Rightarrow> None | v # _ \<Rightarrow> code v)\<rparr>))"
proof (cases "split_once VERT (from_utf8_lossy wkt)")
  case None
  then show ?thesis
    by (simp add: get_epsg_from_wkt_crs_bytes_def Let_def piece_code_exact not_le not_less split: option.splits)
next
  case (Some x)
  then show ?thesis
    by (cases x) (simp add: get_epsg_from_wkt_crs_bytes_def Let_def piece_code_exact not_le not_less split: option.splits)
qed

section \<open>Setting a reference system\<close>

fun decimal :: "nat \<Rightarrow> bytes" where
  "decimal n =
     (if n < 10 then [word_of_nat (48 + n)] else decimal (n div 10) @ [word_of_nat (48 + n mod 10)])"

declare decimal.simps [simp del]

lemma digit_of_nat: "n < 10 \<Longrightarrow> is_digit (word_of_nat (48 + n)) \<and> unat (word_of_nat (48 + n) :: u8) = 48 + n"
proof -
  assume n: "n < 10"
  then have "unat (word_of_nat (48 + n) :: u8) = 48 + n" by (intro unat_of_nat_eq) simp
  with n show ?thesis by (simp add: is_digit_def word_le_nat_alt)
qed

lemma decimal_digits: "list_all is_digit (decimal n) \<and> dec (rev (decimal n)) = n \<and> decimal n \<noteq> []"
proof (induction n rule: decimal.induct)
  case (1 n)
  show ?case
  proof (cases "n < 10")
    case True
    with digit_of_nat [OF True] show ?thesis by (subst (1 2 3) decimal.simps) simp
  next
    case False
    have m: "n mod 10 < 10" by simp
    from 1 [OF False] digit_of_nat [OF m] False show ?thesis
      by (subst (1 2 3) decimal.simps) simp
  qed
qed

lemma length_decimal: "n < 10 ^ Suc k \<Longrightarrow> length (decimal n) \<le> Suc k"
proof (induction k arbitrary: n)
  case 0
  then show ?case by (simp add: decimal.simps)
next
  case (Suc k)
  then have "n div 10 < 10 ^ Suc k" by (simp add: less_mult_imp_div_less)
  from Suc.IH [OF this] show ?case by (subst decimal.simps) simp
qed

lemma code_digits_text:
  assumes "\<not> is_digit q" "list_all is_digit ds" "ds \<noteq> []" "list_all (\<lambda>b. \<not> is_digit b) suf"
    and "length ds + length suf \<le> 9"
  shows "code_digits (pre @ q # ds @ suf) = rev ds"
proof -
  let ?rest = "take (9 - (length ds + length suf)) (q # rev pre)"
  have "take 9 (rev (pre @ q # ds @ suf)) = rev suf @ rev ds @ ?rest"
    using assms(5) by (simp add: add.commute)
  moreover have "dropWhile (\<lambda>b. \<not> is_digit b) (rev suf @ rev ds @ ?rest) = rev ds @ ?rest"
    using assms(2,3,4) by (cases ds rule: rev_cases) (auto simp: list_all_iff dropWhile_append)
  moreover have "takeWhile is_digit (rev ds @ ?rest) = rev ds"
    using assms(1,2) by (auto simp: list_all_iff takeWhile_append take_Cons')
  ultimately show ?thesis by (simp add: code_digits_def)
qed

lemma wkt_is_projection: "is_wkt_vlr v \<Longrightarrow> is_projection v"
  by (simp add: is_wkt_vlr_def is_projection_def)

lemma no_projection_left: "v \<in> set (all_vlrs (remove_crs_vlrs h)) \<Longrightarrow> \<not> is_projection v"
  by (auto simp: all_vlrs_def remove_crs_vlrs_def)

lemma crs_vlr_new:
  fixes raw :: raw_vlr
  assumes "rv_user_id raw = projection_user_id" "rv_record_id raw = 2112"
  shows "is_wkt_vlr (vlr_new raw)" "v_data (vlr_new raw) = rv_data raw"
proof -
  have "as_las_str (butlast projection_user_id @ replicate 1 0) = Ok (butlast projection_user_id)"
    by (rule as_las_str_padded) (simp add: las_str_def is_ascii_def projection_user_id_def)
  then have "as_las_string_lossy projection_user_id = butlast projection_user_id"
    by (simp add: as_las_string_lossy_def projection_user_id_def)
  then show "is_wkt_vlr (vlr_new raw)"
    using assms by (simp add: vlr_new_def is_wkt_vlr_def projection_user_id_def LASF_PROJECTION_def ascii_lower_def)
  show "v_data (vlr_new raw) = rv_data raw" by (simp add: vlr_new_def)
qed

lemma set_wkt_crs_cases:
  assumes "\<not> h_version h < Version 1 4"
  obtains v where "is_wkt_vlr v" "v_data v = wkt"
    and "set_wkt_crs wkt (remove_crs_vlrs h) =
      Ok ((remove_crs_vlrs h)
           \<lparr>h_vlrs := h_vlrs (remove_crs_vlrs h) @ (if u16_MAX < length wkt then [] else [v]),
            h_evlrs := h_evlrs (remove_crs_vlrs h) @ (if u16_MAX < length wkt then [v] else []),
            h_has_wkt_crs := True\<rparr>)"
proof -
  have "\<not> list_ex is_projection (all_vlrs (remove_crs_vlrs h))"
    using no_projection_left by (auto simp: list_ex_iff)
  moreover have "h_version (remove_crs_vlrs h) = h_version h" by (simp add: remove_crs_vlrs_def)
  moreover define v where "v = vlr_new \<lparr>rv_reserved = 0, rv_user_id = projection_user_id, rv_record_id = 2112,
    rv_record_length_after_header = (if u16_MAX < length wkt then REvlr (word_of_nat (length wkt))
      else RVlr (word_of_nat (length wkt))),
    rv_description = replicate 32 0, rv_data = wkt\<rparr>"
  ultimately have "set_wkt_crs wkt (remove_crs_vlrs h) =
      Ok ((remove_crs_vlrs h)
           \<lparr>h_vlrs := h_vlrs (remove_crs_vlrs h) @ (if u16_MAX < length wkt then [] else [v]),
            h_evlrs := h_evlrs (remove_crs_vlrs h) @ (if u16_MAX < length wkt then [v] else []),
            h_has_wkt_crs := True\<rparr>)"
    using assms by (cases "u16_MAX < length wkt") (simp_all add: set_wkt_crs_def)
  then show ?thesis by (rule that [rotated 2]) (simp_all add: v_def crs_vlr_new)
qed

text \<open>
  C25. After removing the records of reference systems, a well-known text can be set in a header
  of version 1.4 or later: the text is found again, as a regular record if it fits one and as
  an extended one otherwise, a code at its end is read, a second text is refused, and removing
  the records again gives the header without them.  In an earlier version it is refused.
\<close>

theorem wkt_crs_set_and_read:
  assumes "\<not> h_version h < Version 1 4" "\<not> is_digit q" "list_all (\<lambda>b. \<not> is_digit b) suf"
    and "length (decimal n) + length suf \<le> 9" "0 < n" "n < 65536"
    and "wkt = pre @ q # decimal n @ suf" "is_ascii wkt" "split_once VERT wkt = None"
  shows "\<exists>h'. set_wkt_crs wkt (remove_crs_vlrs h) = Ok h' \<and>
     get_wkt_crs_bytes h' = Some wkt \<and> h_has_wkt_crs h' \<and>
     get_epsg_crs h' = Ok (Some \<lparr>ec_horizontal = word_of_nat n, ec_vertical = None\<rparr>) \<and>
     (length wkt \<le> u16_MAX \<longleftrightarrow> h_evlrs h' = h_evlrs (remove_crs_vlrs h)) \<and>
     (\<forall>wkt2. set_wkt_crs wkt2 h' = Err HeaderContainsCrsVlr) \<and>
     remove_crs_vlrs h' = remove_crs_vlrs h \<and>
     (\<forall>v < Version 1 4. set_wkt_crs wkt (h\<lparr>h_version := v\<rparr>) = Err (UnsupportedFeature v ''WKT CRS VLR''))"
proof -
  let ?r = "remove_crs_vlrs h"
  from set_wkt_crs_cases [OF assms(1), where wkt = wkt] obtain v where v: "is_wkt_vlr v" "v_data v = wkt"
    and s: "set_wkt_crs wkt ?r = Ok (?r
           \<lparr>h_vlrs := h_vlrs ?r @ (if u16_MAX < length wkt then [] else [v]),
            h_evlrs := h_evlrs ?r @ (if u16_MAX < length wkt then [v] else []), h_has_wkt_crs := True\<rparr>)"
    by metis
  define h' where "h' = ?r\<lparr>h_vlrs := h_vlrs ?r @ (if u16_MAX < length wkt then [] else [v]),
            h_evlrs := h_evlrs ?r @ (if u16_MAX < length wkt then [v] else []), h_has_wkt_crs := True\<rparr>"
  have none: "find is_wkt_vlr (h_vlrs ?r) = None" "find is_wkt_vlr (h_evlrs ?r) = None"
    using wkt_is_projection by (auto simp: find_None_iff remove_crs_vlrs_def)
  then have get: "get_wkt_crs_bytes h' = Some wkt"
    using v by (simp add: get_wkt_crs_bytes_def all_vlrs_def h'_def find_append)
  have "code_digits wkt = rev (decimal n)"
    unfolding assms(7) using decimal_digits [of n] assms(2,3,4) by (intro code_digits_text) auto
  moreover have "length (decimal n) \<le> 5" using length_decimal [of n 4] assms(6) by simp
  ultimately have epsg: "get_epsg_from_wkt_crs_bytes wkt = Ok (Some \<lparr>ec_horizontal = word_of_nat n, ec_vertical = None\<rparr>)"
    using assms(5,6,9) decimal_digits [of n] from_utf8_lossy_valid [OF utf8_valid_ascii [OF assms(8)]]
    by (simp add: get_epsg_from_wkt_crs_bytes_def piece_code_exact)
  have "list_ex is_projection (all_vlrs h')" using wkt_is_projection [OF v(1)] by (simp add: all_vlrs_def h'_def)
  then have again: "set_wkt_crs wkt2 h' = Err HeaderContainsCrsVlr" for wkt2
    using assms(1) by (simp add: set_wkt_crs_def h'_def remove_crs_vlrs_def)
  have rem: "remove_crs_vlrs h' = ?r"
    using wkt_is_projection [OF v(1)] by (simp add: remove_crs_vlrs_def h'_def)
  have "get_epsg_crs h' = Ok (Some \<lparr>ec_horizontal = word_of_nat n, ec_vertical = None\<rparr>)"
    by (simp add: get_epsg_crs_def get epsg)
  moreover have "h_has_wkt_crs h'" "length wkt \<le> u16_MAX \<longleftrightarrow> h_evlrs h' = h_evlrs ?r"
    by (simp_all add: h'_def not_less)
  moreover have "set_wkt_crs wkt (h\<lparr>h_version := v\<rparr>) = Err (UnsupportedFeature v ''WKT CRS VLR'')"
    if "v < Version 1 4" for v using that by (simp add: set_wkt_crs_def)
  ultimately show ?thesis using s [folded h'_def] get again rem by blast
qed

theorem wkt_crs_set_and_read_witness:
  "\<exists>h'. set_wkt_crs [0x22, 0x33, 0x30, 0x30, 0x36, 0x22, 0x5D] (remove_crs_vlrs (file_header False)) = Ok h' \<and>
     get_wkt_crs_bytes h' = Some [0x22, 0x33, 0x30, 0x30, 0x36, 0x22, 0x5D] \<and>
     get_epsg_crs h' = Ok (Some \<lparr>ec_horizontal = 3006, ec_vertical = None\<rparr>)"
proof -
  have dec: "decimal 3006 = [0x33, 0x30, 0x30, 0x36]" by (simp add: decimal.simps)
  have "\<not> h_version (file_header False) < Version 1 4" by (simp add: file_header_def)
  moreover have "\<not> is_digit 0x22" "list_all (\<lambda>b. \<not> is_digit b) [0x22, 0x5D]"
    by (simp_all add: is_digit_def word_le_nat_alt)
  moreover have "[0x22, 0x33, 0x30, 0x30, 0x36, 0x22, 0x5D] = [] @ 0x22 # decimal 3006 @ [0x22, 0x5D]" by (simp add: dec)
  moreover have "length (decimal 3006) + length [0x22 :: u8, 0x5D] \<le> 9" by (simp add: dec)
  moreover have "is_ascii [0x22, 0x33, 0x30, 0x30, 0x36, 0x22, 0x5D]" by (simp add: is_ascii_def word_less_nat_alt)
  moreover have "split_once VERT [0x22, 0x33, 0x30, 0x30, 0x36, 0x22, 0x5D] = None" by (simp add: VERT_def)
  ultimately have "\<exists>h'. set_wkt_crs [0x22, 0x33, 0x30, 0x30, 0x36, 0x22, 0x5D] (remove_crs_vlrs (file_header False)) = Ok h' \<and>
     get_wkt_crs_bytes h' = Some [0x22, 0x33, 0x30, 0x30, 0x36, 0x22, 0x5D] \<and>
     get_epsg_crs h' = Ok (Some \<lparr>ec_horizontal = word_of_nat 3006, ec_vertical = None\<rparr>)"
    using wkt_crs_set_and_read [where h = "file_header False" and q = "0x22" and suf = "[0x22, 0x5D]"
        and n = 3006 and wkt = "[0x22, 0x33, 0x30, 0x30, 0x36, 0x22, 0x5D]" and pre = "[]"] by auto
  then show ?thesis by simp
qed

section \<open>GeoTIFF keys\<close>

text \<open>The directory of keys whose values are in the directory itself.\<close>

definition enc_key :: "u16 \<times> u16 \<Rightarrow> bytes" where
  "enc_key = (\<lambda>(ident, value). to_le 2 ident @ to_le 2 (0 :: u16) @ to_le 2 (1 :: u16) @ to_le 2 value)"

definition enc_directory :: "(u16 \<times> u16) list \<Rightarrow> bytes" where
  "enc_directory keys =
     to_le 2 (1 :: u16) @ to_le 2 (1 :: u16) @ to_le 2 (0 :: u16) @ to_le 2 (word_of_nat (length keys) :: u16)
     @ concat (map enc_key keys)"

definition short_key :: "u16 \<times> u16 \<Rightarrow> geo_tiff_key_entry" where
  "short_key = (\<lambda>(ident, value). \<lparr>gk_id = ident, gk_data = GU16 value\<rparr>)"

text \<open>The value of the last key with one of some identifiers.\<close>

definition last_value :: "u16 set \<Rightarrow> (u16 \<times> u16) list \<Rightarrow> u16 option" where
  "last_value ids keys = map_option snd (find (\<lambda>(ident, _). ident \<in> ids) (rev keys))"

lemma reads_short_key: "reads (geo_key_read_from d a) (enc_key k) (short_key k)"
proof (cases k)
  case (Pair ident v)
  have "reads (geo_key_read_from d a) (to_le 2 ident @ to_le 2 (0 :: u16) @ to_le 2 (1 :: u16) @ to_le 2 v) (short_key k)"
    unfolding geo_key_read_from_def
    apply (rule reads_bind, rule prim_reads)+
    apply (simp only: if_True simp_thms io_bind_lift)
    apply (rule reads_map, rule prim_reads)
    apply (simp add: short_key_def Pair)
    done
  then show ?thesis by (simp add: enc_key_def Pair)
qed

lemma geo_tiff_read_directory:
  assumes "length keys < 65536"
  shows "geo_tiff_read_from (enc_directory keys) d a = Ok \<lparr>gt_entries = map short_key keys\<rparr>"
proof -
  have n: "unat (word_of_nat (length keys) :: u16) = length keys" using assms by (intro unat_of_nat_eq) simp
  have "reads (io_times (length ks) (geo_key_read_from d a)) (concat (map enc_key ks)) (map short_key ks)" for ks
  proof (induction ks)
    case Nil
    then show ?case by (simp add: reads_return)
  next
    case (Cons k ks)
    show ?case unfolding list.size io_times.simps add_Suc_right add_0_right list.map concat.simps
      by (rule reads_bind [OF reads_short_key], rule reads_map [OF Cons]) simp
  qed
  from this [of keys] have "reads (io_bind read_u16 (\<lambda>_. io_bind read_u16 (\<lambda>_. io_bind read_u16 (\<lambda>_.
          io_bind read_u16 (\<lambda>num_keys.
          io_bind (io_times (unat num_keys) (geo_key_read_from d a)) (\<lambda>entries.
          io_return \<lparr>gt_entries = entries\<rparr>))))))
      (enc_directory keys) \<lparr>gt_entries = map short_key keys\<rparr>"
    unfolding enc_directory_def
    by - ((rule reads_bind, rule prim_reads)+, unfold n, rule reads_map, assumption, rule refl)
  then show ?thesis by (simp add: geo_tiff_read_from_def reads_def ahead_def)
qed

lemma last_value_Cons:
  "last_value ids (k # ks) =
     (case last_value ids ks of Some v \<Rightarrow> Some v | None \<Rightarrow> if fst k \<in> ids then Some (snd k) else None)"
  by (auto simp: last_value_def find_append split: option.splits)

lemma geotiff_codes_short:
  assumes "list_all (\<lambda>(ident, v). ident = 1024 \<longrightarrow> v \<in> {1, 2, 3}) keys"
  shows "geotiff_codes (map short_key keys) (a, b) =
    Ok (case last_value {2048, 3072} keys of Some v \<Rightarrow> Some v | None \<Rightarrow> a,
        case last_value {4096} keys of Some v \<Rightarrow> Some v | None \<Rightarrow> b)"
  using assms
proof (induction keys arbitrary: a b)
  case Nil
  then show ?case by (simp add: last_value_def)
next
  case (Cons k ks)
  then show ?case
    by (cases k) (auto simp: last_value_Cons short_key_def split: option.splits)
qed

text \<open>GeoTIFF data is read without panics.\<close>

lemma no_panic_fst: "no_panic m \<Longrightarrow> fst (m s) \<noteq> Panic"
  by (simp add: no_panic_def)

lemma no_panic_seek [safe]: "no_panic (seek_start n)"
  by (simp add: no_panic_def seek_start_def)

lemma ok_or_not_Panic: "ok_or x e \<noteq> Panic"
  by (cases x) simp_all

lemma read_doubles_not_Panic: "read_doubles n k bs \<noteq> Panic"
  unfolding read_doubles_def by (rule no_panic_fst) (intro safe)

lemma read_chars_not_Panic: "read_chars n k bs \<noteq> Panic"
  unfolding read_chars_def and_then_eq_Panic
  using no_panic_fst [of "io_bind (seek_start (unat n)) (\<lambda>_. io_times (unat k) read_u8)"]
  by (auto intro: safe)

lemma no_panic_geo_key: "no_panic (geo_key_read_from d a)"
proof -
  have "(if location = (0 :: u16) then Ok (GU16 n)
        else if location = 34736
        then and_then (ok_or d UnreadableGeoTiffCrs) (\<lambda>bs.
             and_then (read_doubles n k bs) (\<lambda>ds. Ok (GDoubles ds)))
        else if location = 34737
        then and_then (ok_or a UnreadableGeoTiffCrs) (\<lambda>bs.
             and_then (read_chars n k bs) (\<lambda>cs. Ok (GString cs)))
        else Err (UndefinedDataForGeoTiffKey ident)) \<noteq> Panic" for location n k ident
    by (simp add: and_then_eq_Panic ok_or_not_Panic read_doubles_not_Panic read_chars_not_Panic)
  then show ?thesis unfolding geo_key_read_from_def by (intro safe)
qed

lemma geotiff_codes_not_Panic: "geotiff_codes es out \<noteq> Panic"
  by (induction es arbitrary: out) (auto split: geo_tiff_data.splits if_splits)

lemma get_geotiff_crs_not_Panic: "get_geotiff_crs h \<noteq> Panic"
proof -
  have "geo_tiff_read_from m d a \<noteq> Panic" for m d a
    unfolding geo_tiff_read_from_def by (rule no_panic_fst) (intro safe no_panic_geo_key)
  then show ?thesis
    by (auto simp: get_geotiff_crs_def and_then_eq_Panic split: prod.splits option.splits)
qed

text \<open>
  C26. The codes of a header without well-known text come from the directory of GeoTIFF keys in
  the last record for it: the horizontal code is the value of the last projected or geographic
  key, the vertical code that of the last vertical key, and without a horizontal code the
  reference system is unreadable.  Whatever the records hold, looking for GeoTIFF codes
  does not panic.
\<close>

theorem geotiff_codes_read:
  assumes "fold place_geotiff (all_vlrs h) (None, None, None) = (Some (enc_directory keys), d, a)"
    and "length keys < 65536" "list_all (\<lambda>(ident, v). ident = 1024 \<longrightarrow> v \<in> {1, 2, 3}) keys"
    and "get_wkt_crs_bytes h = None"
  shows "get_epsg_crs h =
      (case last_value {2048, 3072} keys of
         None \<Rightarrow> Err UnreadableGeoTiffCrs
       | Some c \<Rightarrow> Ok (Some \<lparr>ec_horizontal = c, ec_vertical = last_value {4096} keys\<rparr>)) \<and>
    (\<forall>g :: ('d, 'u) header. get_wkt_crs_bytes g = None \<longrightarrow> get_epsg_crs g \<noteq> Panic)"
proof (intro conjI allI impI)
  have "get_geotiff_crs h = Ok (Some \<lparr>gt_entries = map short_key keys\<rparr>)"
    using assms(1) by (simp add: get_geotiff_crs_def geo_tiff_read_directory [OF assms(2)])
  then show "get_epsg_crs h =
      (case last_value {2048, 3072} keys of
         None \<Rightarrow> Err UnreadableGeoTiffCrs
       | Some c \<Rightarrow> Ok (Some \<lparr>ec_horizontal = c, ec_vertical = last_value {4096} keys\<rparr>))"
    using assms(4) geotiff_codes_short [OF assms(3), of None None]
    by (auto simp: get_epsg_crs_def get_epsg_from_geotiff_crs_def split: option.splits)
next
  fix g :: "('d, 'u) header"
  assume "get_wkt_crs_bytes g = None"
  then show "get_epsg_crs g \<noteq> Panic"
    using get_geotiff_crs_not_Panic [of g] geotiff_codes_not_Panic
    by (auto simp: get_epsg_crs_def get_epsg_from_geotiff_crs_def and_then_eq_Panic split: option.splits)
qed

definition geotiff_header :: "(int \<times> day_of_year, 128 word) header" where
  "geotiff_header = (file_header False)
     \<lparr>h_vlrs := [\<lparr>v_user_id = LASF_PROJECTION, v_record_id = 34735, v_description = [],
        v_data = enc_directory [(1024, 1), (3072, 25832), (4096, 5941)]\<rparr>]\<rparr>"

theorem geotiff_codes_read_witness:
  "get_epsg_crs geotiff_header = Ok (Some \<lparr>ec_horizontal = 25832, ec_vertical = Some 5941\<rparr>)"
proof -
  have lower: "map ascii_lower LASF_PROJECTION = LASF_PROJECTION"
    by (simp add: LASF_PROJECTION_def ascii_lower_def word_le_nat_alt)
  have "all_vlrs geotiff_header = [\<lparr>v_user_id = LASF_PROJECTION, v_record_id = 34735, v_description = [],
        v_data = enc_directory [(1024, 1), (3072, 25832), (4096, 5941)]\<rparr>]"
    by (simp add: all_vlrs_def geotiff_header_def file_header_def header_default_def)
  then have "fold place_geotiff (all_vlrs geotiff_header) (None, None, None)
      = (Some (enc_directory [(1024, 1), (3072, 25832), (4096, 5941)]), None, None)"
    "get_wkt_crs_bytes geotiff_header = None"
    by (simp_all add: place_geotiff_def is_projection_def get_wkt_crs_bytes_def is_wkt_vlr_def lower)
  from geotiff_codes_read [OF this(1) _ _ this(2)] show ?thesis by (auto simp: last_value_def)
qed

end
