(* ===== verification/Spec2Isabelle.thy ===== *)
theory Spec2Isabelle
  imports Writer_Closing File_Offsets Copc_Properties Crs_Properties
begin

text \<open>
  \<^bold>\<open>The las-rs crate: reading and writing of las point cloud files.\<close>

  \<^bold>\<open>The program.\<close>  A las file is a header block, variable length records, point records of
  one of eleven formats, and extended variable length records; the points may be compressed
  (laz), and a compressed file may hold an octree of chunks (copc).  The crate has a raw layer
  (\<^verbatim>\<open>src/raw/\<close>), whose structures have the fields of the file, and a layer of checked
  structures above it (\<^verbatim>\<open>Header\<close>, \<^verbatim>\<open>Builder\<close>, \<^verbatim>\<open>Vlr\<close>, \<^verbatim>\<open>Point\<close>).  A \<^verbatim>\<open>Reader\<close> reads a header
  from a stream and hands out points through one of two implementations of \<^verbatim>\<open>ReadPoints\<close>; a
  \<^verbatim>\<open>Writer\<close> writes a header with the counts still missing, appends points through an
  implementation of \<^verbatim>\<open>WritePoint\<close> that keeps counting in its header, and rewrites the header
  when it is closed.  A \<^verbatim>\<open>CopcEntryReader\<close> reads the chunks of an octree.

  \<^bold>\<open>Conventions.\<close>
  \<^item> Machine integers are words of their width.  Additions, subtractions and multiplications that
    the language checks are \<open>checked_add\<close> and so on and yield \<open>Panic\<close> on overflow; casts wrap or
    saturate as written.  Floating-point numbers are IEEE 754 bit patterns with the arithmetic
    written out (theory \<open>Floats\<close>); strings are their UTF-8 bytes.
  \<^item> A call returns an \<open>outcome\<close>: \<open>Ok\<close>, \<open>Err\<close> with a value of the crate's error enum, or \<open>Panic\<close> for
    failed assertions, \<^verbatim>\<open>expect\<close>, out-of-range slices and overflow.
  \<^item> Calls on a stream are functions from a state to an outcome and a state (\<open>io\<close> of \<open>Streams\<close>), so
    that what a failed call leaves behind is part of the model.  The stream is an in-memory
    cursor: bytes and a position, a natural number that is wrapped to 64 bits where the code
    stores it.
  \<^item> Code outside the repository is a parameter: \<open>env\<close> holds what \<^verbatim>\<open>chrono\<close>, \<^verbatim>\<open>uuid\<close> and the build
    provide, \<open>laz\<close> and \<open>layered\<close> the compressors of the \<^verbatim>\<open>laz\<close> crate.  Their documented behaviour
    is in named hypotheses (\<open>chrono_laws\<close>, \<open>uuid_laws\<close> and those on the compressors), and the
    witnesses instantiate them with concrete functions, in particular with a compression that
    stores the records.
  \<^item> No definition takes fuel.  Loops are structural recursions, or functions with a
    termination proof; reading past the end of a finite stream is an error, which bounds the rest.

  \<^bold>\<open>The theories, with the sources they model.\<close>
  \<^item> \<open>Prelude\<close>, \<open>Floats\<close>, \<open>Streams\<close>: words and byte order, floating point, and streams; the locales
    \<open>serial\<close> and \<open>codec\<close> are the interface of everything that is written to and read from a
    stream, interpreted for each structure.  \<open>Float_Error\<close>, \<open>Float_Rounding\<close> and \<open>Float_Types\<close>: the
    operations as monotone roundings of the exact real result, proved for every precision in the
    locale \<open>precision\<close> and interpreted for \<^verbatim>\<open>f64\<close> and \<^verbatim>\<open>f32\<close>.
  \<^item> \<open>Las_Types\<close> (\<^verbatim>\<open>error.rs\<close> and plain structures), \<open>Las_Version\<close> (\<^verbatim>\<open>version.rs\<close>, \<^verbatim>\<open>feature.rs\<close>,
    \<^verbatim>\<open>gps_time_type.rs\<close>), \<open>Point_Format\<close> (\<^verbatim>\<open>point/format.rs\<close>, \<^verbatim>\<open>point/classification.rs\<close>),
    \<open>Las_Strings\<close> (\<^verbatim>\<open>utils.rs\<close>).
  \<^item> \<open>Raw_Point\<close> (\<^verbatim>\<open>raw/point.rs\<close>, \<^verbatim>\<open>color.rs\<close>, \<^verbatim>\<open>point/scan_direction.rs\<close>), \<open>Transforms\<close>
    (\<^verbatim>\<open>transform.rs\<close>), \<open>Las_Point\<close> (\<^verbatim>\<open>point/mod.rs\<close>, \<^verbatim>\<open>bounds.rs\<close>), \<open>Coordinates\<close> (what points keep
    of the integer coordinates), \<open>Vlrs\<close> (\<^verbatim>\<open>raw/vlr.rs\<close>, \<^verbatim>\<open>vlr.rs\<close>), \<open>Raw_Header\<close>
    (\<^verbatim>\<open>raw/header.rs\<close>), \<open>Las_Header\<close> and \<open>Header_Counts\<close> (\<^verbatim>\<open>header/mod.rs\<close>, \<^verbatim>\<open>header/builder.rs\<close>),
    \<open>Laz\<close> (\<^verbatim>\<open>laz.rs\<close>).
  \<^item> \<open>Las_Reader\<close> (\<^verbatim>\<open>reader/\<close>) with \<open>Reader_Contract\<close> and \<open>Reader_Properties\<close>; \<open>Las_Writer\<close>
    (\<^verbatim>\<open>writer/\<close>) with \<open>Writer_Contract\<close>, \<open>Writer_Properties\<close> and \<open>Writer_Closing\<close>; \<open>Whole_File\<close>,
    \<open>File_Bounds\<close> and \<open>File_Offsets\<close>, where both meet.  The traits \<^verbatim>\<open>ReadPoints\<close> and \<^verbatim>\<open>WritePoint\<close> are the locales \<open>point_stream\<close>, \<open>point_source\<close>,
    \<open>steady_source\<close> and \<open>point_sink\<close>, interpreted for the uncompressed and the compressed
    implementation and for \<^verbatim>\<open>Reader\<close> and \<^verbatim>\<open>Writer\<close>.
  \<^item> \<open>Copc\<close>, \<open>Octree\<close> and \<open>Copc_Properties\<close> (\<^verbatim>\<open>copc.rs\<close>), with the iterator over the entries as the
    locale \<open>item_iterator\<close>; \<open>Crs\<close> and \<open>Crs_Properties\<close> (\<^verbatim>\<open>crs.rs\<close>).

  A record has the fields of its struct, with a prefix; a method is a definition of its name,
  with the prefix of its type where two types share the name.  \<^verbatim>\<open>HashMap\<close>s are association
  lists, and what depends on the iteration order of one is stated for every order.

  \<^bold>\<open>What is shown.\<close>
  \<^item> \<^emph>\<open>Files:\<close> a file that was written and closed is read back, compressed or not: its header with
    the number of points, the stored bounds and the counts by return that a reader takes, and
    exactly the points, as the format and the transforms keep them; the stored bounds enclose the
    points that are read.
    Headers, records, raw points, colours, hierarchies and reference systems are read back
    as written, each with the exceptions the code makes.
  \<^item> \<^emph>\<open>Numbers:\<close> the errors of the four roundings between an integer coordinate and its recovery
    stay below half a step, so that points that are read are written again with the same
    coordinates; a scan angle loses at most one unit.
  \<^item> \<^emph>\<open>Readers\<close> refine a list of points with an index, for every sequence of calls: single and
    chunked reads, iteration, seeks (\<open>reader_answers\<close> against \<open>list_answers\<close>).  Iterating ends, whatever the bytes; a truncated file
    yields its whole records and then an error.
  \<^item> \<^emph>\<open>Writers:\<close> over every sequence of calls, failed ones among them, the header counts and bounds
    the points handed over, and a closed writer refuses every call; an uncompressed writer can be
    closed as long as its header can be stored.
  \<^item> \<^emph>\<open>Headers:\<close> when a builder can be built, the least version that supports it, the counts and
    bounds of added points, that reading the fixed part from arbitrary bytes does not panic, and
    that the points of a header that was read end where its fields say, or reading it panics on
    the overflow.
  \<^item> \<^emph>\<open>Octrees:\<close> the keys of a level correspond to the paths from the root; the iterator yields the
    flattened hierarchy; reading an entry yields its points; which orders of its pages a written
    hierarchy survives.
  \<^item> \<^emph>\<open>Failures:\<close> the panics and the lost data that the code has are stated as theorems of their own:
    points of format 10, a near infrared value of zero, a file behind other data, a seek past the
    end, an empty read of a compressed reader, a failing close, a refused point that is counted, that leaves a part of its record behind or that makes
    closing impossible, a second laszip record, a short hierarchy record.

  \<^bold>\<open>Not modelled.\<close>  Opening and creating files by path; formatting (\<^verbatim>\<open>Display\<close>, \<^verbatim>\<open>Debug\<close>) and log
  messages; accessors that return a field, which are the selectors of the records; the
  deprecated traits \<^verbatim>\<open>Read\<close> and \<^verbatim>\<open>Write\<close>, which forward to the methods of the same name; the
  choice between the sequential and the parallel compressor of the \<^verbatim>\<open>laz\<close> crate, both of which
  are instances of the parameter; and failures of the underlying stream other than the end of
  the data, since the stream is in memory.
\<close>

end
